(* ===== verification/Prelude.thy ===== *)
theory Prelude
  imports Main "HOL-Library.Word"
begin

text \<open>
  What every component shares: the machine integers and time types of the source, the
  collections of facts the component proofs draw on, and the two standard-library searches
  (first match, minimum by key) the scheduler and the GPU probe use, with their laws.
\<close>

section \<open>Types and time\<close>

type_synonym u8 = "8 word"
type_synonym u16 = "16 word"
type_synonym u32 = "32 word"
type_synonym u64 = "64 word"

text \<open>
  \<^verbatim>\<open>Duration\<close> and \<^verbatim>\<open>Instant\<close> are counted in nanoseconds (the resolution of the
  standard library's types); an instant is measured from an arbitrary origin of the
  monotonic clock.
\<close>

type_synonym duration = nat
type_synonym instant = nat

definition from_secs :: "nat \<Rightarrow> duration" where
  "from_secs n = n * 1000000000"

definition from_millis :: "nat \<Rightarrow> duration" where
  "from_millis n = n * 1000000"

text \<open>\<^verbatim>\<open>Instant::elapsed\<close> saturates at zero, as subtraction on \<^typ>\<open>nat\<close> does.\<close>

definition elapsed :: "instant \<Rightarrow> instant \<Rightarrow> duration" where
  "elapsed now taken = now - taken"

section \<open>Collections of facts\<close>

text \<open>
  \<open>frame_simps\<close>: what an operation leaves unchanged; \<open>sched_simps\<close>, \<open>lock_simps\<close>:
  effects of the operations of the two resources; \<open>eval_simps\<close>: the definitions unfolded
  to run a model on a concrete input.
\<close>

named_theorems frame_simps
named_theorems sched_simps
named_theorems lock_simps
named_theorems eval_simps

lemmas time_defs [eval_simps] = from_secs_def from_millis_def elapsed_def

section \<open>Searches of the standard library\<close>

text \<open>
  \<^verbatim>\<open>Iterator::min_by_key\<close> returns the first of the minimal elements,
  \<^verbatim>\<open>Iterator::max_by_key\<close> the last of the maximal ones; both return \<^verbatim>\<open>None\<close> on an
  empty iterator.
\<close>

fun min_by_key :: "('a \<Rightarrow> 'b::linorder) \<Rightarrow> 'a list \<Rightarrow> 'a option" where
  "min_by_key f [] = None"
| "min_by_key f (x # xs) =
     (case min_by_key f xs of
        None \<Rightarrow> Some x
      | Some y \<Rightarrow> if f y < f x then Some y else Some x)"

fun max_by_key :: "('a \<Rightarrow> 'b::linorder) \<Rightarrow> 'a list \<Rightarrow> 'a option" where
  "max_by_key f [] = None"
| "max_by_key f (x # xs) =
     (case max_by_key f xs of
        None \<Rightarrow> Some x
      | Some y \<Rightarrow> if f x \<le> f y then Some y else Some x)"

lemma min_by_key_None [simp]: "min_by_key f xs = None \<longleftrightarrow> xs = []"
  by (cases xs) (auto split: option.splits)

lemma min_by_key_mem: "min_by_key f xs = Some y \<Longrightarrow> y \<in> set xs"
  by (induction xs arbitrary: y) (auto split: option.splits if_splits)

lemma min_by_key_le: "min_by_key f xs = Some y \<Longrightarrow> x \<in> set xs \<Longrightarrow> f y \<le> f x"
proof (induction xs arbitrary: y x)
  case Nil
  then show ?case by simp
next
  case (Cons z zs)
  show ?case
  proof (cases "min_by_key f zs")
    case None
    with Cons.prems show ?thesis by simp
  next
    case (Some m)
    with Cons.prems(1) have y: "y = (if f m < f z then m else z)" by (simp split: if_splits)
    from Cons.IH [OF Some] have "x \<in> set zs \<Longrightarrow> f m \<le> f x" .
    with y Cons.prems(2) show ?thesis by (cases "x = z") auto
  qed
qed

lemma max_by_key_None [simp]: "max_by_key f xs = None \<longleftrightarrow> xs = []"
  by (cases xs) (auto split: option.splits)

lemma max_by_key_mem: "max_by_key f xs = Some y \<Longrightarrow> y \<in> set xs"
  by (induction xs arbitrary: y) (auto split: option.splits if_splits)

lemma max_by_key_ge: "max_by_key f xs = Some y \<Longrightarrow> x \<in> set xs \<Longrightarrow> f x \<le> f y"
proof (induction xs arbitrary: y x)
  case Nil
  then show ?case by simp
next
  case (Cons z zs)
  show ?case
  proof (cases "max_by_key f zs")
    case None
    with Cons.prems show ?thesis by simp
  next
    case (Some m)
    with Cons.prems(1) have y: "y = (if f z \<le> f m then m else z)" by (simp split: if_splits)
    from Cons.IH [OF Some] have "x \<in> set zs \<Longrightarrow> f x \<le> f m" .
    with y Cons.prems(2) show ?thesis by (cases "x = z") auto
  qed
qed

text \<open>A minimum that is strictly below every other key is the one found.\<close>

lemma min_by_key_unique:
  assumes "y \<in> set xs" and "\<And>x. x \<in> set xs \<Longrightarrow> x \<noteq> y \<Longrightarrow> f y < f x"
  shows "min_by_key f xs = Some y"
proof -
  from assms(1) obtain z where z: "min_by_key f xs = Some z"
    by (cases "min_by_key f xs") auto
  have "z = y"
  proof (rule ccontr)
    assume "z \<noteq> y"
    with assms(2) min_by_key_mem [OF z] have "f y < f z" by blast
    with min_by_key_le [OF z assms(1)] show False by simp
  qed
  with z show ?thesis by simp
qed

section \<open>Lists by index\<close>

text \<open>Searches over \<^verbatim>\<open>iter().enumerate()\<close> return an index together with the element at it.\<close>

lemma mem_enumerate_iff:
  "(i, x) \<in> set (enumerate 0 xs) \<longleftrightarrow> i < length xs \<and> x = xs ! i"
  by (auto simp: in_set_enumerate_eq)

lemma find_enumerate_Some:
  assumes "List.find (\<lambda>(i, x). P x) (enumerate 0 xs) = Some (i, x)"
  shows "i < length xs \<and> x = xs ! i \<and> P x \<and> (\<forall>j<i. \<not> P (xs ! j))"
proof -
  from assms obtain k where k: "k < length xs"
    and ix: "(i, x) = enumerate 0 xs ! k" and P: "case enumerate 0 xs ! k of (i, x) \<Rightarrow> P x"
    and first: "\<forall>j<k. \<not> (case enumerate 0 xs ! j of (i, x) \<Rightarrow> P x)"
    unfolding find_Some_iff by auto
  from k ix have "i = k" and "x = xs ! k" by (simp_all add: nth_enumerate_eq)
  with k P first show ?thesis by (auto simp: nth_enumerate_eq)
qed

lemma set_enumerate_snd: "snd ` set (enumerate n xs) = set xs"
  by (metis list.set_map map_snd_enumerate)

lemma find_enumerate_None:
  "List.find (\<lambda>(i, x). P x) (enumerate 0 xs) = None \<longleftrightarrow> (\<forall>x\<in>set xs. \<not> P x)"
  unfolding find_None_iff set_enumerate_snd [of 0 xs, symmetric] by force

lemma filter_enumerate_Nil:
  "filter (\<lambda>(i, x). P x) (enumerate 0 xs) = [] \<longleftrightarrow> (\<forall>x\<in>set xs. \<not> P x)"
  unfolding filter_empty_conv set_enumerate_snd [of 0 xs, symmetric] by force

text \<open>The first index with the least key is the one \<open>min_by_key\<close> returns.\<close>

lemma min_by_key_first:
  "(\<And>x. x \<in> set us \<Longrightarrow> f y < f x) \<Longrightarrow> (\<And>x. x \<in> set vs \<Longrightarrow> f y \<le> f x) \<Longrightarrow>
     min_by_key f (us @ y # vs) = Some y"
proof (induction us)
  case Nil
  then show ?case
    by (fastforce split: option.splits dest: min_by_key_mem)
next
  case (Cons u us)
  then show ?case by auto
qed

lemma min_enumerate_first:
  assumes "i < length xs"
    and "\<And>j. j < i \<Longrightarrow> f (xs ! i) < f (xs ! j)"
    and "\<And>j. i < j \<Longrightarrow> j < length xs \<Longrightarrow> f (xs ! i) \<le> f (xs ! j)"
  shows "min_by_key (\<lambda>(_, x). f x) (enumerate 0 xs) = Some (i, xs ! i)"
proof -
  let ?es = "enumerate 0 xs"
  from assms(1) have split: "?es = take i ?es @ (i, xs ! i) # drop (Suc i) ?es"
    using id_take_nth_drop [of i ?es] by (simp add: nth_enumerate_eq)
  have "min_by_key (\<lambda>(_, x). f x) (take i ?es @ (i, xs ! i) # drop (Suc i) ?es) = Some (i, xs ! i)"
    by (rule min_by_key_first)
      (use assms in \<open>auto simp: in_set_conv_nth nth_enumerate_eq\<close>)
  with split show ?thesis by simp
qed

text \<open>To evaluate a model on a concrete number of slots.\<close>

lemma replicate_numeral_eval [eval_simps]:
  "replicate (numeral n) x = x # replicate (pred_numeral n) x"
  by (simp add: numeral_eq_Suc)

section \<open>Words\<close>

lemma unat_of_nat_small [simp]:
  "n < 2 ^ LENGTH('a) \<Longrightarrow> unat (of_nat n :: 'a::len word) = n"
  by (simp add: unat_of_nat)

lemma word_of_nat_less_small:
  "m < 2 ^ LENGTH('a) \<Longrightarrow> n < 2 ^ LENGTH('a) \<Longrightarrow>
     (of_nat m :: 'a::len word) < of_nat n \<longleftrightarrow> m < n"
  by (simp add: word_of_nat_less_iff take_bit_nat_eq_self)

lemma word_of_nat_le_small:
  "m < 2 ^ LENGTH('a) \<Longrightarrow> n < 2 ^ LENGTH('a) \<Longrightarrow>
     (of_nat m :: 'a::len word) \<le> of_nat n \<longleftrightarrow> m \<le> n"
  by (simp add: word_of_nat_less_eq_iff take_bit_nat_eq_self)

end
