(* ===== verification/Wait_Loop.thy ===== *)
theory Wait_Loop
  imports Prelude
begin

text \<open>
  The waiting loop that \<^verbatim>\<open>Scheduler::admit\<close> (src/src/scheduler.rs) and
  \<^verbatim>\<open>GpuLock::acquire\<close> (src/src/gpu_lock.rs) share: lock the state, try to claim; on
  failure push a fresh oneshot sender onto a queue and await its receiver under a deadline;
  when woken, try again from scratch.

  A \<open>world\<close> is the state behind the mutex together with every call of the loop (a task),
  the oneshot channels handed out so far, and the clock. One event is one poll of a future,
  or one critical section of another operation; between two events any other task may move,
  so every interleaving of critical sections is a list of events. A oneshot channel is a
  number: \<open>signalled\<close> holds those whose \<^verbatim>\<open>send\<close> succeeded, \<open>closed\<close> those whose
  receiver is gone (the future that owned it returned or was dropped), and a send succeeds
  exactly when the receiver is not gone, as the channel's documentation says.
\<close>

section \<open>Tasks, worlds, resources\<close>

type_synonym chan = nat

datatype ('q, 'g) task =
    Unborn
  | Fresh 'q duration          \<comment> \<open>called, never polled\<close>
  | Waiting 'q instant chan    \<comment> \<open>suspended in \<^verbatim>\<open>timeout_at(deadline, rx).await\<close>\<close>
  | Holding 'g                 \<comment> \<open>returned \<^verbatim>\<open>Ok\<close>; the grant is still in use\<close>
  | TimedOut                   \<comment> \<open>returned \<^verbatim>\<open>Err(Timeout)\<close>\<close>
  | Gone                       \<comment> \<open>dropped, or done with its grant\<close>

record ('s, 'q, 'g) world =
  shared :: 's
  tasks :: "nat \<Rightarrow> ('q, 'g) task"
  fresh :: chan
  signalled :: "chan set"
  closed :: "chan set"
  now :: instant

text \<open>
  What the loop calls: \<open>attempt\<close> is the claim under the lock (with the time and an input
  drawn from outside, such as a new lease id), \<open>enqueue\<close> pushes a sender, \<open>operate\<close> is
  any other operation of the resource (it gets the predicate "a send on this channel
  succeeds" and returns the channels it sent on), and \<open>relinquish g\<close> is the operation a
  holder of \<open>g\<close> ends with.
\<close>

record ('s, 'q, 'g, 'x, 'f) resource =
  attempt :: "instant \<Rightarrow> 'x \<Rightarrow> 'q \<Rightarrow> 's \<Rightarrow> ('g \<times> 's) option"
  enqueue :: "'q \<Rightarrow> chan \<Rightarrow> 's \<Rightarrow> 's"
  operate :: "instant \<Rightarrow> 'f \<Rightarrow> (chan \<Rightarrow> bool) \<Rightarrow> 's \<Rightarrow> 's \<times> chan list"
  relinquish :: "'g \<Rightarrow> 'f"

section \<open>Events\<close>

datatype ('q, 'x, 'f) event =
    Spawn nat 'q duration
  | Poll nat 'x
  | Expire nat
  | Abandon nat
  | Finish nat
  | Operate 'f
  | Tick duration

definition close_rx :: "chan \<Rightarrow> ('s, 'q, 'g) world \<Rightarrow> ('s, 'q, 'g) world" where
  "close_rx c w = w\<lparr>closed := insert c (closed w)\<rparr>"

definition set_task :: "nat \<Rightarrow> ('q, 'g) task \<Rightarrow> ('s, 'q, 'g) world \<Rightarrow> ('s, 'q, 'g) world" where
  "set_task i t w = w\<lparr>tasks := (tasks w)(i := t)\<rparr>"

text \<open>One round of the loop: claim and return, or queue a new sender and suspend.\<close>

definition try_once ::
  "('s, 'q, 'g, 'x, 'f) resource \<Rightarrow> 'x \<Rightarrow> nat \<Rightarrow> 'q \<Rightarrow> instant \<Rightarrow>
     ('s, 'q, 'g) world \<Rightarrow> ('s, 'q, 'g) world" where
  "try_once R x i q deadline w =
     (case attempt R (now w) x q (shared w) of
        Some (g, s) \<Rightarrow> set_task i (Holding g) (w\<lparr>shared := s\<rparr>)
      | None \<Rightarrow>
          set_task i (Waiting q deadline (fresh w))
            (w\<lparr>shared := enqueue R q (fresh w) (shared w), fresh := Suc (fresh w)\<rparr>))"

definition perform ::
  "('s, 'q, 'g, 'x, 'f) resource \<Rightarrow> 'f \<Rightarrow> ('s, 'q, 'g) world \<Rightarrow> ('s, 'q, 'g) world" where
  "perform R f w =
     (case operate R (now w) f (\<lambda>c. c \<notin> closed w) (shared w) of
        (s, sent) \<Rightarrow> w\<lparr>shared := s, signalled := signalled w \<union> set sent\<rparr>)"

text \<open>
  \<open>None\<close> when the event cannot happen. The deadline is set at the first poll. A suspended
  future is polled to effect only once its receiver has been signalled. Its timeout may fire
  at any time from the deadline on, signalled or not, which covers both orders in which the
  timer and the receiver may be looked at.
\<close>

fun exec_event ::
  "('s, 'q, 'g, 'x, 'f) resource \<Rightarrow> ('q, 'x, 'f) event \<Rightarrow>
     ('s, 'q, 'g) world \<Rightarrow> ('s, 'q, 'g) world option" where
  "exec_event R (Spawn i q timeout) w =
     (case tasks w i of Unborn \<Rightarrow> Some (set_task i (Fresh q timeout) w) | _ \<Rightarrow> None)"
| "exec_event R (Poll i x) w =
     (case tasks w i of
        Fresh q timeout \<Rightarrow> Some (try_once R x i q (now w + timeout) w)
      | Waiting q deadline c \<Rightarrow>
          (if c \<in> signalled w then Some (try_once R x i q deadline (close_rx c w)) else None)
      | _ \<Rightarrow> None)"
| "exec_event R (Expire i) w =
     (case tasks w i of
        Waiting q deadline c \<Rightarrow>
          (if deadline \<le> now w then Some (set_task i TimedOut (close_rx c w)) else None)
      | _ \<Rightarrow> None)"
| "exec_event R (Abandon i) w =
     (case tasks w i of
        Fresh q timeout \<Rightarrow> Some (set_task i Gone w)
      | Waiting q deadline c \<Rightarrow> Some (set_task i Gone (close_rx c w))
      | _ \<Rightarrow> None)"
| "exec_event R (Finish i) w =
     (case tasks w i of
        Holding g \<Rightarrow> Some (set_task i Gone (perform R (relinquish R g) w))
      | _ \<Rightarrow> None)"
| "exec_event R (Operate f) w = Some (perform R f w)"
| "exec_event R (Tick d) w = Some (w\<lparr>now := now w + d\<rparr>)"

fun run_events ::
  "('s, 'q, 'g, 'x, 'f) resource \<Rightarrow> ('q, 'x, 'f) event list \<Rightarrow>
     ('s, 'q, 'g) world \<Rightarrow> ('s, 'q, 'g) world option" where
  "run_events R [] w = Some w"
| "run_events R (e # es) w =
     (case exec_event R e w of None \<Rightarrow> None | Some w' \<Rightarrow> run_events R es w')"

definition start_world :: "'s \<Rightarrow> ('s, 'q, 'g) world" where
  "start_world s =
     \<lparr>shared = s, tasks = (\<lambda>_. Unborn), fresh = 0, signalled = {}, closed = {}, now = 0\<rparr>"

lemmas world_defs [eval_simps] =
  close_rx_def set_task_def try_once_def perform_def start_world_def

text \<open>
  The moves an event can make: a task is set aside (called, timed out or dropped, its
  receiver closed if it had one), an attempt succeeds or fails, a holder finishes, another
  operation runs, or time passes. \<open>settled i w\<close> is the world in which task \<open>i\<close> no longer
  listens to any channel.
\<close>

definition settled :: "nat \<Rightarrow> ('s, 'q, 'g) world \<Rightarrow> ('s, 'q, 'g) world" where
  "settled i w =
     (case tasks w i of Waiting q deadline c \<Rightarrow> set_task i Gone (close_rx c w) | _ \<Rightarrow> w)"

lemma set_task_settled:
  "tasks w i = Waiting q d c \<Longrightarrow> set_task i t (close_rx c w) = set_task i t (settled i w)"
  by (simp add: settled_def set_task_def close_rx_def)

lemma settled_id: "(\<And>q d c. tasks w i \<noteq> Waiting q d c) \<Longrightarrow> settled i w = w"
  by (simp add: settled_def split: task.splits)

lemma settled_frame [simp]:
  "shared (settled i w) = shared w" "fresh (settled i w) = fresh w"
  "signalled (settled i w) = signalled w" "now (settled i w) = now w"
  by (simp_all add: settled_def set_task_def close_rx_def split: task.splits)

lemma tasks_settled: "j \<noteq> i \<Longrightarrow> tasks (settled i w) j = tasks w j"
  by (simp add: settled_def set_task_def close_rx_def split: task.splits)

lemma tasks_settled_own: "tasks (settled i w) i \<noteq> Waiting q d c"
  by (simp add: settled_def set_task_def close_rx_def split: task.splits)

lemma tasks_settled_Holding [simp]:
  "tasks (settled i w) j = Holding g \<longleftrightarrow> tasks w j = Holding g"
  by (auto simp: settled_def set_task_def close_rx_def split: task.splits)

lemma closed_settled: "closed w \<subseteq> closed (settled i w)"
  by (auto simp: settled_def set_task_def close_rx_def split: task.splits)

lemma tasks_settledD:
  "tasks (settled i w) j = Waiting q d c \<Longrightarrow> tasks w j = Waiting q d c \<and> j \<noteq> i"
  by (auto simp: settled_def set_task_def close_rx_def split: task.splits if_splits)

lemma try_once_settled:
  "tasks w i = Waiting q d c \<Longrightarrow> try_once R x i q' dl (close_rx c w) = try_once R x i q' dl (settled i w)"
  by (simp add: try_once_def settled_def set_task_def close_rx_def split: option.splits prod.splits)

lemma exec_event_cases [consumes 1, case_names aside tried finished other tick]:
  assumes "exec_event R e w = Some w'"
  obtains (aside) i t where "w' = set_task i t (settled i w)" and "\<And>g. tasks w i \<noteq> Holding g"
      and "\<And>g. t \<noteq> Holding g" and "\<And>q d c. t \<noteq> Waiting q d c"
      and "(\<exists>q d. e = Spawn i q d) \<or> e = Expire i \<and> t = TimedOut \<or> e = Abandon i \<and> t = Gone"
  | (tried) i x q deadline where "w' = try_once R x i q deadline (settled i w)"
      and "\<And>g. tasks w i \<noteq> Holding g" and "e = Poll i x"
      and "(\<exists>t. tasks w i = Fresh q t) \<or> (\<exists>c. tasks w i = Waiting q deadline c \<and> c \<in> signalled w)"
  | (finished) i g where "tasks w i = Holding g" and "e = Finish i"
      and "w' = set_task i Gone (perform R (relinquish R g) w)"
  | (other) f where "e = Operate f" and "w' = perform R f w"
  | (tick) d where "e = Tick d" and "w' = w\<lparr>now := now w + d\<rparr>"
proof (cases e)
  case (Spawn i q d)
  with assms have u: "tasks w i = Unborn" and w': "w' = set_task i (Fresh q d) w"
    by (auto split: task.splits)
  from u have "settled i w = w" by (simp add: settled_id)
  with u w' Spawn show ?thesis using aside [of i "Fresh q d"] by simp
next
  case (Poll i x)
  show ?thesis
  proof (cases "tasks w i")
    case (Fresh q t)
    then have "settled i w = w" by (simp add: settled_id)
    with Fresh assms Poll show ?thesis using tried [of x i q "now w + t"] by simp
  next
    case (Waiting q d c)
    with assms Poll show ?thesis
      using tried [of x i q d] by (simp add: try_once_settled split: if_splits)
  qed (use assms Poll in auto)
next
  case (Expire i)
  with assms show ?thesis
    using aside [of i TimedOut] by (auto simp: set_task_settled split: task.splits if_splits)
next
  case (Abandon i)
  show ?thesis
  proof (cases "tasks w i")
    case (Fresh q t)
    then have "settled i w = w" by (simp add: settled_id)
    with Fresh Abandon assms show ?thesis using aside [of i Gone] by simp
  next
    case (Waiting q d c)
    with Abandon assms show ?thesis using aside [of i Gone] by (simp add: set_task_settled)
  qed (use Abandon assms in auto)
next
  case (Finish i)
  with assms show ?thesis using finished by (auto split: task.splits)
qed (use assms that in auto)

text \<open>The time that passes in a run.\<close>

fun passed :: "('q, 'x, 'f) event list \<Rightarrow> duration" where
  "passed [] = 0"
| "passed (Tick d # es) = d + passed es"
| "passed (e # es) = passed es"

text \<open>Only \<open>Spawn\<close> calls the loop, and only \<open>Tick\<close> moves the clock.\<close>

lemma fresh_step:
  assumes "exec_event R e w = Some w'" and "tasks w' i = Fresh q t"
  shows "tasks w i = Fresh q t \<or> e = Spawn i q t"
  using assms(1)
proof (cases rule: exec_event_cases)
  case (aside j u)
  show ?thesis
  proof (cases "\<exists>q d. e = Spawn j q d")
    case True
    with assms show ?thesis by (auto simp: set_task_def split: task.splits if_splits)
  next
    case False
    with aside assms(2) show ?thesis
      by (cases "i = j") (auto simp: set_task_def tasks_settled)
  qed
next
  case (tried j x q' d)
  with assms show ?thesis
    by (cases "i = j") (auto simp: try_once_def set_task_def tasks_settled split: option.splits)
next
  case (finished j g)
  with assms show ?thesis by (auto simp: set_task_def perform_def split: if_splits prod.splits)
next
  case (other f)
  with assms show ?thesis by (auto simp: perform_def split: prod.splits)
qed (use assms in auto)

lemma clock_step:
  assumes "exec_event R e w = Some w'"
  shows "now w' = now w + passed [e]"
  using assms
proof (cases rule: exec_event_cases)
  case (aside j u)
  then show ?thesis by (auto simp: set_task_def)
next
  case (tried j x q' d)
  then show ?thesis by (simp add: try_once_def set_task_def split: option.splits prod.splits)
next
  case (finished j g)
  then show ?thesis by (simp add: set_task_def perform_def split: prod.splits)
next
  case (other f)
  then show ?thesis by (simp add: perform_def split: prod.splits)
qed simp

section \<open>Reachable worlds\<close>

text \<open>\<open>ok\<close> says which events the surrounding program (or a run under study) allows.\<close>

inductive reach ::
  "('s, 'q, 'g, 'x, 'f) resource \<Rightarrow> (('s, 'q, 'g) world \<Rightarrow> ('q, 'x, 'f) event \<Rightarrow> bool) \<Rightarrow>
     ('s, 'q, 'g) world \<Rightarrow> ('s, 'q, 'g) world \<Rightarrow> bool" for R ok w0 where
  reach_start: "reach R ok w0 w0"
| reach_event: "reach R ok w0 w \<Longrightarrow> ok w e \<Longrightarrow> exec_event R e w = Some w' \<Longrightarrow> reach R ok w0 w'"

lemma reach_trans: "reach R ok w1 w2 \<Longrightarrow> reach R ok w0 w1 \<Longrightarrow> reach R ok w0 w2"
  by (induction rule: reach.induct) (auto intro: reach_event)

lemma reach_mono:
  "reach R ok w0 w \<Longrightarrow> (\<And>w e. ok w e \<Longrightarrow> ok' w e) \<Longrightarrow> reach R ok' w0 w"
  by (induction rule: reach.induct) (auto intro: reach.intros)

text \<open>An invariant of the allowed events holds in every reachable world.\<close>

lemma reach_invariant:
  assumes "reach R ok w0 w" and "P w0"
    and "\<And>w e w'. P w \<Longrightarrow> ok w e \<Longrightarrow> exec_event R e w = Some w' \<Longrightarrow> P w'"
  shows "P w"
  using assms by (induction rule: reach.induct) auto

text \<open>A run of allowed events is a reachable world.\<close>

fun allowed_run ::
  "('s, 'q, 'g, 'x, 'f) resource \<Rightarrow> (('s, 'q, 'g) world \<Rightarrow> ('q, 'x, 'f) event \<Rightarrow> bool) \<Rightarrow>
     ('q, 'x, 'f) event list \<Rightarrow> ('s, 'q, 'g) world \<Rightarrow> bool" where
  "allowed_run R ok [] w \<longleftrightarrow> True"
| "allowed_run R ok (e # es) w \<longleftrightarrow>
     ok w e \<and> (case exec_event R e w of None \<Rightarrow> True | Some w' \<Rightarrow> allowed_run R ok es w')"

lemma reach_run:
  "run_events R es w = Some w' \<Longrightarrow> allowed_run R ok es w \<Longrightarrow> reach R ok w0 w \<Longrightarrow> reach R ok w0 w'"
  by (induction es arbitrary: w) (auto split: option.splits intro: reach_event)

section \<open>Channels are never lost\<close>

text \<open>
  \<open>queued s\<close> is the set of channels whose sender sits in one of the resource's queues. In
  a good world every suspended task has a channel of its own, with a live receiver, whose
  sender is still queued or has been sent on.
\<close>

definition world_ok :: "('s \<Rightarrow> chan set) \<Rightarrow> ('s, 'q, 'g) world \<Rightarrow> bool" where
  "world_ok queued w \<longleftrightarrow>
     (\<forall>i q d c. tasks w i = Waiting q d c \<longrightarrow>
        c < fresh w \<and> c \<notin> closed w \<and> (c \<in> queued (shared w) \<or> c \<in> signalled w)) \<and>
     (\<forall>i j q d q' d' c. tasks w i = Waiting q d c \<and> tasks w j = Waiting q' d' c \<longrightarrow> i = j) \<and>
     (\<forall>c\<in>closed w. c < fresh w) \<and> (\<forall>c\<in>signalled w. c < fresh w) \<and>
     (\<forall>c\<in>queued (shared w). c < fresh w)"

lemma world_ok_waiting:
  assumes "world_ok queued w" and "tasks w i = Waiting q d c"
  shows "c < fresh w" and "c \<notin> closed w" and "c \<in> queued (shared w) \<or> c \<in> signalled w"
  using assms unfolding world_ok_def by metis+

lemma world_ok_distinct:
  assumes "world_ok queued w" and "tasks w i = Waiting q d c" and "tasks w j = Waiting q' d' c"
  shows "i = j"
  using assms unfolding world_ok_def by metis

lemma world_ok_start: "queued s = {} \<Longrightarrow> world_ok queued (start_world s)"
  by (simp add: world_ok_def start_world_def)

text \<open>
  The contract a resource owes the loop: a claim leaves the queues alone, \<open>enqueue\<close> adds
  exactly the new sender, and any other operation takes senders out only by sending on them,
  so a sender that leaves a queue has reached its receiver if that receiver is alive.
\<close>

locale wait_queue =
  fixes R :: "('s, 'q, 'g, 'x, 'f) resource"
    and queued :: "'s \<Rightarrow> chan set"
  assumes attempt_queued: "attempt R t x q s = Some (g, s') \<Longrightarrow> queued s' = queued s"
    and enqueue_queued: "queued (enqueue R q c s) = insert c (queued s)"
    and operate_queued: "operate R t f live s = (s', sent) \<Longrightarrow> queued s' \<subseteq> queued s"
    and operate_sent: "operate R t f live s = (s', sent) \<Longrightarrow> set sent \<subseteq> queued s"
    and operate_delivers:
      "operate R t f live s = (s', sent) \<Longrightarrow> c \<in> queued s \<Longrightarrow> live c \<Longrightarrow>
         c \<in> queued s' \<or> c \<in> set sent"
begin

lemma perform_ok:
  assumes "world_ok queued w"
  shows "world_ok queued (perform R f w)"
proof -
  obtain s sent where o: "operate R (now w) f (\<lambda>c. c \<notin> closed w) (shared w) = (s, sent)"
    by fastforce
  have p: "perform R f w = w\<lparr>shared := s, signalled := signalled w \<union> set sent\<rparr>"
    by (simp add: perform_def o)
  note laws = operate_queued [OF o] operate_sent [OF o] operate_delivers [OF o]
  from assms laws show ?thesis
    unfolding world_ok_def p by simp blast
qed

lemma retire_ok:
  assumes "world_ok queued w" and "\<And>q d c. t \<noteq> Waiting q d c"
  shows "world_ok queued (set_task i t w)"
  using assms unfolding world_ok_def by (auto simp: set_task_def)

lemma settled_ok:
  assumes "world_ok queued w"
  shows "world_ok queued (settled i w)"
  using assms unfolding world_ok_def settled_def
  by (auto simp: set_task_def close_rx_def split: task.splits)

lemma join_ok:
  assumes "world_ok queued w" and "c \<in> queued (shared w)" and "c < fresh w" and "c \<notin> closed w"
    and "\<And>j q d. tasks w j \<noteq> Waiting q d c"
  shows "world_ok queued (set_task i (Waiting q d c) w)"
  using assms unfolding world_ok_def by (auto simp: set_task_def)

lemma try_once_ok:
  assumes ok: "world_ok queued w" and unused: "\<And>q d c. tasks w i \<noteq> Waiting q d c"
  shows "world_ok queued (try_once R x i q deadline w)"
proof (cases "attempt R (now w) x q (shared w)")
  case None
  let ?w = "w\<lparr>shared := enqueue R q (fresh w) (shared w), fresh := Suc (fresh w)\<rparr>"
  from None have t: "try_once R x i q deadline w = set_task i (Waiting q deadline (fresh w)) ?w"
    by (simp add: try_once_def)
  have "world_ok queued ?w"
    using ok unfolding world_ok_def by (auto simp: enqueue_queued less_Suc_eq)
  moreover have "fresh w \<in> queued (shared ?w)" and "fresh w < fresh ?w"
    and "fresh w \<notin> closed ?w" and "\<And>j q d. tasks ?w j \<noteq> Waiting q d (fresh w)"
    using ok unfolding world_ok_def by (auto simp: enqueue_queued)
  ultimately show ?thesis unfolding t by (rule join_ok)
next
  case (Some p)
  obtain g s where p: "p = (g, s)" by (cases p)
  with Some have t: "try_once R x i q deadline w = set_task i (Holding g) (w\<lparr>shared := s\<rparr>)"
    by (simp add: try_once_def)
  from Some p attempt_queued have "queued s = queued (shared w)" by blast
  with ok have "world_ok queued (w\<lparr>shared := s\<rparr>)"
    unfolding world_ok_def by simp
  then show ?thesis unfolding t by (rule retire_ok) simp
qed

lemma exec_event_ok:
  assumes ok: "world_ok queued w" and step: "exec_event R e w = Some w'"
  shows "world_ok queued w'"
  using step
proof (cases rule: exec_event_cases)
  case (aside i t)
  then show ?thesis using retire_ok [OF settled_ok [OF ok]] by blast
next
  case (tried i x q deadline)
  then show ?thesis using try_once_ok [OF settled_ok [OF ok] tasks_settled_own] by blast
next
  case (finished i g)
  then show ?thesis using retire_ok [OF perform_ok [OF ok]] by blast
next
  case (other f)
  then show ?thesis using perform_ok [OF ok] by blast
next
  case (tick d)
  with ok show ?thesis unfolding world_ok_def by simp
qed

lemma reach_ok:
  assumes "reach R ok (start_world s) w" and "queued s = {}"
  shows "world_ok queued w"
  using assms(1) world_ok_start [of queued, OF assms(2)] by (rule reach_invariant) (rule exec_event_ok)

text \<open>
  Nobody is forgotten: a suspended task's sender is still in a queue, or it has been woken
  and its next poll will try again.
\<close>

lemma no_lost_waiter:
  assumes "reach R ok (start_world s) w" and "queued s = {}" and "tasks w i = Waiting q d c"
  shows "c \<in> queued (shared w) \<or> (\<exists>w'. exec_event R (Poll i x) w = Some w')"
  using world_ok_waiting(3) [OF reach_ok [OF assms(1,2)] assms(3)] assms(3) by auto

end

section \<open>Reading a world after a move\<close>

lemma perform_shared [simp]:
  "shared (perform R f w) = fst (operate R (now w) f (\<lambda>c. c \<notin> closed w) (shared w))"
  "tasks (perform R f w) = tasks w" "fresh (perform R f w) = fresh w"
  "closed (perform R f w) = closed w" "now (perform R f w) = now w"
  "signalled (perform R f w) =
     signalled w \<union> set (snd (operate R (now w) f (\<lambda>c. c \<notin> closed w) (shared w)))"
  by (simp_all add: perform_def split: prod.splits)

lemma set_task_simps [simp]:
  "shared (set_task i t w) = shared w" "tasks (set_task i t w) = (tasks w)(i := t)"
  "fresh (set_task i t w) = fresh w" "closed (set_task i t w) = closed w"
  "signalled (set_task i t w) = signalled w" "now (set_task i t w) = now w"
  by (simp_all add: set_task_def)

end
