(* ===== verification/Scheduler.thy ===== *)
theory Scheduler
  imports Wait_Loop
begin

text \<open>
  The slot scheduler (src/src/scheduler.rs): the state behind its mutex and one definition
  per operation. A slot id is the \<^verbatim>\<open>u32\<close> of the source; the clock is its \<^verbatim>\<open>u64\<close>,
  whose increment wraps as in a release build. \<^verbatim>\<open>Scheduler::admit\<close> is the loop of
  Wait_Loop over \<open>try_admit_locked\<close> and \<open>enqueue_waiter\<close>.
\<close>

section \<open>Data\<close>

record slot_hint =
  prefix_hash :: string
  preferred_slot :: "u32 option"
  hint_model :: "string option"

record slot_state =
  busy :: bool
  resident_prefix :: "string option"
  resident_model :: "string option"
  seeded_unowned :: bool
  last_used :: u64

record admission =
  slot_id :: u32
  cache_ready :: bool

record slot_snapshot =
  snap_slot_id :: u32
  snap_busy :: bool
  snap_resident_prefix :: "string option"
  snap_resident_model :: "string option"

record inner =
  slots :: "slot_state list"
  slot_waiters :: "u32 \<rightharpoonup> chan list"
  global_waiters :: "chan list"
  clock :: u64

definition is_resident_in :: "slot_hint \<Rightarrow> slot_state \<Rightarrow> bool" where
  "is_resident_in h s \<longleftrightarrow>
     resident_prefix s = Some (prefix_hash h) \<and> resident_model s = hint_model h"

definition default_slot :: slot_state where
  "default_slot =
     \<lparr>busy = False, resident_prefix = None, resident_model = None,
      seeded_unowned = False, last_used = 0\<rparr>"

definition new_scheduler :: "u32 \<Rightarrow> inner" where
  "new_scheduler num_slots =
     \<lparr>slots = replicate (unat num_slots) default_slot, slot_waiters = Map.empty,
      global_waiters = [], clock = 0\<rparr>"

section \<open>Bookkeeping operations\<close>

text \<open>\<^verbatim>\<open>inner.slots.get_mut(slot_id as usize)\<close>: nothing happens out of range.\<close>

definition update_slot :: "u32 \<Rightarrow> (slot_state \<Rightarrow> slot_state) \<Rightarrow> inner \<Rightarrow> inner" where
  "update_slot k f st =
     (if unat k < length (slots st)
      then st\<lparr>slots := (slots st)[unat k := f (slots st ! unat k)]\<rparr> else st)"

definition seed_busy :: "u32 \<Rightarrow> inner \<Rightarrow> inner" where
  "seed_busy k = update_slot k (\<lambda>s. s\<lparr>busy := True, seeded_unowned := True\<rparr>)"

definition mark_resident :: "u32 \<Rightarrow> string option \<Rightarrow> string \<Rightarrow> inner \<Rightarrow> inner" where
  "mark_resident k model prefix =
     update_slot k (\<lambda>s. s\<lparr>resident_prefix := Some prefix, resident_model := model\<rparr>)"

definition clear_resident :: "u32 \<Rightarrow> inner \<Rightarrow> inner" where
  "clear_resident k =
     update_slot k (\<lambda>s. s\<lparr>resident_prefix := None, resident_model := None\<rparr>)"

definition snapshot :: "inner \<Rightarrow> slot_snapshot list" where
  "snapshot st =
     map (\<lambda>(idx, s).
            \<lparr>snap_slot_id = of_nat idx, snap_busy = busy s,
             snap_resident_prefix = resident_prefix s,
             snap_resident_model = resident_model s\<rparr>)
       (enumerate 0 (slots st))"

section \<open>Admission\<close>

text \<open>
  The claim that ends each of the three tiers: mark the slot busy and broker-owned, tick
  the clock and stamp it.
\<close>

definition claim_slot :: "nat \<Rightarrow> inner \<Rightarrow> inner" where
  "claim_slot i st =
     st\<lparr>clock := clock st + 1,
        slots := (slots st)
          [i := (slots st ! i)\<lparr>busy := True, seeded_unowned := False,
                               last_used := clock st + 1\<rparr>]\<rparr>"

text \<open>A preference that is in range for the current slot count; any other counts as none.\<close>

definition usable_preference :: "slot_hint option \<Rightarrow> inner \<Rightarrow> u32 option" where
  "usable_preference hint st =
     (case hint of
        None \<Rightarrow> None
      | Some h \<Rightarrow>
          (case preferred_slot h of
             None \<Rightarrow> None
           | Some p \<Rightarrow> if unat p < length (slots st) then Some p else None))"

definition admit_preferred :: "slot_hint \<Rightarrow> u32 \<Rightarrow> inner \<Rightarrow> (admission \<times> inner) option" where
  "admit_preferred h p st =
     (let slot = slots st ! unat p in
      if \<not> busy slot
      then Some (\<lparr>slot_id = p, cache_ready = is_resident_in h slot\<rparr>, claim_slot (unat p) st)
      else None)"

definition find_resident :: "slot_hint option \<Rightarrow> inner \<Rightarrow> nat option" where
  "find_resident hint st =
     (case hint of
        None \<Rightarrow> None
      | Some h \<Rightarrow>
          map_option fst
            (List.find (\<lambda>(_, s). \<not> busy s \<and> is_resident_in h s) (enumerate 0 (slots st))))"

definition find_lru :: "inner \<Rightarrow> nat option" where
  "find_lru st =
     map_option fst
       (min_by_key (\<lambda>(_, s). last_used s)
          (filter (\<lambda>(_, s). \<not> busy s) (enumerate 0 (slots st))))"

definition try_admit_locked :: "slot_hint option \<Rightarrow> inner \<Rightarrow> (admission \<times> inner) option" where
  "try_admit_locked hint st =
     (case usable_preference hint st of
        Some p \<Rightarrow> admit_preferred (the hint) p st
      | None \<Rightarrow>
          (case find_resident hint st of
             Some i \<Rightarrow> Some (\<lparr>slot_id = of_nat i, cache_ready = True\<rparr>, claim_slot i st)
           | None \<Rightarrow>
               (case find_lru st of
                  None \<Rightarrow> None
                | Some i \<Rightarrow>
                    Some (\<lparr>slot_id = of_nat i,
                           cache_ready =
                             (case hint of
                                None \<Rightarrow> False
                              | Some h \<Rightarrow> is_resident_in h (slots st ! i))\<rparr>,
                          claim_slot i st))))"

text \<open>The queue a failed attempt joins: its usable preferred slot's, or the global one.\<close>

definition enqueue_waiter :: "slot_hint option \<Rightarrow> chan \<Rightarrow> inner \<Rightarrow> inner" where
  "enqueue_waiter hint tx st =
     (case usable_preference hint st of
        Some k \<Rightarrow>
          st\<lparr>slot_waiters := (slot_waiters st)
              (k \<mapsto> (case slot_waiters st k of None \<Rightarrow> [] | Some q \<Rightarrow> q) @ [tx])\<rparr>
      | None \<Rightarrow> st\<lparr>global_waiters := global_waiters st @ [tx]\<rparr>)"

section \<open>Freeing a slot\<close>

text \<open>
  \<open>live tx\<close> is the result of \<^verbatim>\<open>tx.send(()).is_ok()\<close>. The second component lists the
  senders whose send succeeded, in order. A specific queue that exists is left empty; the
  global queue is drained only if no specific send succeeded.
\<close>

definition wake_waiters_for :: "(chan \<Rightarrow> bool) \<Rightarrow> u32 \<Rightarrow> inner \<Rightarrow> inner \<times> chan list" where
  "wake_waiters_for live k st =
     (let queue = (case slot_waiters st k of None \<Rightarrow> [] | Some q \<Rightarrow> q);
          drained =
            st\<lparr>slot_waiters :=
                 (case slot_waiters st k of
                    None \<Rightarrow> slot_waiters st
                  | Some _ \<Rightarrow> (slot_waiters st)(k \<mapsto> []))\<rparr>;
          sent = filter live queue
      in if sent \<noteq> [] then (drained, sent)
         else (drained\<lparr>global_waiters := []\<rparr>, filter live (global_waiters st)))"

definition release :: "(chan \<Rightarrow> bool) \<Rightarrow> u32 \<Rightarrow> inner \<Rightarrow> inner \<times> chan list" where
  "release live k st =
     (if unat k < length (slots st)
      then wake_waiters_for live k (update_slot k (\<lambda>s. s\<lparr>busy := False\<rparr>) st)
      else (st, []))"

definition reconcile_seeded_idle ::
  "(chan \<Rightarrow> bool) \<Rightarrow> u32 \<Rightarrow> inner \<Rightarrow> inner \<times> chan list" where
  "reconcile_seeded_idle live k st =
     (if unat k < length (slots st) \<and> seeded_unowned (slots st ! unat k)
      then wake_waiters_for live k (update_slot k (\<lambda>s. s\<lparr>busy := False\<rparr>) st)
      else (st, []))"

lemmas sched_defs [eval_simps] =
  is_resident_in_def default_slot_def new_scheduler_def update_slot_def seed_busy_def
  mark_resident_def clear_resident_def snapshot_def claim_slot_def usable_preference_def
  admit_preferred_def find_resident_def find_lru_def try_admit_locked_def enqueue_waiter_def
  wake_waiters_for_def release_def reconcile_seeded_idle_def

section \<open>Frame facts\<close>

lemma length_update_slot [frame_simps]:
  "length (slots (update_slot k f st)) = length (slots st)"
  by (simp add: update_slot_def)

lemma queues_update_slot [frame_simps]:
  "slot_waiters (update_slot k f st) = slot_waiters st"
  "global_waiters (update_slot k f st) = global_waiters st"
  "clock (update_slot k f st) = clock st"
  by (simp_all add: update_slot_def)

lemma claim_slot_frame [frame_simps]:
  "length (slots (claim_slot i st)) = length (slots st)"
  "slot_waiters (claim_slot i st) = slot_waiters st"
  "global_waiters (claim_slot i st) = global_waiters st"
  "clock (claim_slot i st) = clock st + 1"
  by (simp_all add: claim_slot_def)

lemma nth_claim_slot [sched_simps]:
  "i < length (slots st) \<Longrightarrow>
     slots (claim_slot i st) ! j =
       (if j = i then (slots st ! i)\<lparr>busy := True, seeded_unowned := False,
                                     last_used := clock st + 1\<rparr>
        else slots st ! j)"
  by (simp add: claim_slot_def nth_list_update)

lemma nth_update_slot [sched_simps]:
  "slots (update_slot k f st) ! j =
     (if j = unat k \<and> j < length (slots st) then f (slots st ! j) else slots st ! j)"
  by (simp add: update_slot_def)

lemma wake_slots [frame_simps]: "slots (fst (wake_waiters_for live k st)) = slots st"
  by (simp add: wake_waiters_for_def Let_def)

lemma wake_clock [frame_simps]: "clock (fst (wake_waiters_for live k st)) = clock st"
  by (simp add: wake_waiters_for_def Let_def)

lemma enqueue_frame [frame_simps]:
  "slots (enqueue_waiter hint tx st) = slots st" "clock (enqueue_waiter hint tx st) = clock st"
  by (simp_all add: enqueue_waiter_def split: option.splits)

text \<open>Freeing a slot clears its busy flag and nothing else of any slot.\<close>

lemma release_slots [sched_simps]:
  "slots (fst (release live k st)) = slots (update_slot k (\<lambda>s. s\<lparr>busy := False\<rparr>) st)"
  by (simp add: release_def frame_simps update_slot_def)

lemma reconcile_slots [sched_simps]:
  "slots (fst (reconcile_seeded_idle live k st)) =
     (if unat k < length (slots st) \<and> seeded_unowned (slots st ! unat k)
      then slots (update_slot k (\<lambda>s. s\<lparr>busy := False\<rparr>) st) else slots st)"
  by (simp add: reconcile_seeded_idle_def frame_simps)

lemma usable_preference_cong:
  "length (slots st') = length (slots st) \<Longrightarrow>
     usable_preference hint st' = usable_preference hint st"
  by (simp add: usable_preference_def split: option.splits)

lemma usable_preference_lt: "usable_preference hint st = Some k \<Longrightarrow> unat k < length (slots st)"
  by (simp add: usable_preference_def split: option.splits if_splits)

lemma usable_preference_hint:
  "usable_preference hint st = Some k \<Longrightarrow> \<exists>h. hint = Some h \<and> preferred_slot h = Some k"
  by (simp add: usable_preference_def split: option.splits if_splits)

section \<open>What an attempt chooses\<close>

text \<open>
  The three tiers differ in how they pick an index and agree on the rest: \<open>pick_slot\<close> is the
  pick, \<open>resident_for\<close> the residency test on the picked slot, and \<open>try_admit_eq\<close> shows that
  the code's tiers are exactly "claim the chosen slot and report its residency".
\<close>

definition resident_for :: "slot_hint option \<Rightarrow> slot_state \<Rightarrow> bool" where
  "resident_for hint s \<longleftrightarrow> (case hint of None \<Rightarrow> False | Some h \<Rightarrow> is_resident_in h s)"

definition pick_slot :: "slot_hint option \<Rightarrow> inner \<Rightarrow> nat option" where
  "pick_slot hint st =
     (case usable_preference hint st of
        Some p \<Rightarrow> if busy (slots st ! unat p) then None else Some (unat p)
      | None \<Rightarrow> (case find_resident hint st of Some i \<Rightarrow> Some i | None \<Rightarrow> find_lru st))"

definition well_sized :: "inner \<Rightarrow> bool" where
  "well_sized st \<longleftrightarrow> length (slots st) < 2 ^ 32"

lemma well_sized_new [simp]: "well_sized (new_scheduler n)"
  using unsigned_less [of n] by (simp add: well_sized_def new_scheduler_def)

lemma well_sized_update [simp]: "well_sized (update_slot k f st) = well_sized st"
  by (simp add: well_sized_def frame_simps)

lemma well_sized_claim [simp]: "well_sized (claim_slot i st) = well_sized st"
  by (simp add: well_sized_def frame_simps)

lemma find_resident_Some:
  assumes "find_resident hint st = Some i"
  shows "i < length (slots st) \<and> \<not> busy (slots st ! i) \<and> resident_for hint (slots st ! i) \<and>
    (\<forall>j<i. busy (slots st ! j) \<or> \<not> resident_for hint (slots st ! j))"
proof -
  from assms obtain h where h: "hint = Some h"
    by (cases hint) (simp_all add: find_resident_def)
  let ?P = "\<lambda>s. \<not> busy s \<and> is_resident_in h s"
  from assms h obtain s
    where "List.find (\<lambda>(_, s). ?P s) (enumerate 0 (slots st)) = Some (i, s)"
    by (auto simp: find_resident_def)
  from find_enumerate_Some [OF this] h show ?thesis by (auto simp: resident_for_def)
qed

lemma find_resident_None:
  "find_resident hint st = None \<longleftrightarrow> (\<forall>s\<in>set (slots st). busy s \<or> \<not> resident_for hint s)"
proof (cases hint)
  case None
  then show ?thesis by (simp add: find_resident_def resident_for_def)
next
  case (Some h)
  then show ?thesis
    using find_enumerate_None [of "\<lambda>s. \<not> busy s \<and> is_resident_in h s" "slots st"]
    by (auto simp: find_resident_def resident_for_def)
qed

lemma find_lru_Some:
  assumes "find_lru st = Some i"
  shows "i < length (slots st) \<and> \<not> busy (slots st ! i) \<and>
    (\<forall>s\<in>set (slots st). busy s \<or> last_used (slots st ! i) \<le> last_used s)"
proof -
  let ?free = "filter (\<lambda>(_, s). \<not> busy s) (enumerate 0 (slots st))"
  from assms obtain s where m: "min_by_key (\<lambda>(_, s). last_used s) ?free = Some (i, s)"
    by (auto simp: find_lru_def)
  from min_by_key_mem [OF m] have i: "i < length (slots st)" "s = slots st ! i" "\<not> busy s"
    by (auto simp: mem_enumerate_iff)
  have "last_used s \<le> last_used t" if "t \<in> set (slots st)" "\<not> busy t" for t
  proof -
    from that(1) obtain j where "j < length (slots st)" "t = slots st ! j"
      by (auto simp: in_set_conv_nth)
    with that(2) have "(j, t) \<in> set ?free" by (simp add: mem_enumerate_iff)
    from min_by_key_le [OF m this] show ?thesis by simp
  qed
  with i show ?thesis by blast
qed

lemma find_lru_None: "find_lru st = None \<longleftrightarrow> (\<forall>s\<in>set (slots st). busy s)"
  using filter_enumerate_Nil [of "\<lambda>s. \<not> busy s" "slots st"] by (simp add: find_lru_def)

lemma pick_slot_Some:
  assumes "pick_slot hint st = Some i"
  shows "i < length (slots st)" and "\<not> busy (slots st ! i)"
  using assms
  by (auto simp: pick_slot_def split: option.splits if_splits
      dest: usable_preference_lt find_resident_Some find_lru_Some)

lemma pick_slot_None:
  "pick_slot hint st = None \<longleftrightarrow>
     (case usable_preference hint st of
        Some p \<Rightarrow> busy (slots st ! unat p)
      | None \<Rightarrow> \<forall>s\<in>set (slots st). busy s)"
proof (cases "usable_preference hint st")
  case None
  have "find_resident hint st = None" if "\<forall>s\<in>set (slots st). busy s"
    using that by (simp add: find_resident_None)
  with None show ?thesis
    by (auto simp: pick_slot_def find_lru_None split: option.splits
        dest: find_resident_Some intro: nth_mem)
qed (simp add: pick_slot_def)

lemma try_admit_eq:
  assumes "well_sized st"
  shows "try_admit_locked hint st =
    map_option
      (\<lambda>i. (\<lparr>slot_id = of_nat i, cache_ready = resident_for hint (slots st ! i)\<rparr>,
            claim_slot i st))
      (pick_slot hint st)"
proof (cases "usable_preference hint st")
  case None
  then show ?thesis
    by (auto simp: try_admit_locked_def pick_slot_def resident_for_def split: option.splits
        dest: find_resident_Some)
next
  case (Some p)
  from usable_preference_hint [OF Some] obtain h where "hint = Some h" by blast
  with Some show ?thesis
    by (simp add: try_admit_locked_def pick_slot_def admit_preferred_def resident_for_def)
qed

end
