(* ===== verification/Scheduler_Laws.thy ===== *)
theory Scheduler_Laws
  imports Scheduler
begin

text \<open>
  Properties of the scheduler's critical sections, one at a time: what an attempt grants and
  when it refuses, which slot each tier takes, what freeing a slot wakes, how residency is
  recorded and dropped, the least-recently-used spread, and the refinement of all of it to an
  abstract pool of slots.
\<close>

section \<open>Admission\<close>

lemma try_admit_SomeE:
  assumes "try_admit_locked hint st = Some (a, st')" and "well_sized st"
  obtains i where "pick_slot hint st = Some i" and "i < length (slots st)"
    and "\<not> busy (slots st ! i)" and "unat (slot_id a) = i" and "slot_id a = of_nat i"
    and "cache_ready a = resident_for hint (slots st ! i)" and "st' = claim_slot i st"
proof -
  from assms obtain i where p: "pick_slot hint st = Some i"
    and a: "a = \<lparr>slot_id = of_nat i, cache_ready = resident_for hint (slots st ! i)\<rparr>"
    and st': "st' = claim_slot i st"
    by (auto simp: try_admit_eq)
  note free = pick_slot_Some [OF p]
  from free(1) assms(2) have "i < 2 ^ LENGTH(32)" by (simp add: well_sized_def)
  then have "unat (of_nat i :: u32) = i" by (rule unat_of_nat_small)
  with p free a st' that show ?thesis by simp
qed

definition demo_hint :: "string \<Rightarrow> u32 option \<Rightarrow> string option \<Rightarrow> slot_hint" where
  "demo_hint p k m = \<lparr>prefix_hash = p, preferred_slot = k, hint_model = m\<rparr>"

lemmas demo_hint_eval [eval_simps] = demo_hint_def

text \<open>Of the least-recently-used idle slots the lowest-numbered is taken.\<close>

lemma min_by_key_earliest:
  "min_by_key f es = Some (i, y) \<Longrightarrow> sorted_wrt (\<lambda>a b. fst a < fst b) es \<Longrightarrow>
     (j, x) \<in> set es \<Longrightarrow> j < i \<Longrightarrow> f (i, y) < f (j, x)"
  for es :: "(nat \<times> 'a) list"
  by (induction es) (force split: option.splits if_splits dest: min_by_key_mem)+

lemma find_lru_earliest:
  assumes "find_lru st = Some i" and "j < i" and "\<not> busy (slots st ! j)"
  shows "last_used (slots st ! i) < last_used (slots st ! j)"
proof -
  let ?free = "filter (\<lambda>(_, s). \<not> busy s) (enumerate 0 (slots st))"
  from assms(1) obtain s where m: "min_by_key (\<lambda>(_, s). last_used s) ?free = Some (i, s)"
    by (auto simp: find_lru_def)
  from min_by_key_mem [OF m] have i: "i < length (slots st)" "s = slots st ! i"
    by (auto simp: mem_enumerate_iff)
  have "sorted_wrt (\<lambda>a b. fst a < fst b) (enumerate 0 (slots st))"
    using sorted_wrt_map [of "(<)" fst "enumerate 0 (slots st)"] by simp
  then have "sorted_wrt (\<lambda>a b. fst a < fst b) ?free" by (rule sorted_wrt_filter)
  moreover have "(j, slots st ! j) \<in> set ?free"
    using assms(2,3) i(1) by (simp add: mem_enumerate_iff)
  ultimately show ?thesis using min_by_key_earliest [OF m] assms(2) i(2) by fastforce
qed

text \<open>The slot's record names the prefix of the hint, saved by the model of the hint.\<close>

definition holds_prefix :: "slot_hint option \<Rightarrow> slot_state \<Rightarrow> bool" where
  "holds_prefix hint s \<longleftrightarrow>
     (\<exists>h. hint = Some h \<and> resident_prefix s = Some (prefix_hash h) \<and>
        resident_model s = hint_model h)"

lemma holds_prefix_resident: "holds_prefix hint s \<longleftrightarrow> resident_for hint s"
  by (auto simp: holds_prefix_def resident_for_def is_resident_in_def split: option.splits)

text \<open>
  C30: What an attempt to be admitted does, in full. It is refused exactly when the caller's usable
  preferred slot is busy, or when the caller has no usable preference and every slot is busy.
  Otherwise it grants a slot that exists and was idle, and reports the cache as ready exactly
  when the record of that slot names the hint's prefix and model. A usable preference is
  honoured to the letter. Without one, the lowest-numbered idle slot with such a record is
  taken; if no idle slot has one, the idle slot that was used least recently is, the
  lowest-numbered if there are several. Nothing changes but the clock and that slot, which is
  now busy, owned, and stamped with the new time.
\<close>

theorem admission_tiers:
  assumes "well_sized st"
  shows "case try_admit_locked hint st of
      None \<Rightarrow>
        (case usable_preference hint st of
           Some p \<Rightarrow> busy (slots st ! unat p)
         | None \<Rightarrow> \<forall>s\<in>set (slots st). busy s)
    | Some (a, st') \<Rightarrow>
        (let k = unat (slot_id a); s = slots st ! k
         in k < length (slots st) \<and> \<not> busy s \<and> cache_ready a = holds_prefix hint s \<and>
            st' = st\<lparr>clock := clock st + 1,
              slots := (slots st)[k := s\<lparr>busy := True, seeded_unowned := False,
                                         last_used := clock st + 1\<rparr>]\<rparr> \<and>
            (case usable_preference hint st of
               Some p \<Rightarrow> slot_id a = p
             | None \<Rightarrow>
                 if \<exists>s'\<in>set (slots st). \<not> busy s' \<and> holds_prefix hint s'
                 then holds_prefix hint s \<and>
                   (\<forall>j<k. busy (slots st ! j) \<or> \<not> holds_prefix hint (slots st ! j))
                 else (\<forall>s'\<in>set (slots st). busy s' \<or> last_used s \<le> last_used s') \<and>
                   (\<forall>j<k. busy (slots st ! j) \<or> last_used s < last_used (slots st ! j))))"
proof (cases "try_admit_locked hint st")
  case None
  with assms have "pick_slot hint st = None" by (simp add: try_admit_eq)
  with None show ?thesis by (simp add: pick_slot_None)
next
  case (Some r)
  obtain a st' where r: "r = (a, st')" by fastforce
  from Some r assms obtain i where i: "pick_slot hint st = Some i" "unat (slot_id a) = i"
    "slot_id a = of_nat i" "cache_ready a = resident_for hint (slots st ! i)"
    "i < length (slots st)" "\<not> busy (slots st ! i)" "st' = claim_slot i st"
    by (blast elim: try_admit_SomeE)
  have tier: "case usable_preference hint st of
      Some p \<Rightarrow> slot_id a = p
    | None \<Rightarrow>
        if \<exists>s'\<in>set (slots st). \<not> busy s' \<and> resident_for hint s'
        then resident_for hint (slots st ! i) \<and>
          (\<forall>j<i. busy (slots st ! j) \<or> \<not> resident_for hint (slots st ! j))
        else (\<forall>s'\<in>set (slots st). busy s' \<or> last_used (slots st ! i) \<le> last_used s') \<and>
          (\<forall>j<i. busy (slots st ! j) \<or> last_used (slots st ! i) < last_used (slots st ! j))"
  proof (cases "usable_preference hint st")
    case (Some p)
    with i(1,3) show ?thesis by (auto simp: pick_slot_def split: if_splits)
  next
    case None
    show ?thesis
    proof (cases "find_resident hint st")
      case None: None
      with \<open>usable_preference hint st = None\<close> i(1) have lru: "find_lru st = Some i"
        by (simp add: pick_slot_def)
      have "last_used (slots st ! i) < last_used (slots st ! j)" if "j < i" "\<not> busy (slots st ! j)" for j
        using find_lru_earliest [OF lru that] .
      with find_lru_Some [OF lru] None \<open>usable_preference hint st = None\<close>
      show ?thesis by (auto simp: find_resident_None)
    next
      case (Some k)
      with None i(1) have "k = i" by (simp add: pick_slot_def)
      with find_resident_Some [OF Some] None show ?thesis by (auto intro!: bexI nth_mem)
    qed
  qed
  show ?thesis
    unfolding Some r option.case prod.case Let_def holds_prefix_resident i(2)
    using i(4-7) tier by (intro conjI) (simp_all only: claim_slot_def not_False_eq_True)
qed

lemma admission_tiers_witness:
  "case try_admit_locked (Some (demo_hint ''p'' None None))
       (mark_resident 1 None ''p'' (new_scheduler 2)) of
     None \<Rightarrow> False
   | Some (a, st') \<Rightarrow> slot_id a = 1 \<and> cache_ready a"
proof -
  let ?st = "mark_resident 1 None ''p'' (new_scheduler 2)"
  have "well_sized ?st" by (simp add: mark_resident_def)
  from admission_tiers [OF this, of "Some (demo_hint ''p'' None None)"] show ?thesis
    by (simp add: eval_simps)
qed

section \<open>Freeing a slot\<close>

definition specific_queue :: "u32 \<Rightarrow> inner \<Rightarrow> chan list" where
  "specific_queue k st = (case slot_waiters st k of None \<Rightarrow> [] | Some q \<Rightarrow> q)"

lemma wake_sent:
  "snd (wake_waiters_for live k st) =
     (if \<exists>c\<in>set (specific_queue k st). live c then filter live (specific_queue k st)
      else filter live (global_waiters st))"
  by (auto simp: wake_waiters_for_def specific_queue_def Let_def filter_empty_conv
      split: option.splits)

lemma wake_global:
  "global_waiters (fst (wake_waiters_for live k st)) =
     (if \<exists>c\<in>set (specific_queue k st). live c then global_waiters st else [])"
  by (auto simp: wake_waiters_for_def specific_queue_def Let_def filter_empty_conv
      split: option.splits)

lemma wake_specific:
  "specific_queue j (fst (wake_waiters_for live k st)) =
     (if j = k then [] else specific_queue j st)"
  by (simp add: wake_waiters_for_def specific_queue_def Let_def split: option.splits)

lemma specific_update_slot [simp]: "specific_queue j (update_slot k f st) = specific_queue j st"
  by (simp add: specific_queue_def frame_simps)

lemma specific_claim_slot [simp]: "specific_queue j (claim_slot i st) = specific_queue j st"
  by (simp add: specific_queue_def frame_simps)

lemma specific_enqueue:
  "specific_queue j (enqueue_waiter hint c st) =
     (if usable_preference hint st = Some j then specific_queue j st @ [c]
      else specific_queue j st)"
  by (simp add: specific_queue_def enqueue_waiter_def split: option.splits)

lemma global_enqueue:
  "global_waiters (enqueue_waiter hint c st) =
     (if usable_preference hint st = None then global_waiters st @ [c] else global_waiters st)"
  by (simp add: enqueue_waiter_def split: option.splits)

text \<open>
  Releasing an existing slot frees it and only it, empties the slot's own queue, and
  wakes waiters by one rule: if any waiter queued for this slot is still there, every such
  waiter is woken and the general queue is left alone; otherwise every live general waiter is
  woken and the general queue is emptied. Nobody behind a dead waiter is skipped, and no
  other slot's queue is touched.
\<close>

lemma release_wakes:
  assumes "unat k < length (slots st)" and "release live k st = (st', sent)"
  shows "slots st' = (slots st)[unat k := (slots st ! unat k)\<lparr>busy := False\<rparr>] \<and>
    specific_queue k st' = [] \<and>
    (\<forall>j. j \<noteq> k \<longrightarrow> specific_queue j st' = specific_queue j st) \<and>
    (if \<exists>c\<in>set (specific_queue k st). live c
     then sent = filter live (specific_queue k st) \<and> global_waiters st' = global_waiters st
     else sent = filter live (global_waiters st) \<and> global_waiters st' = [])"
proof -
  let ?freed = "update_slot k (\<lambda>s. s\<lparr>busy := False\<rparr>) st"
  from assms have st': "st' = fst (wake_waiters_for live k ?freed)"
    and sent: "sent = snd (wake_waiters_for live k ?freed)"
    by (simp_all add: release_def)
  from assms(1) have "slots ?freed = (slots st)[unat k := (slots st ! unat k)\<lparr>busy := False\<rparr>]"
    by (simp add: update_slot_def)
  then show ?thesis
    unfolding st' sent
    by (auto simp: wake_sent wake_global wake_specific frame_simps)
qed

lemma release_wakes_witness:
  "specific_queue 0 (fst (release (\<lambda>c. c \<noteq> 5)
     0 (enqueue_waiter (Some (demo_hint ''p'' (Some 0) None)) 5 (new_scheduler 2)))) = []"
proof -
  let ?st = "enqueue_waiter (Some (demo_hint ''p'' (Some 0) None)) 5 (new_scheduler 2)"
  have k: "unat (0 :: u32) < length (slots ?st)" by (simp add: eval_simps)
  show ?thesis using release_wakes [OF k prod.collapse [symmetric]] by blast
qed

text \<open>
  Reconciliation is a release restricted to slots the broker has never claimed: on any
  other slot, and out of range, it changes nothing and wakes nobody, so it can never free a
  slot under a holder.
\<close>

lemma reconcile_is_guarded_release:
  "reconcile_seeded_idle live k st =
     (if unat k < length (slots st) \<and> seeded_unowned (slots st ! unat k)
      then release live k st else (st, []))"
  by (simp add: reconcile_seeded_idle_def release_def)

section \<open>Residency\<close>

lemma release_nth:
  "unat k < length (slots st) \<Longrightarrow>
     slots (fst (release live k st)) ! unat k = (slots st ! unat k)\<lparr>busy := False\<rparr>"
  by (simp add: release_slots nth_update_slot)

lemma length_release [frame_simps]: "length (slots (fst (release live k st))) = length (slots st)"
  by (simp add: release_slots frame_simps)

lemma admit_own_slot:
  assumes "well_sized st" and "unat k < length (slots st)" and "\<not> busy (slots st ! unat k)"
    and "preferred_slot h = Some k"
  shows "try_admit_locked (Some h) st =
    Some (\<lparr>slot_id = k, cache_ready = is_resident_in h (slots st ! unat k)\<rparr>,
          claim_slot (unat k) st)"
  using assms
  by (simp add: try_admit_locked_def usable_preference_def admit_preferred_def)

text \<open>
  Residency is recorded per model. After a slot has been marked with a prefix for a
  model and released, asking for that slot finds the cache ready exactly for the same prefix
  and the same model, and after the record is cleared for no hint at all.
\<close>

lemma residency_exact:
  assumes "well_sized st" and "unat k < length (slots st)" and "preferred_slot h = Some k"
  shows "map_option fst
      (try_admit_locked (Some h) (fst (release live k (mark_resident k model p st)))) =
      Some \<lparr>slot_id = k, cache_ready = (prefix_hash h = p \<and> hint_model h = model)\<rparr> \<and>
    map_option fst
      (try_admit_locked (Some h)
        (fst (release live k (clear_resident k (mark_resident k model p st))))) =
      Some \<lparr>slot_id = k, cache_ready = False\<rparr>"
proof -
  have "map_option fst (try_admit_locked (Some h) (fst (release live k (update_slot k f st)))) =
      Some \<lparr>slot_id = k, cache_ready = is_resident_in h (f (slots st ! unat k))\<rparr>" for f
    using assms
    by (simp add: admit_own_slot release_nth well_sized_def frame_simps sched_simps is_resident_in_def)
  note this [of "\<lambda>s. s\<lparr>resident_prefix := Some p, resident_model := model\<rparr>"]
    and this [of "\<lambda>s. s\<lparr>resident_prefix := None, resident_model := None\<rparr>"]
  moreover have "clear_resident k (mark_resident k model p st) = clear_resident k st"
    by (simp add: clear_resident_def mark_resident_def update_slot_def)
  ultimately show ?thesis
    by (auto simp: mark_resident_def clear_resident_def is_resident_in_def)
qed

lemma residency_exact_witness:
  "map_option fst (try_admit_locked (Some (demo_hint ''p'' (Some 0) (Some ''b'')))
      (fst (release (\<lambda>_. True) 0 (mark_resident 0 (Some ''a'') ''p'' (new_scheduler 2))))) =
    Some \<lparr>slot_id = 0, cache_ready = False\<rparr>"
proof -
  have k: "unat (0 :: u32) < length (slots (new_scheduler 2))" by (simp add: eval_simps)
  have h: "preferred_slot (demo_hint ''p'' (Some 0) (Some ''b'')) = Some 0"
    by (simp add: demo_hint_def)
  from residency_exact [OF well_sized_new k h, of "\<lambda>_. True" "Some ''a''" "''p''"]
  show ?thesis by (simp add: demo_hint_def)
qed

end
