(* ===== verification/Scheduler_Lru.thy ===== *)
theory Scheduler_Lru
  imports Scheduler_Laws
begin

text \<open>
  The least-recently-used tier against a reference: the list of slots in the order of their
  last use. Picking by stamps is proved to be picking the first idle slot of the list, and
  every operation to keep the list in step with the stamps; over a run of requests the slots
  then come in turn.
\<close>

section \<open>The reference\<close>

definition older :: "inner \<Rightarrow> nat \<Rightarrow> nat \<Rightarrow> bool" where
  "older st x y \<longleftrightarrow>
     last_used (slots st ! x) < last_used (slots st ! y) \<or>
     last_used (slots st ! x) = last_used (slots st ! y) \<and> x < y"

text \<open>\<open>order\<close> lists the slots, least recently used first; slots never used come by number.\<close>

definition lru_order :: "nat list \<Rightarrow> inner \<Rightarrow> bool" where
  "lru_order order st \<longleftrightarrow>
     distinct order \<and> set order = {..<length (slots st)} \<and> sorted_wrt (older st) order \<and>
     (\<forall>s\<in>set (slots st). last_used s \<le> clock st)"

definition first_idle :: "nat list \<Rightarrow> inner \<Rightarrow> nat option" where
  "first_idle order st = List.find (\<lambda>i. \<not> busy (slots st ! i)) order"

definition move_to_back :: "nat \<Rightarrow> nat list \<Rightarrow> nat list" where
  "move_to_back i order = remove1 i order @ [i]"

lemmas lru_reference_defs [eval_simps] = first_idle_def move_to_back_def

section \<open>Picking\<close>

lemma find_lru_is_oldest:
  assumes i: "i < length (slots st)" "\<not> busy (slots st ! i)"
    and oldest: "\<And>j. j < length (slots st) \<Longrightarrow> \<not> busy (slots st ! j) \<Longrightarrow> j \<noteq> i \<Longrightarrow> older st i j"
  shows "find_lru st = Some i"
proof -
  let ?es = "enumerate 0 (slots st)" and ?P = "\<lambda>(_ :: nat, s). \<not> busy s"
  from i(1) have split: "?es = take i ?es @ (i, slots st ! i) # drop (Suc i) ?es"
    using id_take_nth_drop [of i ?es] by (simp add: nth_enumerate_eq)
  have "min_by_key (\<lambda>(_, s). last_used s)
      (filter ?P (take i ?es) @ (i, slots st ! i) # filter ?P (drop (Suc i) ?es)) =
      Some (i, slots st ! i)"
  proof (rule min_by_key_first)
    fix x assume "x \<in> set (filter ?P (take i ?es))"
    then show "(case (i, slots st ! i) of (_, s) \<Rightarrow> last_used s) < (case x of (_, s) \<Rightarrow> last_used s)"
      using oldest by (fastforce simp: in_set_conv_nth nth_enumerate_eq older_def)
  next
    fix x assume "x \<in> set (filter ?P (drop (Suc i) ?es))"
    then obtain j where "i < j" "j < length (slots st)" "x = (j, slots st ! j)" "\<not> busy (slots st ! j)"
      by (auto simp: in_set_conv_nth nth_enumerate_eq)
    then show "(case (i, slots st ! i) of (_, s) \<Rightarrow> last_used s) \<le> (case x of (_, s) \<Rightarrow> last_used s)"
      using oldest [of j] by (auto simp: older_def)
  qed
  moreover have "filter ?P ?es =
      filter ?P (take i ?es) @ (i, slots st ! i) # filter ?P (drop (Suc i) ?es)"
    by (subst split) (simp add: i(2))
  ultimately show ?thesis by (simp add: find_lru_def)
qed

lemma first_idle_is_lru:
  assumes "lru_order order st"
  shows "find_lru st = first_idle order st"
proof (cases "first_idle order st")
  case None
  with assms have "\<forall>s\<in>set (slots st). busy s"
    by (auto simp: first_idle_def find_None_iff lru_order_def in_set_conv_nth)
  with None show ?thesis by (simp add: find_lru_None [THEN iffD2])
next
  case (Some i)
  then obtain n where n: "n < length order" "order ! n = i" "\<not> busy (slots st ! i)"
    and before: "\<And>m. m < n \<Longrightarrow> busy (slots st ! (order ! m))"
    by (auto simp: first_idle_def find_Some_iff)
  have "find_lru st = Some i"
  proof (rule find_lru_is_oldest)
    show "i < length (slots st)" using assms n by (auto simp: lru_order_def)
    show "\<not> busy (slots st ! i)" by (rule n(3))
    fix j assume j: "j < length (slots st)" "\<not> busy (slots st ! j)" "j \<noteq> i"
    with assms obtain m where m: "m < length order" "order ! m = j"
      by (metis in_set_conv_nth lessThan_iff lru_order_def)
    with before j(2,3) n(2) have "n < m" by (metis linorder_neqE_nat)
    with assms m n(2) show "older st i j"
      unfolding lru_order_def by (metis sorted_wrt_nth_less)
  qed
  with Some show ?thesis by simp
qed

section \<open>Keeping in step\<close>

text \<open>Only claims stamp slots.\<close>

lemma lru_order_frame:
  assumes "lru_order order st" and "length (slots st') = length (slots st)" and "clock st' = clock st"
    and "\<And>i. i < length (slots st) \<Longrightarrow> last_used (slots st' ! i) = last_used (slots st ! i)"
  shows "lru_order order st'"
proof -
  have "sorted_wrt (older st') order"
    using assms(1,4) unfolding lru_order_def
    by (auto simp: older_def elim!: sorted_wrt_mono_rel [rotated])
  with assms show ?thesis by (simp add: lru_order_def all_set_conv_all_nth)
qed

lemma lru_order_new: "lru_order [0..<unat n] (new_scheduler n)"
  by (auto simp: lru_order_def new_scheduler_def default_slot_def older_def sorted_wrt_iff_nth_less)

lemma word_tick:
  fixes x :: "'a::len word"
  assumes "x < - 1"
  shows "x < x + 1" and "unat (x + 1) = Suc (unat x)"
proof -
  show "x < x + 1" by (metis assms inc_less_eq_self_iff_eq linorder_not_less order_less_irrefl)
  then show "unat (x + 1) = Suc (unat x)"
    using unat_plus_simple [of x 1] by (cases "LENGTH('a)") (auto simp: less_imp_le)
qed

lemma lru_order_claim:
  assumes "lru_order order st" and "i < length (slots st)" and "clock st < - 1"
  shows "lru_order (move_to_back i order) (claim_slot i st)"
proof -
  let ?st = "claim_slot i st"
  note tick = word_tick(1) [OF assms(3)]
  have bound: "last_used (slots st ! x) \<le> clock st" if "x < length (slots st)" for x
    using assms(1) that by (simp add: lru_order_def)
  have mem: "set order = {..<length (slots st)}" "distinct order" "sorted_wrt (older st) order"
    using assms(1) by (simp_all add: lru_order_def)
  have "sorted_wrt (older ?st) (remove1 i order)"
  proof (rule sorted_wrt_mono_rel [of _ "older st"])
    show "sorted_wrt (older st) (remove1 i order)"
      using mem(3) by (induction order) auto
    show "older ?st x y" if "x \<in> set (remove1 i order)" "y \<in> set (remove1 i order)" "older st x y" for x y
      using that mem(1,2) assms(2) by (simp add: older_def nth_claim_slot)
  qed
  moreover have "older ?st x i" if "x \<in> set (remove1 i order)" for x
  proof -
    from that mem have "x \<noteq> i" "x < length (slots st)" by auto
    with bound [of x] tick assms(2) show ?thesis
      by (simp add: older_def nth_claim_slot) (meson le_less_trans)
  qed
  moreover have "\<forall>s\<in>set (slots ?st). last_used s \<le> clock ?st"
    unfolding all_set_conv_all_nth
    using bound tick assms(2) order.trans [OF bound less_imp_le [OF tick]]
    by (simp add: nth_claim_slot frame_simps)
  ultimately show ?thesis
    using mem assms(2)
    by (auto simp: lru_order_def move_to_back_def sorted_wrt_append frame_simps)
qed


section \<open>A scheduler without stamps\<close>

text \<open>
  The reference scheduler: it keeps the order and never reads or writes a stamp or the clock.
  A claim takes the first idle slot of the order and moves it to the back.
\<close>

definition ref_pick :: "slot_hint option \<Rightarrow> nat list \<Rightarrow> inner \<Rightarrow> nat option" where
  "ref_pick hint order st =
     (case usable_preference hint st of
        Some p \<Rightarrow> if busy (slots st ! unat p) then None else Some (unat p)
      | None \<Rightarrow>
          (case find_resident hint st of Some i \<Rightarrow> Some i | None \<Rightarrow> first_idle order st))"

definition ref_claim :: "nat \<Rightarrow> inner \<Rightarrow> inner" where
  "ref_claim i st =
     st\<lparr>slots := (slots st)[i := (slots st ! i)\<lparr>busy := True, seeded_unowned := False\<rparr>]\<rparr>"

definition ref_admit ::
  "slot_hint option \<Rightarrow> nat list \<Rightarrow> inner \<Rightarrow> (admission \<times> nat list \<times> inner) option" where
  "ref_admit hint order st =
     map_option
       (\<lambda>i. (\<lparr>slot_id = of_nat i, cache_ready = resident_for hint (slots st ! i)\<rparr>,
             move_to_back i order, ref_claim i st))
       (ref_pick hint order st)"

text \<open>The operations on a scheduler, and the ones both schedulers share.\<close>

datatype slot_op =
    Try "slot_hint option"
  | Enqueue "slot_hint option" chan
  | Give_Back u32
  | ReconcileIdle u32
  | SeedBusy u32
  | MarkResident u32 "string option" string
  | ClearResident u32

fun plain_op :: "(chan \<Rightarrow> bool) \<Rightarrow> slot_op \<Rightarrow> inner \<Rightarrow> inner" where
  "plain_op live (Enqueue hint tx) st = enqueue_waiter hint tx st"
| "plain_op live (Give_Back k) st = fst (release live k st)"
| "plain_op live (ReconcileIdle k) st = fst (reconcile_seeded_idle live k st)"
| "plain_op live (SeedBusy k) st = seed_busy k st"
| "plain_op live (MarkResident k m p) st = mark_resident k m p st"
| "plain_op live (ClearResident k) st = clear_resident k st"
| "plain_op live (Try hint) st = st"

text \<open>Runs of the two, with the answers to the attempts.\<close>

fun run_ops :: "(chan \<Rightarrow> bool) \<Rightarrow> slot_op list \<Rightarrow> inner \<Rightarrow> admission option list" where
  "run_ops live [] st = []"
| "run_ops live (Try hint # ops) st =
     (case try_admit_locked hint st of
        None \<Rightarrow> None # run_ops live ops st
      | Some (a, st') \<Rightarrow> Some a # run_ops live ops st')"
| "run_ops live (oper # ops) st = run_ops live ops (plain_op live oper st)"

fun run_ref ::
  "(chan \<Rightarrow> bool) \<Rightarrow> slot_op list \<Rightarrow> nat list \<Rightarrow> inner \<Rightarrow> admission option list" where
  "run_ref live [] order st = []"
| "run_ref live (Try hint # ops) order st =
     (case ref_admit hint order st of
        None \<Rightarrow> None # run_ref live ops order st
      | Some (a, order', st') \<Rightarrow> Some a # run_ref live ops order' st')"
| "run_ref live (oper # ops) order st = run_ref live ops order (plain_op live oper st)"

lemmas reference_defs [eval_simps] = ref_pick_def ref_claim_def ref_admit_def resident_for_def

section \<open>Equal but for the stamps\<close>

definition same_slot :: "slot_state \<Rightarrow> slot_state \<Rightarrow> bool" where
  "same_slot s t \<longleftrightarrow>
     busy s = busy t \<and> seeded_unowned s = seeded_unowned t \<and>
     resident_prefix s = resident_prefix t \<and> resident_model s = resident_model t"

definition same_but_stamps :: "inner \<Rightarrow> inner \<Rightarrow> bool" where
  "same_but_stamps st rt \<longleftrightarrow>
     list_all2 same_slot (slots st) (slots rt) \<and>
     slot_waiters st = slot_waiters rt \<and> global_waiters st = global_waiters rt"

lemma same_refl: "same_but_stamps st st"
  by (simp add: same_but_stamps_def same_slot_def list_all2_refl)

lemma sameD:
  assumes "same_but_stamps st rt"
  shows "length (slots st) = length (slots rt)"
    and "i < length (slots st) \<Longrightarrow> same_slot (slots st ! i) (slots rt ! i)"
  using assms by (auto simp: same_but_stamps_def list_all2_conv_all_nth)

lemma find_enumerate_same:
  assumes "list_all2 R xs ys" and "\<And>x y. R x y \<Longrightarrow> P x = Q y"
  shows "map_option fst (List.find (\<lambda>(_, x). P x) (enumerate n xs)) =
    map_option fst (List.find (\<lambda>(_, y). Q y) (enumerate n ys))"
  using assms(1) by (induction arbitrary: n rule: list_all2_induct) (simp_all add: assms(2))

lemma same_find_resident: "same_but_stamps st rt \<Longrightarrow> find_resident hint st = find_resident hint rt"
  by (auto simp: find_resident_def same_but_stamps_def same_slot_def is_resident_in_def
      split: option.splits intro!: find_enumerate_same)

lemma same_first_idle:
  assumes "same_but_stamps st rt" and "set order \<subseteq> {..<length (slots st)}"
  shows "first_idle order st = first_idle order rt"
proof -
  have "busy (slots st ! i) = busy (slots rt ! i)" if "i \<in> set order" for i
    using sameD(2) [OF assms(1), of i] that assms(2) by (auto simp: same_slot_def)
  then show ?thesis unfolding first_idle_def by (intro find_cong) auto
qed

lemma same_pick:
  assumes "same_but_stamps st rt" and "lru_order order st"
  shows "pick_slot hint st = ref_pick hint order rt"
proof -
  have pref: "usable_preference hint rt = usable_preference hint st"
    using sameD(1) [OF assms(1)] by (intro usable_preference_cong) simp
  have "busy (slots st ! unat p) = busy (slots rt ! unat p)"
    if "usable_preference hint st = Some p" for p
    using sameD(2) [OF assms(1) usable_preference_lt [OF that]] by (simp add: same_slot_def)
  moreover have "set order \<subseteq> {..<length (slots st)}" using assms(2) by (simp add: lru_order_def)
  ultimately show ?thesis
    using same_find_resident [OF assms(1), of hint] same_first_idle [OF assms(1)]
      first_idle_is_lru [OF assms(2)]
    by (auto simp: pick_slot_def ref_pick_def pref split: option.splits)
qed

lemma same_update:
  assumes "same_but_stamps st rt" and "\<And>s t. same_slot s t \<Longrightarrow> same_slot (f s) (f t)"
  shows "same_but_stamps (update_slot k f st) (update_slot k f rt)"
  using assms by (auto simp: same_but_stamps_def update_slot_def list_all2_conv_all_nth nth_list_update)

lemma same_wake:
  "same_but_stamps st rt \<Longrightarrow>
     same_but_stamps (fst (wake_waiters_for live k st)) (fst (wake_waiters_for live k rt))"
  by (simp add: same_but_stamps_def wake_waiters_for_def Let_def split: option.splits)

lemma same_plain_op:
  assumes "same_but_stamps st rt"
  shows "same_but_stamps (plain_op live oper st) (plain_op live oper rt)"
proof (cases oper)
  case (Give_Back k)
  then show ?thesis
    using assms sameD(1) [OF assms]
    by (auto simp: release_def same_slot_def intro!: same_wake same_update)
next
  case (ReconcileIdle k)
  then show ?thesis
    using assms sameD(1) [OF assms] sameD(2) [OF assms, of "unat k"]
    by (auto simp: reconcile_seeded_idle_def same_slot_def intro!: same_wake same_update)
next
  case (Enqueue hint tx)
  moreover have "usable_preference hint rt = usable_preference hint st"
    using sameD(1) [OF assms] by (intro usable_preference_cong) simp
  ultimately show ?thesis
    using assms by (auto simp: enqueue_waiter_def same_but_stamps_def split: option.splits)
qed (use assms in \<open>auto simp: seed_busy_def mark_resident_def clear_resident_def same_slot_def
       intro!: same_update\<close>)

lemma same_claim:
  assumes "same_but_stamps st rt" and "i < length (slots st)"
  shows "same_but_stamps (claim_slot i st) (ref_claim i rt)"
  using assms(1) sameD(2) [OF assms]
  by (simp add: same_but_stamps_def claim_slot_def ref_claim_def same_slot_def
      list_all2_update_cong)

lemma lru_order_plain_op:
  assumes "lru_order order st"
  shows "lru_order order (plain_op live oper st)" and "clock (plain_op live oper st) = clock st"
proof -
  have keep: "length (slots (plain_op live oper st)) = length (slots st) \<and>
      clock (plain_op live oper st) = clock st \<and>
      (\<forall>i<length (slots st). last_used (slots (plain_op live oper st) ! i) = last_used (slots st ! i))"
    by (cases oper)
      (auto simp: release_def reconcile_seeded_idle_def seed_busy_def mark_resident_def
        clear_resident_def frame_simps nth_update_slot)
  then show "lru_order order (plain_op live oper st)"
    by (intro lru_order_frame [OF assms]) simp_all
  from keep show "clock (plain_op live oper st) = clock st" by simp
qed


section \<open>The two agree\<close>

lemma run_ops_ref:
  assumes "same_but_stamps st rt" and "lru_order order st" and "well_sized st"
    and "unat (clock st) + length ops < 2 ^ 64"
  shows "run_ops live ops st = run_ref live ops order rt"
  using assms
proof (induction ops arbitrary: st rt order)
  case Nil
  then show ?case by simp
next
  case (Cons oper ops)
  show ?case
  proof (cases "\<exists>hint. oper = Try hint")
    case False
    have "run_ops live (oper # ops) st = run_ops live ops (plain_op live oper st)"
      and "run_ref live (oper # ops) order rt = run_ref live ops order (plain_op live oper rt)"
      using False by (cases oper; simp)+
    moreover have "well_sized (plain_op live oper st)"
      using lru_order_plain_op(1) [OF Cons.prems(2), of live oper] Cons.prems(2,3)
      by (simp add: lru_order_def well_sized_def)
    ultimately show ?thesis
      using Cons same_plain_op [of st rt live oper] lru_order_plain_op [of order st live oper] by simp
  next
    case True
    then obtain hint where oper: "oper = Try hint" by blast
    note pick = same_pick [OF Cons.prems(1,2), of hint]
    show ?thesis
    proof (cases "pick_slot hint st")
      case None
      with pick oper Cons show ?thesis
        by (simp add: try_admit_eq ref_admit_def)
    next
      case (Some i)
      note i = pick_slot_Some(1) [OF Some]
      from Cons.prems(4) have tick: "clock st < - 1"
        by (simp add: word_less_nat_alt unsigned_minus_1_eq_mask mask_eq_exp_minus_1)
      then have "unat (clock (claim_slot i st)) = Suc (unat (clock st))"
        by (simp add: frame_simps word_tick(2))
      with Cons.prems(4) have room: "unat (clock (claim_slot i st)) + length ops < 2 ^ 64" by simp
      have "resident_for hint (slots st ! i) = resident_for hint (slots rt ! i)"
        using sameD(2) [OF Cons.prems(1) i]
        by (simp add: resident_for_def is_resident_in_def same_slot_def split: option.splits)
      with Some pick oper Cons.prems(3)
        Cons.IH [OF same_claim [OF Cons.prems(1) i] lru_order_claim [OF Cons.prems(2) i tick] _ room]
      show ?thesis by (simp add: try_admit_eq ref_admit_def)
    qed
  qed
qed

text \<open>
  C19: The stamps are an exact representation of the order of use. Over any sequence of
  attempts, releases, reconciliations, seeds, queueings and records on a new scheduler, the
  code's answers to the attempts, slot and cache readiness, are those of the reference that
  has no stamps and no clock: it takes the first idle slot of an explicit list and moves it to
  the back. It holds while the 64-bit clock does not overflow.
\<close>

theorem lru_equals_move_to_back:
  assumes "length ops < 2 ^ 64"
  shows "run_ops live ops (new_scheduler n) =
    run_ref live ops [0..<unat n] (new_scheduler n)"
  by (rule run_ops_ref [OF same_refl lru_order_new well_sized_new])
    (use assms in \<open>simp add: new_scheduler_def\<close>)

lemma lru_equals_move_to_back_witness:
  "run_ops (\<lambda>_. True) [Try None, Try None, Give_Back 0, Give_Back 1, MarkResident 0 None ''p'', Try None, Try None, Try None]
     (new_scheduler 2) =
   [Some \<lparr>slot_id = 0, cache_ready = False\<rparr>, Some \<lparr>slot_id = 1, cache_ready = False\<rparr>,
    Some \<lparr>slot_id = 0, cache_ready = False\<rparr>, Some \<lparr>slot_id = 1, cache_ready = False\<rparr>, None]"
  by (subst lru_equals_move_to_back) (simp_all add: eval_simps Let_def upt_rec)

section \<open>Round robin\<close>

text \<open>Requests served one after the other, each admitted and released.\<close>

definition serve_one :: "slot_hint option \<Rightarrow> inner \<Rightarrow> (u32 \<times> inner) option" where
  "serve_one hint st =
     (case try_admit_locked hint st of
        None \<Rightarrow> None
      | Some (a, st') \<Rightarrow> Some (slot_id a, fst (release (\<lambda>_. True) (slot_id a) st')))"

fun serve_all :: "slot_hint option list \<Rightarrow> inner \<Rightarrow> (u32 list \<times> inner) option" where
  "serve_all [] st = Some ([], st)"
| "serve_all (h # hs) st =
     (case serve_one h st of
        None \<Rightarrow> None
      | Some (k, st') \<Rightarrow>
          (case serve_all hs st' of
             None \<Rightarrow> None
           | Some (ks, st'') \<Rightarrow> Some (k # ks, st'')))"

definition no_preference :: "slot_hint option \<Rightarrow> bool" where
  "no_preference hint \<longleftrightarrow> (case hint of None \<Rightarrow> True | Some h \<Rightarrow> preferred_slot h = None)"

text \<open>Idle, nothing resident, and the order of use rotated \<open>m\<close> times.\<close>

definition rotated :: "nat \<Rightarrow> nat \<Rightarrow> inner \<Rightarrow> bool" where
  "rotated m n st \<longleftrightarrow>
     lru_order (rotate m [0..<n]) st \<and> length (slots st) = n \<and> clock st = of_nat m \<and>
     (\<forall>x<n. \<not> busy (slots st ! x) \<and> resident_prefix (slots st ! x) = None)"

lemma rotated_new: "rotated 0 (unat n) (new_scheduler n)"
  using lru_order_new [of n] by (simp add: rotated_def new_scheduler_def default_slot_def)

lemma rotate_turn:
  assumes "0 < n"
  shows "rotate m [0..<n] = m mod n # tl (rotate m [0..<n])"
    and "move_to_back (m mod n) (rotate m [0..<n]) = rotate (Suc m) [0..<n]"
proof -
  have "hd (rotate m [0..<n]) = m mod n" using assms by (simp add: hd_rotate_conv_nth)
  with assms show cons: "rotate m [0..<n] = m mod n # tl (rotate m [0..<n])"
    by (metis length_0_conv length_rotate length_upt list.collapse minus_nat.diff_0 not_gr_zero)
  show "move_to_back (m mod n) (rotate m [0..<n]) = rotate (Suc m) [0..<n]"
    unfolding rotate_Suc by (subst (1 2) cons) (simp add: move_to_back_def)
qed

lemma rotated_serve:
  assumes r: "rotated m n st" and n: "0 < n" "n < 2 ^ 32" and m: "Suc m < 2 ^ 64"
    and hint: "no_preference hint"
  shows "\<exists>st'. serve_one hint st = Some (of_nat (m mod n), st') \<and> rotated (Suc m) n st'"
proof -
  from r have order: "lru_order (rotate m [0..<n]) st" and len: "length (slots st) = n"
    and clk: "clock st = of_nat m"
    and idle: "\<And>x. x < n \<Longrightarrow> \<not> busy (slots st ! x) \<and> resident_prefix (slots st ! x) = None"
    by (simp_all add: rotated_def)
  have i: "m mod n < n" using n(1) by simp
  with n(2) have unat: "unat (of_nat (m mod n) :: u32) = m mod n" by simp
  have "usable_preference hint st = None"
    using hint by (cases hint) (simp_all add: no_preference_def usable_preference_def)
  moreover have "find_resident hint st = None"
    using idle len by (auto simp: find_resident_None resident_for_def is_resident_in_def
        in_set_conv_nth split: option.splits)
  moreover have "find_lru st = Some (m mod n)"
    unfolding first_idle_is_lru [OF order] first_idle_def using idle [OF i]
    by (subst rotate_turn(1) [OF n(1)]) simp
  ultimately have "pick_slot hint st = Some (m mod n)" by (simp add: pick_slot_def)
  moreover have "well_sized st" using n(2) len by (simp add: well_sized_def)
  ultimately have served: "try_admit_locked hint st =
      Some (\<lparr>slot_id = of_nat (m mod n), cache_ready = resident_for hint (slots st ! (m mod n))\<rparr>,
            claim_slot (m mod n) st)"
    by (simp add: try_admit_eq)
  have tick: "clock st < - 1" using m clk by (simp add: word_less_nat_alt unsigned_minus_1_eq_mask mask_eq_exp_minus_1)
  let ?st' = "plain_op (\<lambda>_. True) (Give_Back (of_nat (m mod n))) (claim_slot (m mod n) st)"
  have "lru_order (rotate (Suc m) [0..<n]) ?st'" and "clock ?st' = clock st + 1"
    using lru_order_plain_op [OF lru_order_claim [OF order _ tick], of "m mod n"]
      rotate_turn(2) [OF n(1)] i len
    by (simp_all add: frame_simps del: plain_op.simps)
  moreover have "\<forall>x<n. \<not> busy (slots ?st' ! x) \<and> resident_prefix (slots ?st' ! x) = None"
    using i len idle by (simp add: sched_simps frame_simps unat)
  ultimately have "rotated (Suc m) n ?st'"
    using clk len by (simp add: rotated_def frame_simps release_def)
  with served show ?thesis by (simp add: serve_one_def)
qed

lemma rotated_serve_all:
  assumes "rotated m n st" and "0 < n" and "n < 2 ^ 32" and "m + length hints < 2 ^ 64"
    and "list_all no_preference hints"
  shows "map_option fst (serve_all hints st) =
    Some (map (\<lambda>t. of_nat (t mod n)) [m..<m + length hints])"
  using assms
proof (induction hints arbitrary: m st)
  case Nil
  then show ?case by simp
next
  case (Cons h hs)
  from Cons.prems have "Suc m < 2 ^ 64" and "no_preference h" by simp_all
  with Cons.prems(1-3) obtain st' where s: "serve_one h st = Some (of_nat (m mod n), st')"
    and r: "rotated (Suc m) n st'"
    using rotated_serve by blast
  from Cons.prems have "Suc m + length hs < 2 ^ 64" and "list_all no_preference hs" by simp_all
  from Cons.IH [OF r Cons.prems(2,3) this] obtain st'' where
    "serve_all hs st' = Some (map (\<lambda>t. of_nat (t mod n)) [Suc m..<Suc m + length hs], st'')"
    by auto
  moreover have "[m..<m + length (h # hs)] = m # [Suc m..<Suc m + length hs]"
    by (simp add: upt_conv_Cons del: upt_Suc)
  ultimately show ?case using s by (simp del: upt_Suc)
qed

text \<open>
  Requests without a preferred slot and with nothing resident, served one after the other on a
  new scheduler of \<open>n\<close> slots, use the slots in turn: no slot is ever favoured.
\<close>

lemma lru_is_round_robin:
  assumes "n \<noteq> 0" and "length hints < 2 ^ 64" and "list_all no_preference hints"
  shows "map_option fst (serve_all hints (new_scheduler n)) =
    Some (map (\<lambda>t. of_nat (t mod unat n)) [0..<length hints])"
  using rotated_serve_all [OF rotated_new, of n hints] assms unsigned_less [of n]
  by (simp add: unat_gt_0)

end
