(* ===== verification/Slot_Pool.thy ===== *)
theory Slot_Pool
  imports Scheduler_Laws
begin

text \<open>
  What the scheduler promises about ownership, without queues, clocks or residency: a pool of
  slots, each free, owned by a request the broker admitted, or occupied by work llama-server
  was already running when the broker started. Every operation of the scheduler is shown to
  be the pool operation of the same meaning on \<open>pool st\<close>.
\<close>

datatype slot_status = Free | Owned | Seeded

definition status_of :: "slot_state \<Rightarrow> slot_status" where
  "status_of s = (if \<not> busy s then Free else if seeded_unowned s then Seeded else Owned)"

definition pool :: "inner \<Rightarrow> slot_status list" where
  "pool st = map status_of (slots st)"

section \<open>The abstract pool\<close>

definition pool_set :: "u32 \<Rightarrow> slot_status \<Rightarrow> slot_status list \<Rightarrow> slot_status list" where
  "pool_set k v ps = ps[unat k := v]"

text \<open>\<open>None\<close> when the slot cannot be taken.\<close>

definition pool_take :: "u32 \<Rightarrow> slot_status list \<Rightarrow> slot_status list option" where
  "pool_take k ps =
     (if unat k < length ps \<and> ps ! unat k = Free then Some (pool_set k Owned ps) else None)"

definition pool_idle :: "u32 \<Rightarrow> slot_status list \<Rightarrow> slot_status list" where
  "pool_idle k ps =
     (if unat k < length ps \<and> ps ! unat k = Seeded then pool_set k Free ps else ps)"

lemma pool_update_slot:
  "pool (update_slot k f st) =
     (if unat k < length (slots st) then pool_set k (status_of (f (slots st ! unat k))) (pool st)
      else pool st)"
  by (simp add: pool_def pool_set_def update_slot_def map_update)

lemma pool_claim_slot:
  "pool (claim_slot i st) = (pool st)[i := Owned]"
  by (simp add: pool_def claim_slot_def map_update status_of_def)

lemma pool_wake: "pool (fst (wake_waiters_for live k st)) = pool st"
  by (simp add: pool_def frame_simps)

lemma pool_enqueue: "pool (enqueue_waiter hint c st) = pool st"
  by (simp add: pool_def frame_simps)

lemma pool_update_same:
  assumes "status_of (f (slots st ! unat k)) = status_of (slots st ! unat k)"
  shows "pool (update_slot k f st) = pool st"
  using assms
  by (simp add: pool_update_slot pool_set_def) (simp add: pool_def map_update [symmetric])

lemma pool_mark: "pool (mark_resident k model p st) = pool st"
  unfolding mark_resident_def by (rule pool_update_same) (simp add: status_of_def)

lemma pool_clear: "pool (clear_resident k st) = pool st"
  unfolding clear_resident_def by (rule pool_update_same) (simp add: status_of_def)

lemma pool_set_beyond: "length ps \<le> unat k \<Longrightarrow> pool_set k v ps = ps"
  by (simp add: pool_set_def list_update_beyond)

lemma length_pool [simp]: "length (pool st) = length (slots st)"
  by (simp add: pool_def)

lemma nth_pool: "i < length (slots st) \<Longrightarrow> pool st ! i = status_of (slots st ! i)"
  by (simp add: pool_def)

lemma pool_release: "pool (fst (release live k st)) = pool_set k Free (pool st)"
  by (simp add: release_def pool_wake pool_update_slot status_of_def pool_set_beyond)

lemma pool_reconcile: "pool (fst (reconcile_seeded_idle live k st)) = pool_idle k (pool st)"
proof (cases "unat k < length (slots st)")
  case True
  then have "pool_set k (pool st ! unat k) (pool st) = pool st"
    by (simp add: pool_set_def)
  with True show ?thesis
    by (auto simp: reconcile_seeded_idle_def pool_wake pool_update_slot pool_idle_def nth_pool
        status_of_def split: if_splits)
qed (simp add: reconcile_seeded_idle_def pool_idle_def)

lemma pool_admit:
  assumes "well_sized st" and "try_admit_locked hint st = Some (a, st')"
  shows "pool_take (slot_id a) (pool st) = Some (pool st')"
  using assms(2,1)
  by (auto elim!: try_admit_SomeE simp: pool_take_def pool_set_def pool_claim_slot nth_pool
      status_of_def)

lemma pool_refused:
  assumes "well_sized st" and "try_admit_locked hint st = None"
  shows "case usable_preference hint st of
      Some p \<Rightarrow> pool st ! unat p \<noteq> Free | None \<Rightarrow> Free \<notin> set (pool st)"
proof -
  from assms have "pick_slot hint st = None" by (simp add: try_admit_eq)
  then show ?thesis
    using usable_preference_lt [of hint st]
    by (auto simp: pick_slot_None nth_pool status_of_def pool_def split: option.splits)
qed

text \<open>
  C18: The scheduler refines the slot pool. An admission takes the slot it names, which was
  free, and is refused only if the preferred slot, or every slot, is taken; a release makes its slot free; reconciliation makes a slot free only if it was
  occupied from before the start; seeding marks a slot so; queueing a waiter and recording or
  clearing residency leave ownership alone.
\<close>

theorem scheduler_refines_pool:
  assumes "well_sized st"
  shows "(case try_admit_locked hint st of
       Some (a, st') \<Rightarrow> pool_take (slot_id a) (pool st) = Some (pool st')
     | None \<Rightarrow>
         (case usable_preference hint st of
            Some p \<Rightarrow> pool st ! unat p \<noteq> Free | None \<Rightarrow> Free \<notin> set (pool st))) \<and>
    pool (fst (release live k st)) = pool_set k Free (pool st) \<and>
    pool (fst (reconcile_seeded_idle live k st)) = pool_idle k (pool st) \<and>
    pool (seed_busy k st) = pool_set k Seeded (pool st) \<and>
    pool (enqueue_waiter hint c st) = pool st \<and>
    pool (mark_resident k model p st) = pool st \<and>
    pool (clear_resident k st) = pool st"
proof -
  have admit: "case try_admit_locked hint st of
       Some (a, st') \<Rightarrow> pool_take (slot_id a) (pool st) = Some (pool st')
     | None \<Rightarrow>
         (case usable_preference hint st of
            Some p \<Rightarrow> pool st ! unat p \<noteq> Free | None \<Rightarrow> Free \<notin> set (pool st))"
    using pool_admit [OF assms] pool_refused [OF assms]
    by (cases "try_admit_locked hint st") auto
  have "pool (seed_busy k st) = pool_set k Seeded (pool st)"
    by (simp add: seed_busy_def pool_update_slot status_of_def pool_set_beyond)
  then show ?thesis
    using admit by (simp add: pool_release pool_reconcile pool_enqueue pool_mark pool_clear)
qed

lemma scheduler_refines_pool_witness:
  "pool (fst (reconcile_seeded_idle (\<lambda>_. True) 0 (seed_busy 0 (new_scheduler 2)))) = [Free, Free]"
proof -
  have w: "well_sized (seed_busy 0 (new_scheduler 2))" by (simp add: seed_busy_def)
  have "pool (seed_busy 0 (new_scheduler 2)) = [Seeded, Free]"
    by (simp add: pool_def status_of_def eval_simps)
  then show ?thesis
    using scheduler_refines_pool [OF w, of None "\<lambda>_. True" 0 0 None "''p''"]
    by (simp add: pool_idle_def pool_set_def)
qed

end
