(* ===== verification/Sched_System.thy ===== *)
theory Sched_System
  imports Slot_Pool
begin

text \<open>
  \<^verbatim>\<open>Scheduler::admit\<close> and its callers as a concurrent system: any number of requests
  run the waiting loop of Wait_Loop on the scheduler, a holder ends by dropping its
  \<^verbatim>\<open>ReleaseGuard\<close> (\<open>Finish\<close>), the reconciliation task of main.rs and the residency
  updates of the HTTP handler run at any time, and a request may be dropped while it waits.
\<close>

section \<open>The scheduler as a resource of the waiting loop\<close>

datatype sched_op =
    Release u32
  | Reconcile u32
  | Mark_Resident u32 "string option" string
  | Clear_Resident u32

fun sched_operate :: "instant \<Rightarrow> sched_op \<Rightarrow> (chan \<Rightarrow> bool) \<Rightarrow> inner \<Rightarrow> inner \<times> chan list" where
  "sched_operate t (Release k) live st = release live k st"
| "sched_operate t (Reconcile k) live st = reconcile_seeded_idle live k st"
| "sched_operate t (Mark_Resident k m p) live st = (mark_resident k m p st, [])"
| "sched_operate t (Clear_Resident k) live st = (clear_resident k st, [])"

type_synonym sched_world = "(inner, slot_hint option, admission) world"
type_synonym sched_event = "(slot_hint option, unit, sched_op) event"

text \<open>\<^verbatim>\<open>Scheduler::admit\<close>: the waiting loop with these critical sections.\<close>

definition sched_admit ::
  "(inner, slot_hint option, admission, unit, sched_op) resource" where
  "sched_admit =
     \<lparr>attempt = (\<lambda>_ _ hint st. try_admit_locked hint st),
      enqueue = enqueue_waiter,
      operate = sched_operate,
      relinquish = (\<lambda>a. Release (slot_id a))\<rparr>"

text \<open>
  Only the guard of the request that holds a slot releases it; everything else may happen at
  any time.
\<close>

fun broker_event :: "sched_world \<Rightarrow> sched_event \<Rightarrow> bool" where
  "broker_event w (Operate (Release k)) = False"
| "broker_event w e = True"

text \<open>Start-up: a scheduler for the slots llama-server reports, those in use seeded busy.\<close>

definition seeded_scheduler :: "u32 \<Rightarrow> u32 list \<Rightarrow> inner" where
  "seeded_scheduler n ks = fold seed_busy ks (new_scheduler n)"

definition broker_start :: "u32 \<Rightarrow> u32 list \<Rightarrow> sched_world" where
  "broker_start n ks = start_world (seeded_scheduler n ks)"

lemmas system_defs [eval_simps] =
  sched_admit_def seeded_scheduler_def broker_start_def

lemma sched_admit_simps [simp]:
  "attempt sched_admit t x hint st = try_admit_locked hint st"
  "enqueue sched_admit = enqueue_waiter"
  "operate sched_admit = sched_operate"
  "relinquish sched_admit a = Release (slot_id a)"
  by (simp_all add: sched_admit_def)

section \<open>The loop's contract holds for the scheduler\<close>

definition sched_queued :: "inner \<Rightarrow> chan set" where
  "sched_queued st = set (global_waiters st) \<union> (\<Union>k. set (specific_queue k st))"

lemma try_admit_claims: "try_admit_locked hint st = Some (a, st') \<Longrightarrow> \<exists>i. st' = claim_slot i st"
  by (auto simp: try_admit_locked_def admit_preferred_def Let_def split: option.splits if_splits)

lemma sched_queued_frame [frame_simps]:
  "sched_queued (claim_slot i st) = sched_queued st"
  "sched_queued (update_slot k f st) = sched_queued st"
  by (simp_all add: sched_queued_def frame_simps)

lemma sched_queued_enqueue: "sched_queued (enqueue_waiter hint c st) = insert c (sched_queued st)"
  by (auto simp: sched_queued_def specific_enqueue global_enqueue split: if_splits)

lemma wake_queued:
  "sched_queued (fst (wake_waiters_for live k st)) \<subseteq> sched_queued st"
  by (auto simp: sched_queued_def wake_global wake_specific split: if_splits)

lemma wake_sent_queued: "set (snd (wake_waiters_for live k st)) \<subseteq> sched_queued st"
  by (auto simp: sched_queued_def wake_sent)

lemma wake_delivers:
  assumes "c \<in> sched_queued st" and "live c"
  shows "c \<in> sched_queued (fst (wake_waiters_for live k st)) \<or>
    c \<in> set (snd (wake_waiters_for live k st))"
proof (cases "\<exists>c\<in>set (specific_queue k st). live c")
  case True
  with assms show ?thesis
    by (simp add: sched_queued_def wake_global wake_specific wake_sent) (metis)
next
  case False
  with assms show ?thesis
    by (simp add: sched_queued_def wake_global wake_specific wake_sent) (metis)
qed

lemmas wake_laws = wake_queued wake_sent_queued wake_delivers

text \<open>Every operation either edits one slot quietly or frees one slot and wakes.\<close>

lemma update_slot_id: "update_slot k id st = st"
  by (simp add: update_slot_def)

lemma operate_cases:
  obtains (quiet) k f where "sched_operate t op live st = (update_slot k f st, [])"
      and "\<And>s. busy (f s) = busy s"
  | (waking) k where "sched_operate t op live st =
      wake_waiters_for live k (update_slot k (\<lambda>s. s\<lparr>busy := False\<rparr>) st)"
proof (cases op)
  case (Release k)
  then show ?thesis
    using that(1) [of k id] that(2) [of k]
    by (cases "unat k < length (slots st)") (simp_all add: release_def update_slot_id)
next
  case (Reconcile k)
  then show ?thesis
    using that(1) [of k id] that(2) [of k]
    by (cases "unat k < length (slots st) \<and> seeded_unowned (slots st ! unat k)")
      (auto simp add: reconcile_seeded_idle_def update_slot_id)
next
  case (Mark_Resident k m p)
  then show ?thesis using that(1) by (simp add: mark_resident_def)
next
  case (Clear_Resident k)
  then show ?thesis using that(1) by (simp add: clear_resident_def)
qed

lemma operate_laws:
  assumes "sched_operate t op live st = (st', sent)"
  shows "sched_queued st' \<subseteq> sched_queued st" and "set sent \<subseteq> sched_queued st"
    and "c \<in> sched_queued st \<Longrightarrow> live c \<Longrightarrow> c \<in> sched_queued st' \<or> c \<in> set sent"
proof -
  have "sched_queued st' \<subseteq> sched_queued st \<and> set sent \<subseteq> sched_queued st \<and>
    (c \<in> sched_queued st \<longrightarrow> live c \<longrightarrow> c \<in> sched_queued st' \<or> c \<in> set sent)"
  proof (cases rule: operate_cases [of t op live st])
    case (quiet k f)
    with assms show ?thesis by (auto simp: frame_simps)
  next
    case (waking k)
    let ?f = "update_slot k (\<lambda>s. s\<lparr>busy := False\<rparr>) st"
    from waking assms have eq: "wake_waiters_for live k ?f = (st', sent)" by simp
    have "st' = fst (wake_waiters_for live k ?f)" and "sent = snd (wake_waiters_for live k ?f)"
      by (simp_all add: eq)
    moreover have "sched_queued ?f = sched_queued st" by (rule sched_queued_frame)
    ultimately show ?thesis
      using wake_laws(1,2) [of live k ?f] wake_laws(3) [of c ?f live k] by simp
  qed
  then show "sched_queued st' \<subseteq> sched_queued st" and "set sent \<subseteq> sched_queued st"
    and "c \<in> sched_queued st \<Longrightarrow> live c \<Longrightarrow> c \<in> sched_queued st' \<or> c \<in> set sent"
    by auto
qed

interpretation sched: wait_queue sched_admit sched_queued
  by unfold_locales
    (auto simp: frame_simps sched_queued_enqueue dest: try_admit_claims operate_laws)

section \<open>Ownership\<close>

text \<open>
  \<open>owned_by ps T\<close>: the owned slots of the pool are exactly those some task holds, and no
  two tasks hold the same one.
\<close>

definition owned_by :: "slot_status list \<Rightarrow> (nat \<Rightarrow> (slot_hint option, admission) task) \<Rightarrow> bool" where
  "owned_by ps T \<longleftrightarrow>
     (\<forall>i a. T i = Holding a \<longrightarrow>
        unat (slot_id a) < length ps \<and> ps ! unat (slot_id a) = Owned) \<and>
     (\<forall>i j a b. T i = Holding a \<and> T j = Holding b \<and> slot_id a = slot_id b \<longrightarrow> i = j) \<and>
     (\<forall>k<length ps. ps ! k = Owned \<longrightarrow> (\<exists>i a. T i = Holding a \<and> unat (slot_id a) = k))"

lemma owned_by_other:
  assumes "owned_by ps T" and "\<And>g. T i \<noteq> Holding g" and "\<And>g. t \<noteq> Holding g"
  shows "owned_by ps (T(i := t))"
  using assms unfolding owned_by_def by (auto simp: fun_upd_apply) metis

lemma owned_by_cong:
  assumes "owned_by ps T" and "\<And>i g. T' i = Holding g \<longleftrightarrow> T i = Holding g"
  shows "owned_by ps T'"
  using assms unfolding owned_by_def by simp

lemma owned_by_take:
  assumes own: "owned_by ps T" and take: "pool_take (slot_id a) ps = Some ps'"
    and "\<And>g. T i \<noteq> Holding g"
  shows "owned_by ps' (T(i := Holding a))"
proof -
  let ?k = "unat (slot_id a)"
  from take have k: "?k < length ps" "ps ! ?k = Free" and ps': "ps' = ps[?k := Owned]"
    by (simp_all add: pool_take_def pool_set_def split: if_splits)
  from own k have free: "slot_id b \<noteq> slot_id a" if "T j = Holding b" for j b
    using that unfolding owned_by_def by force
  show ?thesis
    unfolding owned_by_def
  proof (intro conjI allI impI)
    fix j b assume "(T(i := Holding a)) j = Holding b"
    with own k ps' show "unat (slot_id b) < length ps'" and "ps' ! unat (slot_id b) = Owned"
      unfolding owned_by_def by (auto simp: nth_list_update split: if_splits)
  next
    fix j l b c
    assume "(T(i := Holding a)) j = Holding b \<and> (T(i := Holding a)) l = Holding c \<and>
      slot_id b = slot_id c"
    with own free show "j = l" unfolding owned_by_def by (metis fun_upd_apply task.inject(3))
  next
    fix m assume "m < length ps'" and "ps' ! m = Owned"
    with own ps' assms(3) show "\<exists>j b. (T(i := Holding a)) j = Holding b \<and> unat (slot_id b) = m"
      unfolding owned_by_def by (cases "m = ?k") (auto, metis)
  qed
qed

lemma owned_by_free:
  assumes own: "owned_by ps T" and "T i = Holding a"
  shows "owned_by (pool_set (slot_id a) Free ps) (T(i := Gone))"
proof -
  have others: "unat (slot_id b) \<noteq> unat (slot_id a)" if "T j = Holding b" "j \<noteq> i" for j b
    using own assms(2) that unfolding owned_by_def by (metis word_unat_eq_iff)
  show ?thesis
    unfolding owned_by_def pool_set_def
  proof (intro conjI allI impI)
    fix j b assume "(T(i := Gone)) j = Holding b"
    then have j: "T j = Holding b" "j \<noteq> i" by (auto split: if_splits)
    with own others [OF j] show "unat (slot_id b) < length (ps[unat (slot_id a) := Free])"
      and "ps[unat (slot_id a) := Free] ! unat (slot_id b) = Owned"
      unfolding owned_by_def by (auto simp: nth_list_update)
  next
    fix j l b c
    assume "(T(i := Gone)) j = Holding b \<and> (T(i := Gone)) l = Holding c \<and> slot_id b = slot_id c"
    with own show "j = l" unfolding owned_by_def by (auto split: if_splits)
  next
    fix m assume "m < length (ps[unat (slot_id a) := Free])"
      and "ps[unat (slot_id a) := Free] ! m = Owned"
    moreover have "unat (slot_id a) < length ps"
      using own assms(2) unfolding owned_by_def by blast
    ultimately have "m < length ps" "ps ! m = Owned" "m \<noteq> unat (slot_id a)"
      by (auto simp: nth_list_update split: if_splits)
    with own obtain j b where "T j = Holding b" "unat (slot_id b) = m"
      unfolding owned_by_def by blast
    with \<open>m \<noteq> _\<close> assms(2) show "\<exists>j b. (T(i := Gone)) j = Holding b \<and> unat (slot_id b) = m"
      by (metis fun_upd_apply task.inject(3))
  qed
qed

lemma owned_by_idle:
  assumes "owned_by ps T"
  shows "owned_by (pool_idle k ps) T"
  using assms unfolding owned_by_def pool_idle_def pool_set_def
  by (auto simp: nth_list_update split: if_splits)

definition owns_ok :: "u32 \<Rightarrow> sched_world \<Rightarrow> bool" where
  "owns_ok n w \<longleftrightarrow>
     length (slots (shared w)) = unat n \<and> owned_by (pool (shared w)) (tasks w)"

lemma operate_pool:
  "pool (fst (sched_operate t op live st)) =
     (case op of
        Release k \<Rightarrow> pool_set k Free (pool st)
      | Reconcile k \<Rightarrow> pool_idle k (pool st)
      | _ \<Rightarrow> pool st)"
  by (cases op)
    (simp_all add: pool_release pool_reconcile pool_mark pool_clear)

lemma operate_length [frame_simps]:
  "length (slots (fst (sched_operate t op live st))) = length (slots st)"
  by (cases rule: operate_cases [of t op live st]) (auto simp: frame_simps)

text \<open>The two outcomes of a poll, over the scheduler.\<close>

lemma try_once_cases:
  obtains (claimed) a st' where "try_admit_locked hint (shared w) = Some (a, st')"
      and "try_once sched_admit x i hint dl w = set_task i (Holding a) (w\<lparr>shared := st'\<rparr>)"
  | (queued) "try_admit_locked hint (shared w) = None"
      and "try_once sched_admit x i hint dl w = set_task i (Waiting hint dl (fresh w))
        (w\<lparr>shared := enqueue_waiter hint (fresh w) (shared w), fresh := Suc (fresh w)\<rparr>)"
  by (cases "try_admit_locked hint (shared w)") (auto simp: try_once_def that)

lemma owns_ok_step:
  assumes ok: "owns_ok n w" and ev: "broker_event w e"
    and step: "exec_event sched_admit e w = Some w'"
  shows "owns_ok n w'"
  using step
proof (cases rule: exec_event_cases)
  case (aside i t)
  from ok have "owned_by (pool (shared w)) (tasks (settled i w))"
    unfolding owns_ok_def by (auto intro: owned_by_cong)
  then have "owned_by (pool (shared w)) ((tasks (settled i w))(i := t))"
    by (rule owned_by_other) (use aside in auto)
  with ok aside(1) show ?thesis by (simp add: owns_ok_def)
next
  case (tried i x hint dl)
  let ?w = "settled i w"
  from ok have own: "owned_by (pool (shared w)) (tasks ?w)"
    unfolding owns_ok_def by (auto intro: owned_by_cong)
  from ok have sized: "well_sized (shared w)"
    using unsigned_less [of n] by (simp add: owns_ok_def well_sized_def)
  from tried have idle: "\<And>g. tasks ?w i \<noteq> Holding g" by simp
  show ?thesis
  proof (cases rule: try_once_cases [of hint ?w x i dl])
    case (claimed a st')
    then have "pool_take (slot_id a) (pool (shared w)) = Some (pool st')"
      by (simp add: pool_admit [OF sized])
    from owned_by_take [OF own this idle] claimed ok tried(1) show ?thesis
      by (auto simp: owns_ok_def frame_simps dest: try_admit_claims)
  next
    case queued
    have "owned_by (pool (shared w)) ((tasks ?w)(i := Waiting hint dl (fresh w)))"
      using own idle by (rule owned_by_other) simp
    with queued ok tried(1) show ?thesis by (simp add: owns_ok_def pool_enqueue frame_simps)
  qed
next
  case (finished i a)
  from ok have "owned_by (pool (shared w)) (tasks w)" by (simp add: owns_ok_def)
  from owned_by_free [OF this finished(1)] ok finished show ?thesis
    by (simp add: owns_ok_def operate_pool frame_simps del: sched_operate.simps)
next
  case (other f)
  from ok have own: "owned_by (pool (shared w)) (tasks w)" by (simp add: owns_ok_def)
  from other ev have "\<And>k. f \<noteq> Release k" by auto
  with own owned_by_idle [OF own] ok other show ?thesis
    by (cases f) (auto simp: owns_ok_def operate_pool frame_simps simp del: sched_operate.simps)
next
  case (tick d)
  with ok show ?thesis by (simp add: owns_ok_def)
qed

lemma seeded_length: "length (slots (seeded_scheduler n ks)) = unat n"
proof -
  have "length (slots (fold seed_busy ks st)) = length (slots st)" for st
    by (induction ks arbitrary: st) (simp_all add: seed_busy_def frame_simps)
  then show ?thesis by (simp add: seeded_scheduler_def new_scheduler_def)
qed

lemma seeded_not_owned: "Owned \<notin> set (pool (seeded_scheduler n ks))"
proof -
  have "Owned \<notin> set (pool (fold seed_busy ks st))" if "Owned \<notin> set (pool st)" for st
    using that
  proof (induction ks arbitrary: st)
    case (Cons k ks)
    have "Owned \<notin> set (pool (seed_busy k st))"
      using Cons.prems
      by (auto simp: seed_busy_def pool_update_slot pool_set_def status_of_def
          dest: set_update_subset_insert [THEN subsetD])
    then show ?case using Cons.IH by simp
  qed simp
  moreover have "Owned \<notin> set (pool (new_scheduler n))"
    by (auto simp: pool_def new_scheduler_def default_slot_def status_of_def)
  ultimately show ?thesis by (simp add: seeded_scheduler_def)
qed

lemma seeded_queues:
  "slot_waiters (seeded_scheduler n ks) = Map.empty" "global_waiters (seeded_scheduler n ks) = []"
proof -
  have "slot_waiters (fold seed_busy ks st) = slot_waiters st \<and>
      global_waiters (fold seed_busy ks st) = global_waiters st" for st
    by (induction ks arbitrary: st) (simp_all add: seed_busy_def frame_simps)
  then show "slot_waiters (seeded_scheduler n ks) = Map.empty"
    and "global_waiters (seeded_scheduler n ks) = []"
    by (simp_all add: seeded_scheduler_def new_scheduler_def)
qed

lemma seeded_queued: "sched_queued (seeded_scheduler n ks) = {}"
  by (simp add: sched_queued_def specific_queue_def seeded_queues)

lemma owns_ok_start: "owns_ok n (broker_start n ks)"
proof -
  let ?ps = "pool (seeded_scheduler n ks)"
  have "?ps ! k \<noteq> Owned" if "k < length ?ps" for k
    using nth_mem [OF that] seeded_not_owned [of n ks] by metis
  then show ?thesis
    by (simp add: owns_ok_def owned_by_def broker_start_def start_world_def seeded_length)
qed

definition sched_reach :: "u32 \<Rightarrow> u32 list \<Rightarrow> sched_world \<Rightarrow> bool" where
  "sched_reach n ks w \<longleftrightarrow> reach sched_admit broker_event (broker_start n ks) w"

lemma sched_reach_owns: "sched_reach n ks w \<Longrightarrow> owns_ok n w"
  unfolding sched_reach_def
  by (erule reach_invariant [where P = "owns_ok n"]) (rule owns_ok_start, rule owns_ok_step)

lemma sched_reach_world: "sched_reach n ks w \<Longrightarrow> world_ok sched_queued w"
  unfolding sched_reach_def broker_start_def by (erule sched.reach_ok) (rule seeded_queued)

section \<open>Queues\<close>

text \<open>
  Senders queue only at slots that exist and are busy, so no sender sits in a queue that
  nothing will ever drain.
\<close>

definition queues_busy :: "inner \<Rightarrow> bool" where
  "queues_busy st \<longleftrightarrow>
     (\<forall>k. specific_queue k st \<noteq> [] \<longrightarrow> unat k < length (slots st) \<and> busy (slots st ! unat k))"

lemma queues_busy_update:
  assumes "queues_busy st" and "\<And>s. busy (f s) = busy s"
  shows "queues_busy (update_slot k f st)"
  using assms by (auto simp: queues_busy_def frame_simps nth_update_slot)

lemma queues_busy_claim:
  assumes "queues_busy st" and "i < length (slots st)"
  shows "queues_busy (claim_slot i st)"
  using assms by (auto simp: queues_busy_def frame_simps nth_claim_slot)

lemma queues_busy_wake:
  assumes "queues_busy st"
  shows "queues_busy (fst (wake_waiters_for live k (update_slot k (\<lambda>s. s\<lparr>busy := False\<rparr>) st)))"
  using assms
  by (auto simp: queues_busy_def wake_specific frame_simps nth_update_slot word_unat_eq_iff)

lemma queues_busy_operate:
  "queues_busy st \<Longrightarrow> queues_busy (fst (sched_operate t op live st))"
  by (cases op)
    (simp_all add: release_def reconcile_seeded_idle_def mark_resident_def clear_resident_def
      queues_busy_wake queues_busy_update)

lemma queues_busy_enqueue:
  assumes "queues_busy st" and "try_admit_locked hint st = None" and "well_sized st"
  shows "queues_busy (enqueue_waiter hint c st)"
proof -
  from assms(2,3) have "pick_slot hint st = None" by (simp add: try_admit_eq)
  then have "busy (slots st ! unat k)" if "usable_preference hint st = Some k" for k
    using that by (simp add: pick_slot_None)
  with assms(1) show ?thesis
    by (auto simp: queues_busy_def specific_enqueue frame_simps dest: usable_preference_lt
        split: if_splits)
qed

text \<open>
  Every queued sender whose receiver is alive belongs to a suspended request with the
  matching preference.
\<close>

definition queues_owned :: "sched_world \<Rightarrow> bool" where
  "queues_owned w \<longleftrightarrow>
     (\<forall>k c. c \<in> set (specific_queue k (shared w)) \<and> c \<notin> closed w \<longrightarrow>
        (\<exists>i hint d. tasks w i = Waiting hint d c \<and>
           usable_preference hint (shared w) = Some k)) \<and>
     (\<forall>c. c \<in> set (global_waiters (shared w)) \<and> c \<notin> closed w \<longrightarrow>
        (\<exists>i hint d. tasks w i = Waiting hint d c \<and>
           usable_preference hint (shared w) = None))"

lemma closed_settled_own: "tasks w i = Waiting q d c \<Longrightarrow> c \<in> closed (settled i w)"
  by (simp add: settled_def set_task_def close_rx_def)

lemma settled_waiting:
  assumes "tasks w j = Waiting q d c" and "c \<notin> closed (settled i w)"
  shows "tasks (settled i w) j = Waiting q d c \<and> j \<noteq> i"
  using assms closed_settled_own [of w i] tasks_settled [of j i w] by (cases "j = i") auto

text \<open>A world whose queues hold no more senders and in which only deaf tasks moved.\<close>

lemma queues_owned_mono:
  assumes "queues_owned w"
    and "length (slots (shared w')) = length (slots (shared w))"
    and "\<And>k. set (specific_queue k (shared w')) \<subseteq> set (specific_queue k (shared w))"
    and "set (global_waiters (shared w')) \<subseteq> set (global_waiters (shared w))"
    and "closed w \<subseteq> closed w'"
    and "\<And>i q d c. tasks w i = Waiting q d c \<Longrightarrow> c \<notin> closed w' \<Longrightarrow> tasks w' i = Waiting q d c"
  shows "queues_owned w'"
  using assms usable_preference_cong [OF assms(2)] unfolding queues_owned_def
  by (metis (no_types, lifting) subsetD)

lemma operate_queues:
  "set (specific_queue k (fst (sched_operate t op live st))) \<subseteq> set (specific_queue k st)"
  "set (global_waiters (fst (sched_operate t op live st))) \<subseteq> set (global_waiters st)"
  by (cases rule: operate_cases [of t op live st];
      auto simp: frame_simps wake_specific wake_global split: if_splits)+

lemma queues_owned_perform: "queues_owned w \<Longrightarrow> queues_owned (perform sched_admit f w)"
  by (erule queues_owned_mono) (auto simp: frame_simps operate_queues [THEN subsetD])

lemma queues_owned_settled: "queues_owned w \<Longrightarrow> queues_owned (settled i w)"
  by (erule queues_owned_mono) (auto simp: closed_settled [THEN subsetD] settled_waiting)

lemma queues_owned_set_task:
  assumes "queues_owned w" and "\<And>q d c. tasks w i \<noteq> Waiting q d c"
  shows "queues_owned (set_task i t w)"
  using assms(1) by (rule queues_owned_mono) (use assms(2) in auto)

lemma queues_owned_enqueue:
  assumes "queues_owned w" and "\<And>q d c. tasks w i \<noteq> Waiting q d c"
  shows "queues_owned (set_task i (Waiting hint dl (fresh w))
    (w\<lparr>shared := enqueue_waiter hint (fresh w) (shared w), fresh := Suc (fresh w)\<rparr>))"
    (is "queues_owned ?w'")
proof -
  have pref: "usable_preference h (shared ?w') = usable_preference h (shared w)" for h
    by (rule usable_preference_cong) (simp add: frame_simps)
  have keep: "tasks ?w' j = Waiting h d c" if "tasks w j = Waiting h d c" for j h d c
    using that assms(2) by auto
  have own: "tasks ?w' i = Waiting hint dl (fresh w)" by simp
  show ?thesis
    unfolding queues_owned_def pref
  proof (intro conjI allI impI)
    fix k c assume "c \<in> set (specific_queue k (shared ?w')) \<and> c \<notin> closed ?w'"
    then have "c = fresh w \<and> usable_preference hint (shared w) = Some k \<or>
        c \<in> set (specific_queue k (shared w)) \<and> c \<notin> closed w"
      by (auto simp: specific_enqueue split: if_splits)
    then show "\<exists>j h d. tasks ?w' j = Waiting h d c \<and> usable_preference h (shared w) = Some k"
      using own keep assms(1) unfolding queues_owned_def by blast
  next
    fix c assume "c \<in> set (global_waiters (shared ?w')) \<and> c \<notin> closed ?w'"
    then have "c = fresh w \<and> usable_preference hint (shared w) = None \<or>
        c \<in> set (global_waiters (shared w)) \<and> c \<notin> closed w"
      by (auto simp: global_enqueue split: if_splits)
    then show "\<exists>j h d. tasks ?w' j = Waiting h d c \<and> usable_preference h (shared w) = None"
      using own keep assms(1) unfolding queues_owned_def by blast
  qed
qed

lemma queues_owned_claimed:
  assumes "queues_owned w" and "\<And>q d c. tasks w i \<noteq> Waiting q d c"
  shows "queues_owned (set_task i (Holding a) (w\<lparr>shared := claim_slot k (shared w)\<rparr>))"
  using assms(1) by (rule queues_owned_mono) (use assms(2) in \<open>auto simp: frame_simps\<close>)

definition queues_ok :: "sched_world \<Rightarrow> bool" where
  "queues_ok w \<longleftrightarrow> well_sized (shared w) \<and> queues_busy (shared w) \<and> queues_owned w"

lemma queues_ok_step:
  assumes ok: "queues_ok w" and step: "exec_event sched_admit e w = Some w'"
  shows "queues_ok w'"
  using step
proof (cases rule: exec_event_cases)
  case (aside i t)
  with ok queues_owned_set_task [OF queues_owned_settled tasks_settled_own] show ?thesis
    by (simp add: queues_ok_def)
next
  case (tried i x hint dl)
  let ?w = "settled i w"
  from ok have own: "queues_owned ?w" and sized: "well_sized (shared w)"
    and busy: "queues_busy (shared w)"
    by (simp_all add: queues_ok_def queues_owned_settled)
  show ?thesis
  proof (cases rule: try_once_cases [of hint ?w x i dl])
    case (claimed a st')
    then obtain k where k: "st' = claim_slot k (shared w)" "k < length (slots (shared w))"
      using sized by (auto elim: try_admit_SomeE)
    with claimed tried(1) queues_owned_claimed [OF own tasks_settled_own] sized busy
    show ?thesis by (simp add: queues_ok_def queues_busy_claim)
  next
    case queued
    then have "queues_busy (enqueue_waiter hint (fresh w) (shared w))"
      using busy sized by (simp add: queues_busy_enqueue)
    with queued tried(1) queues_owned_enqueue [OF own tasks_settled_own] sized show ?thesis
      by (simp add: queues_ok_def well_sized_def frame_simps)
  qed
next
  case (finished i a)
  from ok have "queues_owned (perform sched_admit (Release (slot_id a)) w)"
    by (simp add: queues_ok_def queues_owned_perform)
  then have "queues_owned (set_task i Gone (perform sched_admit (Release (slot_id a)) w))"
    by (rule queues_owned_set_task) (simp add: finished)
  with ok finished show ?thesis
    by (simp add: queues_ok_def queues_busy_operate well_sized_def frame_simps
        del: sched_operate.simps)
next
  case (other f)
  with ok show ?thesis
    by (simp add: queues_ok_def queues_busy_operate queues_owned_perform well_sized_def frame_simps
        del: sched_operate.simps)
next
  case (tick d)
  with ok show ?thesis by (simp add: queues_ok_def queues_owned_def)
qed

lemma queues_ok_start: "queues_ok (broker_start n ks)"
  using unsigned_less [of n]
  by (simp add: queues_ok_def queues_busy_def queues_owned_def broker_start_def start_world_def
      seeded_queues specific_queue_def well_sized_def seeded_length)

lemma sched_reach_queues: "sched_reach n ks w \<Longrightarrow> queues_ok w"
  unfolding sched_reach_def
  by (erule reach_invariant [where P = queues_ok]) (rule queues_ok_start, rule queues_ok_step)

end
