(* ===== verification/Sched_Safety.thy ===== *)
theory Sched_Safety
  imports Sched_System
begin

text \<open>
  What holds in every reachable state of the running scheduler, whatever the interleaving:
  a slot has at most one holder and is never leaked or freed under its holder, and a
  suspended request sits in the one queue that will be drained for it.
\<close>

section \<open>Holders\<close>

text \<open>
  C10: Mutual exclusion and no leaks. In every reachable state a slot is owned exactly when
  some request holds it, and no two requests hold the same slot. So a request that times
  out, or is dropped while it waits or just after it was woken, never leaves a slot busy with
  no owner.
\<close>

theorem slots_exclusively_held:
  assumes "sched_reach n ks w"
  shows "length (pool (shared w)) = unat n \<and>
    (\<forall>k<unat n. pool (shared w) ! k = Owned \<longleftrightarrow>
       (\<exists>i a. tasks w i = Holding a \<and> unat (slot_id a) = k)) \<and>
    (\<forall>i j a b. tasks w i = Holding a \<and> tasks w j = Holding b \<and> slot_id a = slot_id b \<longrightarrow> i = j)"
  using sched_reach_owns [OF assms] unfolding owns_ok_def owned_by_def by auto

text \<open>A run used as a witness: two requests admitted, one of them finished, a third queued.\<close>

definition demo_run :: "sched_event list" where
  "demo_run =
     [Spawn 0 None 10, Poll 0 (), Spawn 1 None 10, Poll 1 (),
      Spawn 2 (Some (demo_hint ''p'' (Some 1) None)) 10, Poll 2 (), Finish 0]"

lemma sched_reach_run:
  assumes "run_events sched_admit es (broker_start n ks) = Some w"
    and "allowed_run sched_admit broker_event es (broker_start n ks)"
  shows "sched_reach n ks w"
  unfolding sched_reach_def by (rule reach_run [OF assms reach_start])

lemma broker_event_no_operate:
  assumes "\<forall>f. Operate f \<notin> set es"
  shows "allowed_run sched_admit broker_event es w"
  using assms
proof (induction es arbitrary: w)
  case (Cons e es v)
  then have "broker_event v e" by (cases "(v, e)" rule: broker_event.cases) auto
  moreover have "allowed_run sched_admit broker_event es w'" for w'
    using Cons by simp
  ultimately show ?case by (simp split: option.splits)
qed simp

lemma demo_reach: "\<exists>w. sched_reach 2 [] w \<and> tasks w 1 = Holding \<lparr>slot_id = 1, cache_ready = False\<rparr> \<and>
    (\<exists>d. tasks w 2 = Waiting (Some (demo_hint ''p'' (Some 1) None)) d 0) \<and> 0 \<notin> signalled w"
proof -
  have "\<exists>w. run_events sched_admit demo_run (broker_start 2 []) = Some w \<and>
    tasks w 1 = Holding \<lparr>slot_id = 1, cache_ready = False\<rparr> \<and>
    (\<exists>d. tasks w 2 = Waiting (Some (demo_hint ''p'' (Some 1) None)) d 0) \<and> 0 \<notin> signalled w"
    by (simp add: demo_run_def eval_simps)
  moreover have "allowed_run sched_admit broker_event demo_run (broker_start 2 [])"
    by (rule broker_event_no_operate) (simp add: demo_run_def)
  ultimately show ?thesis by (meson sched_reach_run)
qed

lemma slots_exclusively_held_witness:
  "\<exists>w. sched_reach 2 [] w \<and> pool (shared w) ! 1 = Owned"
proof -
  obtain w where w: "sched_reach 2 [] w"
    and h: "tasks w 1 = Holding \<lparr>slot_id = 1, cache_ready = False\<rparr>"
    using demo_reach by blast
  have n: "(1::nat) < unat (2::u32)" by simp
  from slots_exclusively_held [OF w] n
  have "(\<exists>i a. tasks w i = Holding a \<and> unat (slot_id a) = 1) \<longrightarrow> pool (shared w) ! 1 = Owned"
    by blast
  moreover have "unat (slot_id \<lparr>slot_id = 1, cache_ready = False\<rparr>) = 1" by simp
  ultimately show ?thesis using w h by blast
qed

text \<open>
  The background reconciliation can never free a slot a request holds: whatever slot
  llama-server reports idle, every held slot is still busy afterwards.
\<close>

lemma reconcile_spares_holders:
  assumes "sched_reach n ks w" and "tasks w i = Holding a"
  shows "busy (slots (fst (reconcile_seeded_idle live k (shared w))) ! unat (slot_id a))"
proof -
  let ?st = "fst (reconcile_seeded_idle live k (shared w))"
  from sched_reach_owns [OF assms(1)] assms(2)
  have own: "owned_by (pool (shared w)) (tasks w)" by (simp add: owns_ok_def)
  from owned_by_idle [OF own, of k] assms(2)
  have "unat (slot_id a) < length (pool ?st) \<and> pool ?st ! unat (slot_id a) = Owned"
    unfolding pool_reconcile owned_by_def by blast
  then show ?thesis by (auto simp: nth_pool status_of_def split: if_splits)
qed

lemma reconcile_spares_holders_witness:
  "\<exists>w. sched_reach 2 [] w \<and> busy (slots (fst (reconcile_seeded_idle (\<lambda>_. True) 1 (shared w))) ! 1)"
proof -
  obtain w where w: "sched_reach 2 [] w"
    and h: "tasks w 1 = Holding \<lparr>slot_id = 1, cache_ready = False\<rparr>"
    using demo_reach by blast
  from reconcile_spares_holders [OF w h, of "\<lambda>_. True" 1] w show ?thesis by auto
qed

section \<open>Waiters\<close>

lemma waiter_in_queue:
  assumes "sched_reach n ks w" and "tasks w i = Waiting hint d c" and "c \<notin> signalled w"
  shows "case usable_preference hint (shared w) of
      Some k \<Rightarrow> c \<in> set (specific_queue k (shared w))
    | None \<Rightarrow> c \<in> set (global_waiters (shared w))"
proof -
  note ok = sched_reach_world [OF assms(1)]
  note alive = world_ok_waiting [OF ok assms(2)]
  have own: "queues_owned w" using sched_reach_queues [OF assms(1)] by (simp add: queues_ok_def)
  have mine: "usable_preference h (shared w) = usable_preference hint (shared w)"
    if "tasks w j = Waiting h d' c" for j h d'
  proof -
    from world_ok_distinct [OF ok that assms(2)] that assms(2) show ?thesis by simp
  qed
  from alive(3) assms(3) consider (global) "c \<in> set (global_waiters (shared w))"
    | (specific) k where "c \<in> set (specific_queue k (shared w))"
    by (auto simp: sched_queued_def)
  then show ?thesis
  proof cases
    case global
    with own alive(2) obtain j h d' where "tasks w j = Waiting h d' c"
      and "usable_preference h (shared w) = None"
      unfolding queues_owned_def by blast
    with mine global show ?thesis by auto
  next
    case specific
    with own alive(2) obtain j h d' where "tasks w j = Waiting h d' c"
      and "usable_preference h (shared w) = Some k"
      unfolding queues_owned_def by blast
    with mine specific show ?thesis by fastforce
  qed
qed

lemma waiters_queued:
  assumes "sched_reach n ks w" and "tasks w i = Waiting hint d c" and "c \<notin> signalled w"
  shows "case usable_preference hint (shared w) of
      Some k \<Rightarrow> c \<in> set (specific_queue k (shared w)) \<and> busy (slots (shared w) ! unat k)
    | None \<Rightarrow> c \<in> set (global_waiters (shared w))"
  using waiter_in_queue [OF assms] sched_reach_queues [OF assms(1)]
  by (auto simp: queues_ok_def queues_busy_def split: option.splits) (metis list.set_cases list.simps(3))

text \<open>
  C28: A suspended request that has not been woken is queued where a wake-up will find it. If
  its preferred slot exists it is in that slot's queue and the slot is busy, so nobody can
  be admitted to that slot before the queue is drained; otherwise, an out-of-range preference
  included, it is in the general queue.
\<close>

theorem waiters_queue_where_drained:
  assumes "sched_reach n ks w" and "tasks w i = Waiting hint d c" and "c \<notin> signalled w"
  shows "case usable_preference hint (shared w) of
      Some k \<Rightarrow> c \<in> set (specific_queue k (shared w)) \<and> busy (slots (shared w) ! unat k)
    | None \<Rightarrow> c \<in> set (global_waiters (shared w))"
  using assms by (rule waiters_queued)

lemma waiters_queue_where_drained_witness:
  "\<exists>w. sched_reach 2 [] w \<and> 0 \<in> set (specific_queue 1 (shared w))"
proof -
  obtain w d where w: "sched_reach 2 [] w"
    and h: "tasks w 2 = Waiting (Some (demo_hint ''p'' (Some 1) None)) d 0" and s: "0 \<notin> signalled w"
    using demo_reach by blast
  have "length (slots (shared w)) = 2" using sched_reach_owns [OF w] by (simp add: owns_ok_def)
  then have "usable_preference (Some (demo_hint ''p'' (Some 1) None)) (shared w) = Some 1"
    by (simp add: eval_simps)
  with waiters_queue_where_drained [OF w h s] w show ?thesis by auto
qed

end
