(* ===== verification/Sched_Liveness.thy ===== *)
theory Sched_Liveness
  imports Sched_Safety
begin

text \<open>
  Who gets a free slot. As long as no request walks away after having been woken, an idle
  slot is always on its way to somebody who can use it; without that proviso it may not be,
  and a general waiter may overtake a specific one, as two concrete runs show.
\<close>

section \<open>Work conservation\<close>

text \<open>\<open>woken w i k\<close>: request \<open>i\<close> has been woken and its next poll will try slot \<open>k\<close>.\<close>

definition woken :: "sched_world \<Rightarrow> nat \<Rightarrow> nat \<Rightarrow> bool" where
  "woken w i k \<longleftrightarrow> (\<exists>hint d c p. tasks w i = Waiting hint d c \<and> c \<in> signalled w \<and>
     usable_preference hint (shared w) = Some p \<and> unat p = k)"

definition conserving :: "sched_world \<Rightarrow> bool" where
  "conserving w \<longleftrightarrow>
     (\<forall>k<length (slots (shared w)). \<not> busy (slots (shared w) ! k) \<longrightarrow>
        set (global_waiters (shared w)) \<subseteq> closed w \<or> (\<exists>i. woken w i k))"

text \<open>No request times out or is dropped between being woken and being polled.\<close>

fun patient :: "sched_world \<Rightarrow> sched_event \<Rightarrow> bool" where
  "patient w (Expire i) =
     (case tasks w i of Waiting hint d c \<Rightarrow> c \<notin> signalled w | _ \<Rightarrow> True)"
| "patient w (Abandon i) =
     (case tasks w i of Waiting hint d c \<Rightarrow> c \<notin> signalled w | _ \<Rightarrow> True)"
| "patient w e = broker_event w e"

lemma patient_broker: "patient w e \<Longrightarrow> broker_event w e"
  by (cases "(w, e)" rule: patient.cases) auto

lemma woken_mono:
  assumes "woken w i k" and "length (slots (shared w')) = length (slots (shared w))"
    and "signalled w \<subseteq> signalled w'" and "tasks w' i = tasks w i"
  shows "woken w' i k"
  using assms usable_preference_cong [OF assms(2)] unfolding woken_def by (metis subsetD)

text \<open>A world with no slot newly freed, no waiter newly queued and the woken ones intact.\<close>

lemma conserving_mono:
  assumes "conserving w" and "length (slots (shared w')) = length (slots (shared w))"
    and "\<And>k. \<not> busy (slots (shared w') ! k) \<Longrightarrow> k < length (slots (shared w)) \<Longrightarrow>
      \<not> busy (slots (shared w) ! k)"
    and "set (global_waiters (shared w')) \<subseteq> set (global_waiters (shared w))"
    and "closed w \<subseteq> closed w'" and "signalled w \<subseteq> signalled w'"
    and "\<And>i k. woken w i k \<Longrightarrow> \<not> busy (slots (shared w') ! k) \<Longrightarrow> tasks w' i = tasks w i"
  shows "conserving w'"
  unfolding conserving_def
proof (intro allI impI)
  fix k
  assume k: "k < length (slots (shared w'))" and free: "\<not> busy (slots (shared w') ! k)"
  with assms(1-3) have "set (global_waiters (shared w)) \<subseteq> closed w \<or> (\<exists>i. woken w i k)"
    by (auto simp: conserving_def)
  then show "set (global_waiters (shared w')) \<subseteq> closed w' \<or> (\<exists>i. woken w' i k)"
    using assms(4,5) woken_mono [OF _ assms(2,6) assms(7)] free by blast
qed

text \<open>Freeing a slot: its own live waiters are woken, or the general queue is emptied.\<close>

lemma conserving_wake:
  assumes "conserving w" and "queues_owned w"
    and wake: "sched_operate (now w) f (\<lambda>c. c \<notin> closed w) (shared w) =
      wake_waiters_for (\<lambda>c. c \<notin> closed w) p
        (update_slot p (\<lambda>s. s\<lparr>busy := False\<rparr>) (shared w))"
  shows "conserving (perform sched_admit f w)" (is "conserving ?w'")
  unfolding conserving_def
proof (intro allI impI)
  fix k
  assume k: "k < length (slots (shared ?w'))" and free: "\<not> busy (slots (shared ?w') ! k)"
  have len: "length (slots (shared ?w')) = length (slots (shared w))" by (simp add: frame_simps)
  show "set (global_waiters (shared ?w')) \<subseteq> closed ?w' \<or> (\<exists>i. woken ?w' i k)"
  proof (cases "\<exists>c\<in>set (specific_queue p (shared w)). c \<notin> closed w")
    case False
    then have "global_waiters (shared ?w') = []"
      by (simp add: wake wake_global)
    then show ?thesis by simp
  next
    case True
    show ?thesis
    proof (cases "k = unat p")
      case True: True
      from \<open>\<exists>c\<in>set (specific_queue p (shared w)). c \<notin> closed w\<close> assms(2)
      obtain c i hint d where c: "c \<in> set (specific_queue p (shared w))" "c \<notin> closed w"
        "tasks w i = Waiting hint d c" "usable_preference hint (shared w) = Some p"
        unfolding queues_owned_def by blast
      then have "c \<in> signalled ?w'" by (auto simp: wake wake_sent)
      with c True usable_preference_cong [OF len] have "woken ?w' i k"
        unfolding woken_def by auto
      then show ?thesis by blast
    next
      case False
      with free k len have "\<not> busy (slots (shared w) ! k)" and "k < length (slots (shared w))"
        by (simp_all add: wake frame_simps nth_update_slot)
      with assms(1) have "set (global_waiters (shared w)) \<subseteq> closed w \<or> (\<exists>i. woken w i k)"
        by (auto simp: conserving_def)
      moreover have "woken ?w' i k" if "woken w i k" for i
        using that len by (rule woken_mono) auto
      moreover have "set (global_waiters (shared ?w')) \<subseteq> set (global_waiters (shared w))"
        using operate_queues(2) by simp
      ultimately show ?thesis by auto
    qed
  qed
qed

lemma conserving_perform:
  assumes "conserving w" and "queues_owned w"
  shows "conserving (perform sched_admit f w)"
proof (cases rule: operate_cases [of "now w" f "\<lambda>c. c \<notin> closed w" "shared w"])
  case (waking k)
  with assms show ?thesis by (rule conserving_wake)
next
  case (quiet k g)
  with assms(1) show ?thesis
    by (elim conserving_mono)
      (auto simp: frame_simps nth_update_slot split: if_splits)
qed

lemma conserving_start: "conserving (broker_start n ks)"
  by (simp add: conserving_def broker_start_def start_world_def seeded_queues)

text \<open>Setting aside a request that no free slot is waiting for.\<close>

lemma conserving_settled:
  assumes "conserving w" and "\<And>k. woken w i k \<Longrightarrow> busy (slots (shared w) ! k)"
  shows "conserving (settled i w)"
  using assms(1)
proof (rule conserving_mono)
  fix j k
  assume "woken w j k" and "\<not> busy (slots (shared (settled i w)) ! k)"
  with assms(2) have "j \<noteq> i" by auto
  then show "tasks (settled i w) j = tasks w j" by (rule tasks_settled)
qed (auto simp: closed_settled [THEN subsetD])

lemma conserving_set_task:
  assumes "conserving w" and "\<And>q d c. tasks w i \<noteq> Waiting q d c"
  shows "conserving (set_task i t w)"
  using assms(1)
proof (rule conserving_mono)
  fix j k
  assume "woken w j k"
  with assms(2) have "j \<noteq> i" by (auto simp: woken_def)
  then show "tasks (set_task i t w) j = tasks w j" by simp
qed auto

text \<open>
  A poll either takes the slot it was woken for, or finds it busy; if it queues among the
  general waiters, no slot is free.
\<close>

lemma conserving_try:
  assumes ok: "queues_ok w" and cons: "conserving w"
    and polls: "(\<exists>t. tasks w i = Fresh hint t) \<or> (\<exists>c. tasks w i = Waiting hint dl c)"
  shows "conserving (try_once sched_admit x i hint dl (settled i w))"
proof -
  let ?w = "settled i w" and ?st = "shared w"
  from ok have sized: "well_sized ?st" by (simp add: queues_ok_def)
  have own: "usable_preference hint ?st = Some p" if "woken w i k" "unat p = k" for k p
    using that polls by (auto simp: woken_def word_unat_eq_iff)
  show ?thesis
  proof (cases rule: try_once_cases [of hint ?w x i dl])
    case (claimed a st')
    then obtain k where k: "pick_slot hint ?st = Some k" "st' = claim_slot k ?st"
        "k < length (slots ?st)"
      using sized by (auto elim: try_admit_SomeE)
    have taken: "k' = k" if "woken w i k'" for k'
      using that k(1) own [OF that] by (auto simp: woken_def pick_slot_def split: if_splits)
    let ?w' = "set_task i (Holding a) (w\<lparr>shared := st', closed := closed ?w\<rparr>)"
    have "conserving ?w'"
      using cons
    proof (rule conserving_mono)
      fix j k'
      assume "woken w j k'" and "\<not> busy (slots (shared ?w') ! k')"
      then have "j \<noteq> i" using k taken by (auto simp: nth_claim_slot split: if_splits)
      then show "tasks ?w' j = tasks w j" by simp
    qed (use k in \<open>auto simp: frame_simps nth_claim_slot closed_settled [THEN subsetD] split: if_splits\<close>)
    moreover have "set_task i (Holding a) (?w\<lparr>shared := st'\<rparr>) = ?w'"
      by (simp add: settled_def set_task_def close_rx_def split: task.splits)
    ultimately show ?thesis using claimed by simp
  next
    case queued
    then have none: "pick_slot hint ?st = None" using sized by (simp add: try_admit_eq)
    have settled: "conserving ?w"
    proof (rule conserving_settled [OF cons])
      fix k assume "woken w i k"
      then show "busy (slots ?st ! k)"
        using none own by (auto simp: woken_def pick_slot_None)
    qed
    show ?thesis
    proof (cases "usable_preference hint ?st")
      case None
      with none have "busy (slots ?st ! k)" if "k < length (slots ?st)" for k
        using that by (simp add: pick_slot_None all_set_conv_all_nth)
      with queued show ?thesis by (simp add: conserving_def frame_simps)
    next
      case (Some p)
      let ?v = "?w\<lparr>shared := enqueue_waiter hint (fresh ?w) ?st, fresh := Suc (fresh ?w)\<rparr>"
      from settled have "conserving ?v"
        by (rule conserving_mono) (auto simp: frame_simps global_enqueue Some)
      then have "conserving (set_task i (Waiting hint dl (fresh ?w)) ?v)"
        by (rule conserving_set_task) (simp add: tasks_settled_own)
      with queued show ?thesis by simp
    qed
  qed
qed

lemma conserving_step:
  assumes "queues_ok w" and "conserving w" and "patient w e"
    and step: "exec_event sched_admit e w = Some w'"
  shows "conserving w'"
  using step
proof (cases rule: exec_event_cases)
  case (aside i t)
  have "\<not> woken w i k" for k
    using aside(5) assms(3) step by (auto simp: woken_def)
  then have "conserving (settled i w)" using assms(2) by (blast intro: conserving_settled)
  with aside(1) show ?thesis using conserving_set_task [OF _ tasks_settled_own] by blast
next
  case (tried i x hint dl)
  with assms(1,2) show ?thesis by (auto intro: conserving_try)
next
  case (finished i a)
  have "conserving (perform sched_admit (Release (slot_id a)) w)"
    using assms(1,2) by (intro conserving_perform) (simp_all add: queues_ok_def)
  then have "conserving (set_task i Gone (perform sched_admit (Release (slot_id a)) w))"
    by (rule conserving_set_task) (simp add: finished)
  with finished show ?thesis by simp
next
  case (other f)
  with assms(1,2) show ?thesis by (simp add: conserving_perform queues_ok_def)
next
  case (tick d)
  with assms(2) show ?thesis by (simp add: conserving_def woken_def)
qed

definition patient_reach :: "u32 \<Rightarrow> u32 list \<Rightarrow> sched_world \<Rightarrow> bool" where
  "patient_reach n ks w \<longleftrightarrow> reach sched_admit patient (broker_start n ks) w"

lemma patient_reach_sched: "patient_reach n ks w \<Longrightarrow> sched_reach n ks w"
  unfolding patient_reach_def sched_reach_def by (erule reach_mono) (rule patient_broker)

lemma patient_reach_conserving:
  assumes "patient_reach n ks w"
  shows "conserving w"
proof -
  have "queues_ok w \<and> conserving w"
    using assms unfolding patient_reach_def
    by (rule reach_invariant)
      (use queues_ok_start conserving_start queues_ok_step conserving_step in blast)+
  then show ?thesis by simp
qed

lemma idle_slot_woken:
  assumes "patient_reach n ks w" and "k < unat n" and "\<not> busy (slots (shared w) ! k)"
    and "tasks w i = Waiting hint d c"
    and "usable_preference hint (shared w) \<in> {None, Some (of_nat k)}"
  shows "c \<in> signalled w \<or> (\<exists>j. woken w j k)"
proof (rule disjCI)
  assume none: "\<nexists>j. woken w j k"
  note reach = patient_reach_sched [OF assms(1)]
  have len: "length (slots (shared w)) = unat n"
    using sched_reach_owns [OF reach] by (simp add: owns_ok_def)
  show "c \<in> signalled w"
  proof (rule ccontr)
    assume c: "c \<notin> signalled w"
    have k: "unat (of_nat k :: u32) = k"
      using less_trans [OF assms(2) unsigned_less [of n]] by (rule unat_of_nat_small)
    have "c \<in> set (global_waiters (shared w))"
      using waiters_queued [OF reach assms(4) c] assms(3,5) k by (auto split: option.splits)
    moreover have "c \<notin> closed w"
      using world_ok_waiting(2) [OF sched_reach_world [OF reach] assms(4)] .
    ultimately show False
      using patient_reach_conserving [OF assms(1)] none assms(2,3) len
      by (auto simp: conserving_def)
  qed
qed

text \<open>A woken request that finds a slot it can use takes it.\<close>

lemma woken_poll:
  assumes "well_sized (shared w)" and "tasks w j = Waiting hint d c" and "c \<in> signalled w"
    and "pick_slot hint (shared w) = Some k"
  shows "\<exists>w'. exec_event sched_admit (Poll j ()) w = Some w' \<and>
    tasks w' j = Holding \<lparr>slot_id = of_nat k, cache_ready = resident_for hint (slots (shared w) ! k)\<rparr>"
  using assms by (simp add: try_once_def close_rx_def set_task_def try_admit_eq)

text \<open>
  C16: Work conservation. If no request walks away between being woken and being polled, then
  whenever a slot is idle and some suspended request could use it, there is a woken request
  whose next poll is granted a slot: that very request, or one that takes the idle slot. So
  the scheduler is never stuck with an idle slot and a request that wants it.
\<close>

theorem idle_slot_has_taker:
  assumes "patient_reach n ks w" and "k < unat n" and "\<not> busy (slots (shared w) ! k)"
    and "tasks w i = Waiting hint d c"
    and "usable_preference hint (shared w) \<in> {None, Some (of_nat k)}"
  shows "\<exists>j a w'. exec_event sched_admit (Poll j ()) w = Some w' \<and> tasks w' j = Holding a \<and>
    (j = i \<or> unat (slot_id a) = k)"
proof -
  note reach = patient_reach_sched [OF assms(1)]
  have len: "length (slots (shared w)) = unat n"
    using sched_reach_owns [OF reach] by (simp add: owns_ok_def)
  have sized: "well_sized (shared w)" using sched_reach_queues [OF reach] by (simp add: queues_ok_def)
  have k: "unat (of_nat k :: u32) = k"
    using less_trans [OF assms(2) unsigned_less [of n]] by (rule unat_of_nat_small)
  from idle_slot_woken [OF assms] show ?thesis
  proof
    assume c: "c \<in> signalled w"
    have "slots (shared w) ! k \<in> set (slots (shared w))" using assms(2) len by simp
    with assms(3,5) k have "pick_slot hint (shared w) \<noteq> None"
      by (auto simp: pick_slot_None)
    with woken_poll [OF sized assms(4) c] show ?thesis by blast
  next
    assume "\<exists>j. woken w j k"
    then obtain j h d' c' p where j: "tasks w j = Waiting h d' c'" "c' \<in> signalled w"
      "usable_preference h (shared w) = Some p" "unat p = k"
      unfolding woken_def by blast
    with assms(3) have "pick_slot h (shared w) = Some k" by (auto simp: pick_slot_def)
    with woken_poll [OF sized j(1,2)] k show ?thesis by fastforce
  qed
qed

text \<open>Three requests on one slot; the holder finishes, which wakes both of the others.\<close>

definition handover_run :: "sched_event list" where
  "handover_run =
     [Spawn 0 None 10, Poll 0 (), Spawn 1 None 10, Poll 1 (), Spawn 2 None 10, Poll 2 (), Finish 0]"

lemma patient_no_leaving:
  assumes "\<forall>e\<in>set es. case e of Operate f \<Rightarrow> False | Expire i \<Rightarrow> False | Abandon i \<Rightarrow> False | _ \<Rightarrow> True"
  shows "allowed_run sched_admit patient es w"
  using assms
proof (induction es arbitrary: w)
  case (Cons e es v)
  then have "patient v e" by (cases "(v, e)" rule: patient.cases) auto
  moreover have "allowed_run sched_admit patient es w'" for w' using Cons by simp
  ultimately show ?case by (simp split: option.splits)
qed simp

lemma idle_slot_has_taker_witness:
  "\<exists>w j a w'. patient_reach 1 [] w \<and> exec_event sched_admit (Poll j ()) w = Some w' \<and>
     tasks w' j = Holding a"
proof -
  have "\<exists>w d. run_events sched_admit handover_run (broker_start 1 []) = Some w \<and>
      \<not> busy (slots (shared w) ! 0) \<and> tasks w 1 = Waiting None d 0"
    by (simp add: handover_run_def eval_simps)
  then obtain w d where run: "run_events sched_admit handover_run (broker_start 1 []) = Some w"
    and free: "\<not> busy (slots (shared w) ! 0)" and i: "tasks w 1 = Waiting None d 0" by blast
  have "allowed_run sched_admit patient handover_run (broker_start 1 [])"
    by (rule patient_no_leaving) (simp add: handover_run_def)
  from reach_run [OF run this reach_start] have r: "patient_reach 1 [] w"
    by (simp add: patient_reach_def)
  have k: "0 < unat (1 :: u32)" by simp
  have u: "usable_preference None (shared w) \<in> {None, Some (of_nat 0)}"
    by (simp add: usable_preference_def)
  from idle_slot_has_taker [OF r k free i u] r show ?thesis by blast
qed

section \<open>Two runs that the waking rule allows\<close>

text \<open>
  \<open>closing\<close> lets everything happen but the arrival of new requests; a request is
  \<open>stranded\<close> when, as long as nobody new arrives, it is never admitted.
\<close>

fun closing :: "sched_world \<Rightarrow> sched_event \<Rightarrow> bool" where
  "closing w (Spawn i hint timeout) = False"
| "closing w e = broker_event w e"

definition stranded :: "sched_world \<Rightarrow> nat \<Rightarrow> bool" where
  "stranded w i \<longleftrightarrow> (\<forall>w' a. reach sched_admit closing w w' \<longrightarrow> tasks w' i \<noteq> Holding a)"

text \<open>
  Request 0 holds the only slot, request 1 waits for that slot by name and request 2 for any
  slot. When request 0 finishes, only request 1 is woken; it is dropped before it is polled.
\<close>

definition stranding_run :: "sched_event list" where
  "stranding_run =
     [Spawn 0 None 10, Poll 0 (),
      Spawn 1 (Some (demo_hint ''p'' (Some 0) None)) 10, Poll 1 (),
      Spawn 2 None 10, Poll 2 (), Finish 0, Abandon 1]"

text \<open>Nobody but an unwoken request is left, and no slot is one from before the start.\<close>

definition deserted :: "nat \<Rightarrow> sched_world \<Rightarrow> bool" where
  "deserted i w \<longleftrightarrow>
     (\<forall>j. j \<noteq> i \<longrightarrow> tasks w j \<in> {Unborn, TimedOut, Gone}) \<and>
     (tasks w i \<in> {TimedOut, Gone} \<or> (\<exists>q d c. tasks w i = Waiting q d c \<and> c \<notin> signalled w)) \<and>
     (\<forall>s\<in>set (slots (shared w)). \<not> seeded_unowned s)"

lemma deserted_operate:
  assumes "\<forall>s\<in>set (slots st). \<not> seeded_unowned s" and "\<And>k. f \<noteq> Release k"
  shows "snd (sched_operate t f live st) = [] \<and>
    (\<forall>s\<in>set (slots (fst (sched_operate t f live st))). \<not> seeded_unowned s)"
  using assms
  by (cases f)
    (auto simp: reconcile_seeded_idle_def mark_resident_def clear_resident_def update_slot_def
      dest!: set_update_subset_insert [THEN subsetD])

lemma deserted_idle:
  assumes "deserted i w"
  shows "tasks w j \<noteq> Fresh q t" and "tasks w j \<noteq> Holding a"
    and "tasks w j = Waiting q d c \<Longrightarrow> c \<notin> signalled w"
  using assms unfolding deserted_def by (cases "j = i"; fastforce)+

lemma deserted_step:
  assumes "deserted i w" and "closing w e" and step: "exec_event sched_admit e w = Some w'"
  shows "deserted i w'"
  using step
proof (cases rule: exec_event_cases)
  case (aside j t)
  have "t \<in> {TimedOut, Gone}" using aside(5) assms(2) by auto
  with aside(1) assms(1) show ?thesis
    unfolding deserted_def by (cases "j = i") (auto simp: tasks_settled)
next
  case (tried j x q dl)
  with deserted_idle [OF assms(1)] show ?thesis by metis
next
  case (finished j a)
  with deserted_idle [OF assms(1)] show ?thesis by metis
next
  case (other f)
  with assms(2) have "\<And>k. f \<noteq> Release k" by auto
  with assms(1) other deserted_operate [of "shared w" f] show ?thesis
    by (simp add: deserted_def)
next
  case (tick d)
  with assms(1) show ?thesis by (simp add: deserted_def)
qed

lemma deserted_stranded:
  assumes "deserted i w"
  shows "stranded w i"
  unfolding stranded_def
proof (intro allI impI)
  fix w' a
  assume "reach sched_admit closing w w'"
  then have "deserted i w'" using assms by (rule reach_invariant) (rule deserted_step)
  then show "tasks w' i \<noteq> Holding a" by (auto simp: deserted_def)
qed

lemma sched_reach_quiet_run:
  assumes "run_events sched_admit es (broker_start n ks) = Some w" and "\<forall>f. Operate f \<notin> set es"
  shows "sched_reach n ks w"
  using assms by (intro sched_reach_run broker_event_no_operate)

text \<open>
  C17: A request can be stranded beside an idle slot. In a reachable state the only slot is
  idle, one request is suspended waiting for any slot, it has not been woken, and as long as
  no new request arrives it is never admitted: it can only time out. The wake-up went to a
  request that named the slot and then left without being polled.
\<close>

theorem idle_slot_can_strand:
  "\<exists>w. sched_reach 1 [] w \<and> \<not> busy (slots (shared w) ! 0) \<and>
     (\<exists>d. tasks w 2 = Waiting None d 1) \<and> 1 \<notin> signalled w \<and> stranded w 2"
proof -
  have "\<exists>w. run_events sched_admit stranding_run (broker_start 1 []) = Some w \<and>
    \<not> busy (slots (shared w) ! 0) \<and> (\<exists>d. tasks w 2 = Waiting None d 1) \<and> 1 \<notin> signalled w \<and>
    deserted 2 w"
    by (simp add: stranding_run_def deserted_def eval_simps)
  moreover have "\<forall>f. Operate f \<notin> set stranding_run" by (simp add: stranding_run_def)
  ultimately show ?thesis by (meson sched_reach_quiet_run deserted_stranded)
qed

text \<open>
  Two slots, both held. Request 2 waits for slot 0 by name, request 3 for any slot. Slot 1 is
  freed, which wakes request 3; slot 0 is freed, which wakes request 2; request 3 is polled
  first and takes slot 0, the one used less recently.
\<close>

definition overtaking_run :: "sched_event list" where
  "overtaking_run =
     [Spawn 0 None 10, Poll 0 (), Spawn 1 None 10, Poll 1 (),
      Spawn 2 (Some (demo_hint ''p'' (Some 0) None)) 10, Poll 2 (),
      Spawn 3 None 10, Poll 3 (), Finish 1, Finish 0]"

text \<open>
  C29: A general waiter can take a slot from under a waiter queued for exactly that slot. In
  a reachable state a request waiting for slot 0 by name has been woken for it, another
  request that waits for any slot is polled first and is granted slot 0 although slot 1 is
  idle too, and the first request, polled next, goes back to waiting.
\<close>

theorem general_waiter_can_overtake:
  "\<exists>w w1 w2. sched_reach 2 [] w \<and> woken w 2 0 \<and> \<not> busy (slots (shared w) ! 1) \<and>
     (\<exists>d c. tasks w 3 = Waiting None d c) \<and>
     exec_event sched_admit (Poll 3 ()) w = Some w1 \<and>
     tasks w1 3 = Holding \<lparr>slot_id = 0, cache_ready = False\<rparr> \<and>
     exec_event sched_admit (Poll 2 ()) w1 = Some w2 \<and>
     (\<exists>h d c. tasks w2 2 = Waiting h d c \<and> c \<notin> signalled w2)"
proof -
  have "\<exists>w w1 w2. run_events sched_admit overtaking_run (broker_start 2 []) = Some w \<and>
     woken w 2 0 \<and> \<not> busy (slots (shared w) ! 1) \<and>
     (\<exists>d c. tasks w 3 = Waiting None d c) \<and>
     exec_event sched_admit (Poll 3 ()) w = Some w1 \<and>
     tasks w1 3 = Holding \<lparr>slot_id = 0, cache_ready = False\<rparr> \<and>
     exec_event sched_admit (Poll 2 ()) w1 = Some w2 \<and>
     (\<exists>h d c. tasks w2 2 = Waiting h d c \<and> c \<notin> signalled w2)"
    by (simp add: overtaking_run_def woken_def eval_simps)
  moreover have "\<forall>f. Operate f \<notin> set overtaking_run" by (simp add: overtaking_run_def)
  ultimately show ?thesis by (meson sched_reach_quiet_run)
qed

end
