(* ===== verification/Gpu_Lock.thy ===== *)
theory Gpu_Lock
  imports Wait_Loop
begin

text \<open>
  The lease-based GPU lock (src/src/gpu_lock.rs): the state behind its mutex, its operations,
  and \<^verbatim>\<open>GpuLock::acquire\<close> as a second instance of the waiting loop of Wait_Loop. A
  lease id is the 128-bit value of a UUID; the fresh one \<^verbatim>\<open>Uuid::new_v4\<close> returns is an
  input of the attempt that mints it.
\<close>

section \<open>Data and operations\<close>

type_synonym lease_id = "128 word"

datatype gpu_lock_error = Lock_Timeout | Unknown_Lease

record held =
  lease :: lease_id
  acquired_at :: instant

record lock_inner =
  held_by :: "held option"
  lock_waiters :: "chan list"

definition new_lock :: lock_inner where
  "new_lock = \<lparr>held_by = None, lock_waiters = []\<rparr>"

text \<open>The two halves of the critical section of \<^verbatim>\<open>acquire\<close>.\<close>

definition try_lock :: "instant \<Rightarrow> lease_id \<Rightarrow> lock_inner \<Rightarrow> (lease_id \<times> lock_inner) option" where
  "try_lock t new s =
     (case held_by s of
        None \<Rightarrow> Some (new, s\<lparr>held_by := Some \<lparr>lease = new, acquired_at = t\<rparr>\<rparr>)
      | Some _ \<Rightarrow> None)"

definition push_waiter :: "chan \<Rightarrow> lock_inner \<Rightarrow> lock_inner" where
  "push_waiter tx s = s\<lparr>lock_waiters := lock_waiters s @ [tx]\<rparr>"

definition wake_all :: "(chan \<Rightarrow> bool) \<Rightarrow> lock_inner \<Rightarrow> lock_inner \<times> chan list" where
  "wake_all live s = (s\<lparr>lock_waiters := []\<rparr>, filter live (lock_waiters s))"

definition release_lease ::
  "(chan \<Rightarrow> bool) \<Rightarrow> lease_id \<Rightarrow> lock_inner \<Rightarrow>
     (gpu_lock_error + unit) \<times> lock_inner \<times> chan list" where
  "release_lease live l s =
     (case held_by s of
        Some h \<Rightarrow>
          (if lease h = l then (Inr (), wake_all live (s\<lparr>held_by := None\<rparr>))
           else (Inl Unknown_Lease, s, []))
      | None \<Rightarrow> (Inl Unknown_Lease, s, []))"

definition reap_expired ::
  "duration \<Rightarrow> instant \<Rightarrow> (chan \<Rightarrow> bool) \<Rightarrow> lock_inner \<Rightarrow> lock_inner \<times> chan list" where
  "reap_expired max_hold t live s =
     (let expired =
            (case held_by s of
               None \<Rightarrow> False
             | Some h \<Rightarrow> max_hold < elapsed t (acquired_at h))
      in if expired then wake_all live (s\<lparr>held_by := None\<rparr>) else (s, []))"

definition is_held :: "lock_inner \<Rightarrow> bool" where
  "is_held s \<longleftrightarrow> held_by s \<noteq> None"

lemmas lock_defs [eval_simps] =
  new_lock_def try_lock_def push_waiter_def wake_all_def release_lease_def reap_expired_def
  is_held_def

text \<open>
  What the lock's operations do. Releasing frees the lock exactly for the lease that
  holds it, and then wakes every waiter that is still there; any other lease is reported as
  unknown and changes nothing. Reaping frees the lock, and wakes the same waiters, exactly
  when the holder has had it for longer than the maximum, the maximum itself not included.
\<close>

lemma lock_operations:
  "release_lease live l s =
     (if map_option lease (held_by s) = Some l
      then (Inr (), \<lparr>held_by = None, lock_waiters = []\<rparr>, filter live (lock_waiters s))
      else (Inl Unknown_Lease, s, [])) \<and>
   reap_expired max_hold t live s =
     (if \<exists>h. held_by s = Some h \<and> max_hold < t - acquired_at h
      then (\<lparr>held_by = None, lock_waiters = []\<rparr>, filter live (lock_waiters s))
      else (s, []))"
  by (cases s)
    (auto simp: release_lease_def reap_expired_def wake_all_def elapsed_def split: option.splits)

section \<open>The waiting loop on the lock\<close>

datatype lock_op = Release_Lease lease_id | Reap

fun lock_operate ::
  "duration \<Rightarrow> instant \<Rightarrow> lock_op \<Rightarrow> (chan \<Rightarrow> bool) \<Rightarrow> lock_inner \<Rightarrow> lock_inner \<times> chan list" where
  "lock_operate max_hold t (Release_Lease l) live s = snd (release_lease live l s)"
| "lock_operate max_hold t Reap live s = reap_expired max_hold t live s"

type_synonym lock_world = "(lock_inner, unit, lease_id) world"
type_synonym lock_event = "(unit, lease_id, lock_op) event"

text \<open>\<^verbatim>\<open>GpuLock::acquire\<close>.\<close>

definition gpu_acquire ::
  "duration \<Rightarrow> (lock_inner, unit, lease_id, lease_id, lock_op) resource" where
  "gpu_acquire max_hold =
     \<lparr>attempt = (\<lambda>t new _ s. try_lock t new s),
      enqueue = (\<lambda>_. push_waiter),
      operate = lock_operate max_hold,
      relinquish = Release_Lease\<rparr>"

lemma gpu_acquire_simps [simp]:
  "attempt (gpu_acquire m) t x q s = try_lock t x s"
  "enqueue (gpu_acquire m) q = push_waiter"
  "operate (gpu_acquire m) = lock_operate m"
  "relinquish (gpu_acquire m) l = Release_Lease l"
  by (simp_all add: gpu_acquire_def)

lemmas gpu_acquire_eval [eval_simps] = gpu_acquire_def

definition lock_queued :: "lock_inner \<Rightarrow> chan set" where
  "lock_queued s = set (lock_waiters s)"

text \<open>An operation either leaves the state alone, or frees the lock and wakes everybody.\<close>

lemma lock_operate_cases:
  obtains (idle) "lock_operate m t f live s = (s, [])"
  | (freed) h where "held_by s = Some h"
      and "f = Release_Lease (lease h) \<or> f = Reap \<and> m < elapsed t (acquired_at h)"
      and "lock_operate m t f live s =
        (\<lparr>held_by = None, lock_waiters = []\<rparr>, filter live (lock_waiters s))"
proof (cases "held_by s")
  case None
  then show ?thesis using idle by (cases f) (simp_all add: release_lease_def reap_expired_def)
next
  case (Some h)
  show ?thesis
  proof (cases f)
    case (Release_Lease l)
    with Some show ?thesis
      using idle freed [of h] by (cases "lease h = l") (cases s, simp_all add: lock_defs)
  next
    case Reap
    with Some show ?thesis
      using idle freed [of h]
      by (cases "m < elapsed t (acquired_at h)") (cases s, simp_all add: lock_defs)
  qed
qed

interpretation gpu: wait_queue "gpu_acquire m" lock_queued
proof (unfold_locales, goal_cases)
  case (1 t x q s g s')
  then show ?case by (auto simp: try_lock_def lock_queued_def split: option.splits)
next
  case (2 q c s)
  then show ?case by (simp add: push_waiter_def lock_queued_def)
next
  case (3 t f live s s' sent)
  then show ?case
    by (cases rule: lock_operate_cases [of m t f live s]) (auto simp: lock_queued_def)
next
  case (4 t f live s s' sent)
  then show ?case
    by (cases rule: lock_operate_cases [of m t f live s]) (auto simp: lock_queued_def)
next
  case (5 t f live s s' sent c)
  then show ?case
    by (cases rule: lock_operate_cases [of m t f live s]) (auto simp: lock_queued_def)
qed

end
