(* ===== verification/Gpu_Lock_System.thy ===== *)
theory Gpu_Lock_System
  imports Gpu_Lock
begin

text \<open>
  The GPU lock under every interleaving of its callers, the clients' releases and the reaper
  task of main.rs: one holder at a time, a lease that is lost only by its own release or by
  overstaying, no waiter left asleep while the lock is free, and a bound on how long a
  crashed client can block the others.
\<close>

section \<open>Reachable states\<close>

text \<open>
  What the clients may do. A fresh lease id differs from those still in use, and nobody
  presents somebody else's (both are properties of random UUIDs). A client that still has a
  lease releases it by \<open>Finish\<close>; one that never does has crashed. Releases of any other id,
  a second release of an id already given back included, may come at any time.
\<close>

fun honest :: "lock_world \<Rightarrow> lock_event \<Rightarrow> bool" where
  "honest w (Poll i l) = (\<forall>j. tasks w j \<noteq> Holding l)"
| "honest w (Operate (Release_Lease l)) = (\<forall>j. tasks w j \<noteq> Holding l)"
| "honest w e = True"

definition lock_start :: lock_world where
  "lock_start = start_world new_lock"

lemmas lock_start_eval [eval_simps] = lock_start_def

definition lock_reach :: "duration \<Rightarrow> lock_world \<Rightarrow> bool" where
  "lock_reach m w \<longleftrightarrow> reach (gpu_acquire m) honest lock_start w"

definition lock_ok :: "lock_world \<Rightarrow> bool" where
  "lock_ok w \<longleftrightarrow>
     (\<forall>h. held_by (shared w) = Some h \<longrightarrow>
        acquired_at h \<le> now w \<and> (\<exists>i. tasks w i = Holding (lease h))) \<and>
     (\<forall>i j l. tasks w i = Holding l \<and> tasks w j = Holding l \<longrightarrow> i = j) \<and>
     (held_by (shared w) = None \<longrightarrow> lock_waiters (shared w) = [])"

lemma lock_ok_start: "lock_ok lock_start"
  by (simp add: lock_ok_def lock_start_def start_world_def new_lock_def)

lemma lock_try_cases:
  obtains (claimed) "held_by (shared w) = None"
      and "try_once (gpu_acquire m) l i u dl w = set_task i (Holding l)
        (w\<lparr>shared := (shared w)\<lparr>held_by := Some \<lparr>lease = l, acquired_at = now w\<rparr>\<rparr>\<rparr>)"
  | (queued) h where "held_by (shared w) = Some h"
      and "try_once (gpu_acquire m) l i u dl w = set_task i (Waiting u dl (fresh w))
        (w\<lparr>shared := push_waiter (fresh w) (shared w), fresh := Suc (fresh w)\<rparr>)"
  by (cases "held_by (shared w)") (auto simp: try_once_def try_lock_def that)

text \<open>A lease is lost only by its holder's release, or to the reaper after the maximum.\<close>

lemma lease_step:
  assumes ok: "lock_ok w" and "honest w e" and step: "exec_event (gpu_acquire m) e w = Some w'"
    and h: "held_by (shared w) = Some h"
  shows "held_by (shared w') = Some h \<or>
    (\<exists>i. e = Finish i \<and> tasks w i = Holding (lease h)) \<or>
    (e = Operate Reap \<and> acquired_at h + m < now w)"
  using step
proof (cases rule: exec_event_cases)
  case (tried i l u dl)
  then show ?thesis
    by (cases rule: lock_try_cases [of "settled i w" m l i u dl])
      (use h in \<open>auto simp: push_waiter_def\<close>)
next
  case (finished i l)
  then show ?thesis
    by (cases rule: lock_operate_cases [of m "now w" "Release_Lease l" "\<lambda>c. c \<notin> closed w" "shared w"])
      (use h in \<open>auto simp del: lock_operate.simps\<close>)
next
  case (other f)
  from ok h have "\<exists>i. tasks w i = Holding (lease h)" by (simp add: lock_ok_def)
  with other h assms(2) show ?thesis
    by (cases rule: lock_operate_cases [of m "now w" f "\<lambda>c. c \<notin> closed w" "shared w"])
      (auto simp: elapsed_def simp del: lock_operate.simps)
qed (use h in auto)

lemma lock_ok_step:
  assumes ok: "lock_ok w" and ev: "honest w e"
    and step: "exec_event (gpu_acquire m) e w = Some w'"
  shows "lock_ok w'"
  using step
proof (cases rule: exec_event_cases)
  case (aside i t)
  from aside(2,3) have "tasks w' j = Holding l \<longleftrightarrow> tasks w j = Holding l" for j l
    by (simp add: aside(1))
  with ok aside(1) show ?thesis unfolding lock_ok_def by simp
next
  case (tried i l u dl)
  from ev tried(3) have new: "\<And>j. tasks w j \<noteq> Holding l" by simp
  show ?thesis
  proof (cases rule: lock_try_cases [of "settled i w" m l i u dl])
    case claimed
    with tried(1) have "tasks w' j = Holding l' \<longleftrightarrow> (if j = i then l' = l else tasks w j = Holding l')" for j l'
      by (cases "j = i") auto
    with claimed tried(1) ok new show ?thesis unfolding lock_ok_def by auto
  next
    case (queued h)
    with tried have "tasks w' j = Holding l' \<longleftrightarrow> tasks w j = Holding l'" for j l'
      by simp
    with queued tried(1) ok show ?thesis unfolding lock_ok_def by (simp add: push_waiter_def)
  qed
next
  case (finished i l)
  then have T: "tasks w' j = Holding l' \<longleftrightarrow> j \<noteq> i \<and> tasks w j = Holding l'" for j l'
    by simp
  have S: "shared w' = fst (lock_operate m (now w) (Release_Lease l) (\<lambda>c. c \<notin> closed w) (shared w))"
    and N: "now w' = now w" using finished by simp_all
  show ?thesis
  proof (cases rule: lock_operate_cases [of m "now w" "Release_Lease l" "\<lambda>c. c \<notin> closed w" "shared w"])
    case idle
    have "lease h \<noteq> l" if "held_by (shared w) = Some h" for h
    proof
      assume "lease h = l"
      with that have "held_by (fst (lock_operate m (now w) (Release_Lease l)
          (\<lambda>c. c \<notin> closed w) (shared w))) = None"
        by (simp add: release_lease_def wake_all_def)
      with idle that show False by (simp del: lock_operate.simps)
    qed
    moreover have "\<exists>j. tasks w j = Holding (lease h)" if "held_by (shared w) = Some h" for h
      using ok that by (simp add: lock_ok_def)
    ultimately have "\<exists>j. j \<noteq> i \<and> tasks w j = Holding (lease h)"
      if "held_by (shared w) = Some h" for h
      using that finished(1) by (metis task.inject(3))
    moreover have "shared w' = shared w" using S idle by simp
    ultimately show ?thesis using ok unfolding lock_ok_def N T by simp
  next
    case (freed h)
    with T S N ok show ?thesis
      unfolding lock_ok_def by (auto simp del: lock_operate.simps)
  qed
next
  case (other f)
  then show ?thesis
    by (cases rule: lock_operate_cases [of m "now w" f "\<lambda>c. c \<notin> closed w" "shared w"])
      (use ok in \<open>auto simp: lock_ok_def simp del: lock_operate.simps\<close>)
next
  case (tick d)
  with ok show ?thesis unfolding lock_ok_def by (auto intro: le_trans)
qed

lemma lock_reach_ok: "lock_reach m w \<Longrightarrow> lock_ok w"
  unfolding lock_reach_def
  by (erule reach_invariant [where P = lock_ok]) (rule lock_ok_start, rule lock_ok_step)

lemma lock_reach_world:
  assumes "lock_reach m w"
  shows "world_ok lock_queued w"
  using gpu.reach_ok [of m honest new_lock w] assms
  by (simp add: lock_reach_def lock_start_def lock_queued_def new_lock_def)

text \<open>
  C31: The lock has one holder at a time and nobody can take it from them. In every reachable
  state in which the lock is held, exactly one client has the lease that holds it, and
  whatever happens next, the lease keeps holding the lock unless that very client releases it
  or the reaper runs after it has been held longer than the maximum. A late release by a
  client whose lease was reaped, a double release or an invented id changes nothing.
\<close>

theorem lease_lost_only_by_owner_or_reaper:
  assumes "lock_reach m w" and "held_by (shared w) = Some h"
    and "honest w e" and "exec_event (gpu_acquire m) e w = Some w'"
  shows "(\<exists>!i. tasks w i = Holding (lease h)) \<and>
    (held_by (shared w') = Some h \<or>
     (\<exists>i. e = Finish i \<and> tasks w i = Holding (lease h)) \<or>
     (e = Operate Reap \<and> acquired_at h + m < now w))"
proof -
  note ok = lock_reach_ok [OF assms(1)]
  from ok assms(2) have "\<exists>!i. tasks w i = Holding (lease h)" unfolding lock_ok_def by metis
  with lease_step [OF ok assms(3,4,2)] show ?thesis by blast
qed

text \<open>
  A run used as a witness: client 0 is granted lease 7 and never returns it; it is reaped,
  client 1 is granted lease 8, and client 0 comes back with lease 7.
\<close>

definition late_release_run :: "lock_event list" where
  "late_release_run =
     [Spawn 0 () 10, Poll 0 7, Tick 51, Operate Reap, Spawn 1 () 10, Poll 1 8]"

lemma late_release_reach:
  "\<exists>w. lock_reach 50 w \<and> held_by (shared w) = Some \<lparr>lease = 8, acquired_at = 51\<rparr> \<and>
     tasks w 0 = Holding 7 \<and> tasks w 1 = Holding 8"
proof -
  have run: "\<exists>w. run_events (gpu_acquire 50) late_release_run lock_start = Some w \<and>
    held_by (shared w) = Some \<lparr>lease = 8, acquired_at = 51\<rparr> \<and>
    tasks w 0 = Holding 7 \<and> tasks w 1 = Holding 8"
    by (simp add: late_release_run_def eval_simps)
  have "allowed_run (gpu_acquire 50) honest late_release_run lock_start"
    by (simp add: late_release_run_def eval_simps)
  with run show ?thesis by (auto simp: lock_reach_def intro: reach_run reach_start)
qed

lemma lease_lost_only_by_owner_or_reaper_witness:
  "\<exists>w w'. tasks w 0 = Holding 7 \<and> exec_event (gpu_acquire 50) (Finish 0) w = Some w' \<and>
     held_by (shared w') = Some \<lparr>lease = 8, acquired_at = 51\<rparr>"
proof -
  from late_release_reach obtain w where r: "lock_reach 50 w"
    and h: "held_by (shared w) = Some \<lparr>lease = 8, acquired_at = 51\<rparr>"
    and i: "tasks w 0 = Holding 7" by blast
  then obtain w' where s: "exec_event (gpu_acquire 50) (Finish 0) w = Some w'" by simp
  have "honest w (Finish 0)" by simp
  from lease_lost_only_by_owner_or_reaper [OF r h this s] s i show ?thesis by auto
qed

section \<open>Waiters\<close>

text \<open>
  C32: No client sleeps beside a free lock. In every reachable state in which nobody holds the
  lock, every suspended \<^verbatim>\<open>acquire\<close> has been woken and its next poll is granted the lock, with
  the fresh lease of that poll. Clients that leave after being woken make no difference.
\<close>

theorem free_lock_wakes_everyone:
  assumes "lock_reach m w" and "held_by (shared w) = None" and "tasks w i = Waiting u d c"
  shows "\<exists>w'. exec_event (gpu_acquire m) (Poll i l) w = Some w' \<and> tasks w' i = Holding l \<and>
    held_by (shared w') = Some \<lparr>lease = l, acquired_at = now w\<rparr>"
proof -
  from lock_reach_ok [OF assms(1)] assms(2) have "lock_queued (shared w) = {}"
    by (simp add: lock_ok_def lock_queued_def)
  with world_ok_waiting(3) [OF lock_reach_world [OF assms(1)] assms(3)] have "c \<in> signalled w"
    by simp
  with assms(2,3) show ?thesis by (simp add: try_once_def try_lock_def close_rx_def)
qed

text \<open>The scenario of the unit test: the first client woken is dropped before its poll.\<close>

definition dropped_waiter_run :: "lock_event list" where
  "dropped_waiter_run =
     [Spawn 0 () 10, Poll 0 7, Spawn 1 () 10, Poll 1 8, Spawn 2 () 10, Poll 2 9, Finish 0, Abandon 1]"

lemma free_lock_wakes_everyone_witness:
  "\<exists>w w'. tasks w 1 = Gone \<and> exec_event (gpu_acquire 50) (Poll 2 11) w = Some w' \<and>
     tasks w' 2 = Holding 11"
proof -
  have "\<exists>w d. run_events (gpu_acquire 50) dropped_waiter_run lock_start = Some w \<and>
    held_by (shared w) = None \<and> tasks w 1 = Gone \<and> tasks w 2 = Waiting () d 1"
    by (simp add: dropped_waiter_run_def eval_simps)
  then obtain w d where run: "run_events (gpu_acquire 50) dropped_waiter_run lock_start = Some w"
    and n: "held_by (shared w) = None" and g: "tasks w 1 = Gone" and t: "tasks w 2 = Waiting () d 1"
    by blast
  have "allowed_run (gpu_acquire 50) honest dropped_waiter_run lock_start"
    by (simp add: dropped_waiter_run_def eval_simps)
  with run have r: "lock_reach 50 w" unfolding lock_reach_def by (rule reach_run) (rule reach_start)
  from free_lock_wakes_everyone [OF r n t] g show ?thesis by blast
qed

section \<open>The reaper\<close>

text \<open>
  \<^verbatim>\<open>reap_expired_gpu_lock\<close> reaps at every multiple of \<^verbatim>\<open>RECONCILE_INTERVAL\<close> from its
  start. \<open>punctual\<close> says that it does so on time: the clock never skips such an instant, and
  it leaves one only after the reaper has run at it, so that no overdue lease is left.
\<close>

definition reconcile_interval :: duration where
  "reconcile_interval = from_secs 10"

definition overdue :: "duration \<Rightarrow> lock_world \<Rightarrow> bool" where
  "overdue m w \<longleftrightarrow>
     (case held_by (shared w) of None \<Rightarrow> False | Some h \<Rightarrow> acquired_at h + m < now w)"

fun punctual :: "duration \<Rightarrow> lock_world \<Rightarrow> lock_event \<Rightarrow> bool" where
  "punctual m w (Tick d) \<longleftrightarrow>
     (now w mod reconcile_interval = 0 \<longrightarrow> \<not> overdue m w) \<and>
     now w + d \<le> (now w div reconcile_interval + 1) * reconcile_interval"
| "punctual m w e = honest w e"

text \<open>Running the reaper is what makes it possible to leave an instant of the reaper.\<close>

lemma reap_clears_overdue: "\<not> overdue m (perform (gpu_acquire m) Reap w)"
  by (auto simp: overdue_def reap_expired_def wake_all_def elapsed_def split: option.splits)

lemma punctual_honest: "punctual m w e \<Longrightarrow> honest w e"
  by (cases "(m, w, e)" rule: punctual.cases) auto

definition on_time :: "duration \<Rightarrow> lock_world \<Rightarrow> bool" where
  "on_time m w \<longleftrightarrow>
     (case held_by (shared w) of
        None \<Rightarrow> True
      | Some h \<Rightarrow> \<forall>k. k * reconcile_interval < now w \<longrightarrow> k * reconcile_interval \<le> acquired_at h + m)"

text \<open>The last instant of the reaper strictly before a given one is less than an interval away.\<close>

lemma interval_before:
  assumes "t + reconcile_interval < n"
  obtains k where "k * reconcile_interval < n" and "t < k * reconcile_interval"
proof -
  let ?P = reconcile_interval
  have P: "0 < ?P" by (simp add: reconcile_interval_def from_secs_def)
  let ?k = "(n - 1) div ?P"
  have "n - 1 < ?k * ?P + ?P"
    using P div_mult_mod_eq [of "n - 1" ?P] mod_less_divisor [OF P, of "n - 1"] by linarith
  with assms have "t < ?k * ?P" by linarith
  moreover have "?k * ?P < n"
    using assms div_times_less_eq_dividend [of "n - 1" ?P] by linarith
  ultimately show ?thesis using that by blast
qed

lemma on_time_tick:
  assumes "on_time m w" and "punctual m w (Tick d)"
  shows "on_time m (w\<lparr>now := now w + d\<rparr>)"
proof (cases "held_by (shared w)")
  case (Some h)
  let ?P = reconcile_interval
  have P: "0 < ?P" by (simp add: reconcile_interval_def from_secs_def)
  have "k * ?P \<le> acquired_at h + m" if k: "k * ?P < now w + d" for k
  proof (cases "k * ?P < now w")
    case True
    with assms(1) Some show ?thesis by (simp add: on_time_def)
  next
    case False
    from assms(2) have "now w + d \<le> (now w div ?P + 1) * ?P" by (simp only: punctual.simps)
    with k have "k * ?P < (now w div ?P + 1) * ?P" by (rule less_le_trans)
    then have "k \<le> now w div ?P" by (simp only: mult_less_cancel2) simp
    then have "k * ?P \<le> now w div ?P * ?P" by (rule mult_le_mono1)
    with False div_mult_mod_eq [of "now w" ?P] have "now w = k * ?P" and "now w mod ?P = 0"
      by linarith+
    with assms(2) Some show ?thesis by (simp add: overdue_def)
  qed
  with Some show ?thesis by (simp add: on_time_def)
qed (simp add: on_time_def)

lemma on_time_step:
  assumes on: "on_time m w" and ev: "punctual m w e"
    and step: "exec_event (gpu_acquire m) e w = Some w'"
  shows "on_time m w'"
  using step
proof (cases rule: exec_event_cases)
  case (tried i l u dl)
  then show ?thesis
    by (cases rule: lock_try_cases [of "settled i w" m l i u dl])
      (use on in \<open>auto simp: on_time_def push_waiter_def\<close>)
next
  case (finished i l)
  then show ?thesis
    by (cases rule: lock_operate_cases [of m "now w" "Release_Lease l" "\<lambda>c. c \<notin> closed w" "shared w"])
      (use on in \<open>auto simp: on_time_def simp del: lock_operate.simps split: option.splits\<close>)
next
  case (other f)
  then show ?thesis
    by (cases rule: lock_operate_cases [of m "now w" f "\<lambda>c. c \<notin> closed w" "shared w"])
      (use on in \<open>auto simp: on_time_def simp del: lock_operate.simps split: option.splits\<close>)
next
  case (tick d)
  with on ev show ?thesis by (simp add: on_time_tick)
qed (use on in \<open>simp add: on_time_def split: option.splits\<close>)

text \<open>
  A crashed client cannot block the lock for long. If the reaper runs on time, no lease
  ever holds the lock for more than the maximum plus one reaper interval, whether or not its
  client ever comes back.
\<close>

lemma hold_is_bounded:
  assumes "reach (gpu_acquire m) (punctual m) lock_start w" and "held_by (shared w) = Some h"
  shows "now w - acquired_at h \<le> m + reconcile_interval"
proof -
  have "on_time m lock_start" by (simp add: on_time_def lock_start_def start_world_def new_lock_def)
  with assms(1) have "on_time m w" by (rule reach_invariant) (rule on_time_step)
  with assms(2) have "\<not> acquired_at h + m + reconcile_interval < now w"
    by (auto simp: on_time_def elim!: interval_before)
  then show ?thesis by linarith
qed

text \<open>A client takes the lock 3 s into an interval with a 5 s maximum and crashes.\<close>

definition crashed_run :: "lock_event list" where
  "crashed_run = [Operate Reap, Tick (from_secs 3), Spawn 0 () 10, Poll 0 7, Tick (from_secs 7)]"

lemma hold_is_bounded_witness:
  "\<exists>(w :: lock_world) h. held_by (shared w) = Some h \<and> now w - acquired_at h \<le> from_secs 15"
proof -
  let ?m = "from_secs 5"
  have "\<exists>w. run_events (gpu_acquire ?m) crashed_run lock_start = Some w \<and>
      held_by (shared w) = Some \<lparr>lease = 7, acquired_at = from_secs 3\<rparr>"
    by (simp add: crashed_run_def eval_simps)
  then obtain w where run: "run_events (gpu_acquire ?m) crashed_run lock_start = Some w"
    and h: "held_by (shared w) = Some \<lparr>lease = 7, acquired_at = from_secs 3\<rparr>" by blast
  have "allowed_run (gpu_acquire ?m) (punctual ?m) crashed_run lock_start"
    by (simp add: crashed_run_def eval_simps overdue_def reconcile_interval_def)
  with run have r: "reach (gpu_acquire ?m) (punctual ?m) lock_start w"
    by (rule reach_run) (rule reach_start)
  from hold_is_bounded [OF r h]
  have "now w - acquired_at \<lparr>lease = 7, acquired_at = from_secs 3\<rparr> \<le> from_secs 15"
    by (simp add: reconcile_interval_def from_secs_def)
  with h show ?thesis by (intro exI conjI)
qed

end
