(* ===== verification/Text.thy ===== *)
theory Text
  imports Prelude
begin

text \<open>
  The string functions of the standard library the source uses, on lists of ASCII characters
  (a header value that is read at all is one; so are the outputs and files of the GPU probe).
\<close>

section \<open>Characters\<close>

abbreviation ascii :: "char \<Rightarrow> nat" where
  "ascii c \<equiv> of_char c"

definition ascii_lower :: "char \<Rightarrow> char" where
  "ascii_lower c = (if 65 \<le> ascii c \<and> ascii c \<le> 90 then char_of (ascii c + 32) else c)"

definition eq_ignore_ascii_case :: "string \<Rightarrow> string \<Rightarrow> bool" where
  "eq_ignore_ascii_case a b \<longleftrightarrow> map ascii_lower a = map ascii_lower b"

definition is_ascii_digit :: "char \<Rightarrow> bool" where
  "is_ascii_digit c \<longleftrightarrow> 48 \<le> ascii c \<and> ascii c \<le> 57"

definition to_digit :: "nat \<Rightarrow> char \<Rightarrow> nat option" where
  "to_digit radix c =
     (let n = ascii c;
          d = (if 48 \<le> n \<and> n \<le> 57 then n - 48
               else if 97 \<le> n \<and> n \<le> 122 then n - 87
               else if 65 \<le> n \<and> n \<le> 90 then n - 55 else radix)
      in if d < radix then Some d else None)"

section \<open>Splitting\<close>

text \<open>\<^verbatim>\<open>str::split(']').next()\<close>: the part before the first bracket.\<close>

definition split_first :: "char \<Rightarrow> string \<Rightarrow> string" where
  "split_first c s = takeWhile (\<lambda>x. x \<noteq> c) s"

text \<open>\<^verbatim>\<open>str::split\<close> at a character: all parts, in order.\<close>

fun split_on :: "char \<Rightarrow> string \<Rightarrow> string list" where
  "split_on c [] = [[]]"
| "split_on c (x # xs) =
     (if x = c then [] # split_on c xs
      else (case split_on c xs of [] \<Rightarrow> [[x]] | y # ys \<Rightarrow> (x # y) # ys))"

text \<open>The text whose parts at \<open>c\<close> are the ones given.\<close>

fun join_with :: "char \<Rightarrow> string list \<Rightarrow> string" where
  "join_with c [] = []"
| "join_with c [x] = x"
| "join_with c (x # xs) = x @ c # join_with c xs"

text \<open>\<^verbatim>\<open>str::rsplit_once\<close>: around the last occurrence.\<close>

fun rsplit_once :: "char \<Rightarrow> string \<Rightarrow> (string \<times> string) option" where
  "rsplit_once c [] = None"
| "rsplit_once c (x # xs) =
     (case rsplit_once c xs of
        Some (h, t) \<Rightarrow> Some (x # h, t)
      | None \<Rightarrow> if x = c then Some ([], xs) else None)"

text \<open>\<^verbatim>\<open>str::strip_prefix\<close> of one character.\<close>

fun strip_prefix :: "char \<Rightarrow> string \<Rightarrow> string option" where
  "strip_prefix c [] = None"
| "strip_prefix c (x # xs) = (if x = c then Some xs else None)"

text \<open>\<^verbatim>\<open>str::split_once\<close>: around the first occurrence.\<close>

fun split_once :: "char \<Rightarrow> string \<Rightarrow> (string \<times> string) option" where
  "split_once c [] = None"
| "split_once c (x # xs) =
     (if x = c then Some ([], xs)
      else (case split_once c xs of None \<Rightarrow> None | Some (h, t) \<Rightarrow> Some (x # h, t)))"

definition is_whitespace :: "char \<Rightarrow> bool" where
  "is_whitespace c \<longleftrightarrow> ascii c = 32 \<or> (9 \<le> ascii c \<and> ascii c \<le> 13)"

definition trim :: "string \<Rightarrow> string" where
  "trim s = rev (dropWhile is_whitespace (rev (dropWhile is_whitespace s)))"

text \<open>\<^verbatim>\<open>str::trim_end_matches\<close> with a character.\<close>

definition trim_end_matches :: "char \<Rightarrow> string \<Rightarrow> string" where
  "trim_end_matches c s = rev (dropWhile (\<lambda>x. x = c) (rev s))"

text \<open>
  \<^verbatim>\<open>str::lines\<close>: a line ends with a line feed, and a carriage return before it is dropped;
  the last line may be unterminated.
\<close>

definition strip_cr :: "string \<Rightarrow> string" where
  "strip_cr s = (if s \<noteq> [] \<and> ascii (last s) = 13 then butlast s else s)"

fun lines_from :: "string \<Rightarrow> string \<Rightarrow> string list" where
  "lines_from acc [] = (if acc = [] then [] else [rev acc])"
| "lines_from acc (c # cs) =
     (if ascii c = 10 then strip_cr (rev acc) # lines_from [] cs else lines_from (c # acc) cs)"

definition lines :: "string \<Rightarrow> string list" where
  "lines = lines_from []"

section \<open>Numbers\<close>

fun decimal :: "nat \<Rightarrow> string" where
  "decimal n =
     (if n < 10 then [char_of (48 + n)] else decimal (n div 10) @ [char_of (48 + n mod 10)])"

declare decimal.simps [simp del]

text \<open>\<^verbatim>\<open>str::parse\<close> at an unsigned type with maximum \<open>lim\<close>: a plus sign is allowed.\<close>

fun parse_digits :: "nat \<Rightarrow> nat \<Rightarrow> string \<Rightarrow> nat option" where
  "parse_digits lim v [] = Some v"
| "parse_digits lim v (c # cs) =
     (case to_digit 10 c of
        None \<Rightarrow> None
      | Some d \<Rightarrow> if lim < v * 10 + d then None else parse_digits lim (v * 10 + d) cs)"

definition parse_unsigned :: "nat \<Rightarrow> string \<Rightarrow> nat option" where
  "parse_unsigned lim s =
     (let digits = (if take 1 s = ''+'' then drop 1 s else s)
      in if digits = [] then None else parse_digits lim 0 digits)"

lemmas text_defs [eval_simps] =
  ascii_lower_def eq_ignore_ascii_case_def is_ascii_digit_def to_digit_def split_first_def
  is_whitespace_def trim_def trim_end_matches_def strip_cr_def lines_def parse_unsigned_def

section \<open>Facts\<close>

lemma rsplit_once_None: "rsplit_once c s = None \<longleftrightarrow> c \<notin> set s"
  by (induction s) (auto split: option.splits)

lemma rsplit_once_append:
  "c \<notin> set t \<Longrightarrow> rsplit_once c (h @ c # t) = Some (h, t)"
  by (induction h) (simp_all add: rsplit_once_None [THEN iffD2])

lemma split_on_part: "c \<notin> set x \<Longrightarrow> split_on c x = [x]"
  by (induction x) auto

lemma split_on_append: "c \<notin> set x \<Longrightarrow> split_on c (x @ c # s) = x # split_on c s"
  by (induction x) auto

lemma split_on_join: "xs \<noteq> [] \<Longrightarrow> (\<And>x. x \<in> set xs \<Longrightarrow> c \<notin> set x) \<Longrightarrow> split_on c (join_with c xs) = xs"
  by (induction c xs rule: join_with.induct) (auto simp: split_on_part split_on_append)

lemma strip_prefix_None: "strip_prefix c s = None \<longleftrightarrow> take 1 s \<noteq> [c]"
  by (cases s) auto

lemma trim_end_matches_id: "s = [] \<or> last s \<noteq> c \<Longrightarrow> trim_end_matches c s = s"
  by (cases s rule: rev_cases) (auto simp: trim_end_matches_def)

lemma trim_end_matches_replicate: "trim_end_matches c (s @ replicate n c) = trim_end_matches c s"
proof -
  have "dropWhile (\<lambda>x. x = c) (replicate n c @ xs) = dropWhile (\<lambda>x. x = c) xs" for xs
    by (induction n) simp_all
  then show ?thesis by (simp add: trim_end_matches_def)
qed

lemma digit_not_colon: "list_all is_ascii_digit p \<Longrightarrow> CHR '':'' \<notin> set p"
  by (auto simp: list_all_iff is_ascii_digit_def)

lemma to_digit_char: "d < 10 \<Longrightarrow> to_digit 10 (char_of (48 + d)) = Some d"
  by (simp add: to_digit_def)

lemma to_digit_10: "to_digit 10 c = Some d \<Longrightarrow> d < 10 \<and> c = char_of (48 + d)"
  by (auto simp: to_digit_def Let_def split: if_splits)

lemma decimal_digit: "d < 10 \<Longrightarrow> decimal d = [char_of (48 + d)]"
  by (simp add: decimal.simps)

lemma decimal_step: "0 < q \<Longrightarrow> r < 10 \<Longrightarrow> decimal (q * 10 + r) = decimal q @ [char_of (48 + r)]"
  by (subst decimal.simps) simp

lemma decimal_not_Nil [simp]: "decimal n \<noteq> []"
  by (subst decimal.simps) simp

text \<open>Only digits are printed.\<close>

lemma decimal_digits: "c \<in> set (decimal n) \<Longrightarrow> 48 \<le> ascii c \<and> ascii c \<le> 57"
proof (induction n rule: decimal.induct)
  case (1 n)
  show ?case
  proof (cases "n < 10")
    case True
    with 1(2) show ?thesis by (auto simp: decimal_digit)
  next
    case False
    with 1(2) have "c \<in> set (decimal (n div 10)) \<or> c = char_of (48 + n mod 10)"
      by (subst (asm) decimal.simps) auto
    with 1(1) False show ?thesis by auto
  qed
qed

lemma parse_digits_append:
  "parse_digits lim v (xs @ ys) = Option.bind (parse_digits lim v xs) (\<lambda>v. parse_digits lim v ys)"
  by (induction lim v xs rule: parse_digits.induct) (auto split: option.splits)

lemma parse_digits_decimal: "n \<le> lim \<Longrightarrow> parse_digits lim 0 (decimal n) = Some n"
proof (induction n rule: decimal.induct)
  case (1 n)
  show ?case
  proof (cases "n < 10")
    case True
    with 1(2) show ?thesis by (simp add: decimal_digit to_digit_char)
  next
    case False
    have "decimal n = decimal (n div 10) @ [char_of (48 + n mod 10)]"
      using False by (subst decimal.simps) simp
    moreover have "parse_digits lim 0 (decimal (n div 10)) = Some (n div 10)"
      using 1 False by simp
    ultimately show ?thesis using 1(2) by (simp add: parse_digits_append to_digit_char)
  qed
qed

lemma parse_unsigned_decimal:
  assumes "n \<le> lim"
  shows "parse_unsigned lim (decimal n) = Some n"
proof -
  have "hd (decimal n) \<noteq> CHR ''+''"
    using decimal_digits [OF hd_in_set [OF decimal_not_Nil], of n] by auto
  then have "take 1 (decimal n) \<noteq> ''+''" by (cases "decimal n") auto
  with assms show ?thesis by (simp add: parse_unsigned_def parse_digits_decimal)
qed

end
