(* ===== verification/Ip_Addr.thy ===== *)
theory Ip_Addr
  imports Text "HOL-Library.Sublist"
begin

text \<open>
  The parser of IP address literals the \<^verbatim>\<open>Host\<close> guard uses, the standard library's
  \<^verbatim>\<open>str::parse::<IpAddr>\<close>, written as the standard library writes it (a reader per piece,
  each of which consumes nothing when it fails), with the round trip between dotted quads and
  addresses.
\<close>

section \<open>Readers\<close>

text \<open>A reader returns what it read and the rest of the input.\<close>

type_synonym 'a reader = "string \<Rightarrow> ('a \<times> string) option"

fun read_given_char :: "char \<Rightarrow> unit reader" where
  "read_given_char c [] = None"
| "read_given_char c (x # xs) = (if x = c then Some ((), xs) else None)"

text \<open>
  All the digits there are; fails as soon as the value exceeds \<open>lim\<close> (the checked arithmetic
  of the target type) or there are more than \<open>most\<close> digits.
\<close>

fun read_digits :: "nat \<Rightarrow> nat \<Rightarrow> nat \<Rightarrow> nat \<Rightarrow> nat \<Rightarrow> (nat \<times> nat) reader" where
  "read_digits radix lim most n v [] = Some ((n, v), [])"
| "read_digits radix lim most n v (c # cs) =
     (case to_digit radix c of
        None \<Rightarrow> Some ((n, v), c # cs)
      | Some d \<Rightarrow>
          (if lim < v * radix + d \<or> most < n + 1 then None
           else read_digits radix lim most (n + 1) (v * radix + d) cs))"

definition read_number :: "nat \<Rightarrow> nat \<Rightarrow> nat \<Rightarrow> bool \<Rightarrow> nat reader" where
  "read_number radix lim most allow_zero_prefix s =
     (case read_digits radix lim most 0 0 s of
        None \<Rightarrow> None
      | Some ((n, v), rest) \<Rightarrow>
          (if n = 0 then None
           else if \<not> allow_zero_prefix \<and> take 1 s = ''0'' \<and> 1 < n then None
           else Some (v, rest)))"

text \<open>A separator is expected before every piece but the first.\<close>

definition read_separator :: "char \<Rightarrow> nat \<Rightarrow> 'a reader \<Rightarrow> 'a reader" where
  "read_separator sep index inner s =
     (if index = 0 then inner s
      else (case read_given_char sep s of None \<Rightarrow> None | Some (_, rest) \<Rightarrow> inner rest))"

section \<open>Addresses\<close>

datatype ip_addr = V4 nat nat nat nat | V6 "nat list"

definition read_octet :: "nat reader" where
  "read_octet = read_number 10 255 3 False"

definition read_ipv4 :: "(nat \<times> nat \<times> nat \<times> nat) reader" where
  "read_ipv4 s =
     (case read_separator CHR ''.'' 0 read_octet s of None \<Rightarrow> None | Some (a, s) \<Rightarrow>
      (case read_separator CHR ''.'' 1 read_octet s of None \<Rightarrow> None | Some (b, s) \<Rightarrow>
      (case read_separator CHR ''.'' 2 read_octet s of None \<Rightarrow> None | Some (c, s) \<Rightarrow>
      (case read_separator CHR ''.'' 3 read_octet s of None \<Rightarrow> None | Some (d, s) \<Rightarrow>
        Some ((a, b, c, d), s)))))"

definition read_group :: "nat reader" where
  "read_group = read_number 16 65535 4 True"

text \<open>
  Up to \<open>limit\<close> groups of an IPv6 address, \<open>i\<close> of them read so far; the flag says that the
  last two came from an embedded IPv4 address.
\<close>

function read_groups :: "nat \<Rightarrow> nat \<Rightarrow> string \<Rightarrow> nat list \<times> bool \<times> string" where
  "read_groups limit i s =
     (if limit \<le> i then ([], False, s)
      else
        (case (if i + 1 < limit then read_separator CHR '':'' i read_ipv4 s else None) of
           Some ((a, b, c, d), rest) \<Rightarrow> ([a * 256 + b, c * 256 + d], True, rest)
         | None \<Rightarrow>
             (case read_separator CHR '':'' i read_group s of
                None \<Rightarrow> ([], False, s)
              | Some (g, rest) \<Rightarrow>
                  (case read_groups limit (i + 1) rest of (gs, v4, rest) \<Rightarrow> (g # gs, v4, rest)))))"
  by pat_completeness auto
termination by (relation "measure (\<lambda>(limit, i, s). limit - i)") auto

declare read_groups.simps [simp del]

definition read_ipv6 :: "nat list reader" where
  "read_ipv6 s =
     (case read_groups 8 0 s of (head, head_ipv4, rest) \<Rightarrow>
       if length head = 8 then Some (head, rest)
       else if head_ipv4 then None
       else
         (case read_given_char CHR '':'' rest of None \<Rightarrow> None | Some (_, rest) \<Rightarrow>
         (case read_given_char CHR '':'' rest of None \<Rightarrow> None | Some (_, rest) \<Rightarrow>
         (case read_groups (8 - (length head + 1)) 0 rest of (tail, _, rest) \<Rightarrow>
            Some (head @ replicate (8 - length head - length tail) 0 @ tail, rest)))))"

text \<open>The whole input must be consumed; a leftover does not make the reader try again.\<close>

definition parse_ip :: "string \<Rightarrow> ip_addr option" where
  "parse_ip s =
     (case
        (case read_ipv4 s of
           Some ((a, b, c, d), rest) \<Rightarrow> Some (V4 a b c d, rest)
         | None \<Rightarrow> map_option (\<lambda>(gs, rest). (V6 gs, rest)) (read_ipv6 s))
      of
        None \<Rightarrow> None
      | Some (ip, rest) \<Rightarrow> if rest = [] then Some ip else None)"

fun is_loopback :: "ip_addr \<Rightarrow> bool" where
  "is_loopback (V4 a b c d) \<longleftrightarrow> a = 127"
| "is_loopback (V6 gs) \<longleftrightarrow> gs = [0, 0, 0, 0, 0, 0, 0, 1]"

lemmas ip_defs [eval_simps] =
  read_number_def
  read_separator_def read_octet_def read_ipv4_def read_group_def read_groups.simps read_ipv6_def
  parse_ip_def

section \<open>Dotted quads\<close>

definition dotted :: "nat \<Rightarrow> nat \<Rightarrow> nat \<Rightarrow> nat \<Rightarrow> string" where
  "dotted a b c d = decimal a @ ''.'' @ decimal b @ ''.'' @ decimal c @ ''.'' @ decimal d"

lemma decimal_cases:
  assumes "n < 1000"
  obtains "n < 10" and "decimal n = [char_of (48 + n)]"
  | d e where "0 < d" "d < 10" "e < 10" "n = d * 10 + e"
      and "decimal n = [char_of (48 + d), char_of (48 + e)]"
  | d e f where "0 < d" "d < 10" "e < 10" "f < 10" "n = (d * 10 + e) * 10 + f"
      and "decimal n = [char_of (48 + d), char_of (48 + e), char_of (48 + f)]"
proof -
  consider "n < 10" | "10 \<le> n" "n < 100" | "100 \<le> n" "n < 1000" using assms by linarith
  then show ?thesis
  proof cases
    case 1
    then show ?thesis using that(1) by (simp add: decimal.simps)
  next
    case 2
    then show ?thesis
      using that(2) [of "n div 10" "n mod 10"]
      by (simp add: decimal.simps [of n] decimal.simps [of "n div 10"])
  next
    case 3
    then have "n div 10 div 10 < 10" "0 < n div 10 div 10" "10 \<le> n div 10" by auto
    with 3 show ?thesis
      using that(3) [of "n div 10 div 10" "n div 10 mod 10" "n mod 10"]
      by (simp add: decimal.simps [of n] decimal.simps [of "n div 10"]
          decimal.simps [of "n div 10 div 10"])
  qed
qed

lemma zero_char:
  fixes d :: nat
  assumes "d < 10"
  shows "char_of (48 + d) = CHR ''0'' \<longleftrightarrow> d = 0"
proof
  assume "char_of (48 + d) = CHR ''0''"
  then have "ascii (char_of (48 + d)) = ascii CHR ''0''" by simp
  with assms show "d = 0" by simp
next
  assume "d = 0"
  moreover have "char_of (ascii CHR ''0'') = CHR ''0''" by (rule char_of_char)
  ultimately show "char_of (48 + d) = CHR ''0''" by simp
qed

text \<open>What a digit reader accepts.\<close>

lemma read_digits_Some:
  assumes "read_digits radix lim most n v s = Some ((m, v'), rest)"
  shows "\<exists>ds. s = ds @ rest \<and> m = n + length ds \<and> (ds \<noteq> [] \<longrightarrow> m \<le> most \<and> v' \<le> lim) \<and>
    (\<forall>c\<in>set ds. to_digit radix c \<noteq> None) \<and>
    v' = foldl (\<lambda>v c. v * radix + the (to_digit radix c)) v ds"
  using assms
proof (induction radix lim most n v s rule: read_digits.induct)
  case (2 radix lim most n v c cs)
  show ?case
  proof (cases "to_digit radix c")
    case None
    with 2 show ?thesis by simp
  next
    case (Some d)
    with 2(2) have small: "\<not> (lim < v * radix + d \<or> most < n + 1)"
      and "read_digits radix lim most (n + 1) (v * radix + d) cs = Some ((m, v'), rest)"
      by (auto split: if_splits)
    from 2(1) [OF Some this] obtain ds where "cs = ds @ rest" "m = n + 1 + length ds"
      "ds \<noteq> [] \<longrightarrow> m \<le> most \<and> v' \<le> lim" "\<forall>c\<in>set ds. to_digit radix c \<noteq> None"
      "v' = foldl (\<lambda>v c. v * radix + the (to_digit radix c)) (v * radix + d) ds"
      by blast
    with Some small show ?thesis by (intro exI [of _ "c # ds"]) auto
  qed
qed simp

lemma read_octet_decimal:
  assumes "n \<le> 255" and "rest = [] \<or> to_digit 10 (hd rest) = None"
  shows "read_octet (decimal n @ rest) = Some (n, rest)"
proof -
  have stop: "read_digits 10 255 3 k v rest = Some ((k, v), rest)" for k v
    using assms(2) by (cases rest) auto
  from assms(1) have "n < 1000" by simp
  then show ?thesis
    by (cases rule: decimal_cases)
      (use assms(1) in \<open>simp_all add: read_octet_def read_number_def to_digit_char stop zero_char\<close>)
qed

lemma read_octet_Some:
  assumes "read_octet s = Some (n, rest)"
  shows "n \<le> 255 \<and> s = decimal n @ rest"
proof -
  from assms obtain m where m: "read_digits 10 255 3 0 0 s = Some ((m, n), rest)" "m \<noteq> 0"
    "take 1 s = ''0'' \<longrightarrow> m = 1"
    by (auto simp: read_octet_def read_number_def split: option.splits if_splits)
  from read_digits_Some [OF m(1)] m(2) obtain ds where ds: "s = ds @ rest" "m = length ds"
    "m \<le> 3" "n \<le> 255" "\<forall>c\<in>set ds. to_digit 10 c \<noteq> None"
    "n = foldl (\<lambda>v c. v * 10 + the (to_digit 10 c)) 0 ds"
    by auto
  have "length ds = 1 \<or> length ds = 2 \<or> length ds = 3" using ds(2,3) m(2) by linarith
  then consider x where "ds = [x]" | x y where "ds = [x, y]" | x y z where "ds = [x, y, z]"
    by (auto simp: length_Suc_conv eval_nat_numeral)
  then have "ds = decimal n"
  proof cases
    case (1 x)
    with ds(5,6) to_digit_10 [of x] show ?thesis by (auto simp: decimal.simps)
  next
    case (2 x y)
    with ds(5) obtain d e where de: "to_digit 10 x = Some d" "to_digit 10 y = Some e" by auto
    note c = to_digit_10 [OF de(1)] to_digit_10 [OF de(2)]
    from 2 ds(1,2) m(3) c have "d \<noteq> 0" by (auto simp: zero_char)
    with c have "decimal (d * 10 + e) = [x, y]" by (simp add: decimal_step decimal_digit)
    moreover from 2 de ds(6) have "n = d * 10 + e" by simp
    ultimately show ?thesis using 2 by simp
  next
    case (3 x y z)
    with ds(5) obtain d e f where de: "to_digit 10 x = Some d" "to_digit 10 y = Some e"
      "to_digit 10 z = Some f" by auto
    note c = to_digit_10 [OF de(1)] to_digit_10 [OF de(2)] to_digit_10 [OF de(3)]
    from 3 ds(1,2) m(3) c have "d \<noteq> 0" by (auto simp: zero_char)
    with c have "decimal ((d * 10 + e) * 10 + f) = [x, y, z]"
      using decimal_step [of "d * 10 + e" f] by (simp add: decimal_step decimal_digit)
    moreover from 3 de ds(6) have "n = (d * 10 + e) * 10 + f" by simp
    ultimately show ?thesis using 3 by simp
  qed
  with ds(1,4) show ?thesis by simp
qed

lemma dot_not_digit [simp]: "to_digit 10 CHR ''.'' = None"
  by (simp add: to_digit_def)

lemma read_ipv4_dotted:
  assumes "a \<le> 255" "b \<le> 255" "c \<le> 255" "d \<le> 255"
    and "rest = [] \<or> to_digit 10 (hd rest) = None"
  shows "read_ipv4 (dotted a b c d @ rest) = Some ((a, b, c, d), rest)"
  using assms by (simp add: read_ipv4_def dotted_def read_separator_def read_octet_decimal)

lemma read_given_char_Some:
  "read_given_char c s = Some (u, rest) \<longleftrightarrow> s = c # rest"
  by (cases s) auto

lemma read_ipv4_Some:
  assumes "read_ipv4 s = Some ((a, b, c, d), rest)"
  shows "a \<le> 255 \<and> b \<le> 255 \<and> c \<le> 255 \<and> d \<le> 255 \<and> s = dotted a b c d @ rest"
  using assms
  by (auto simp: read_ipv4_def read_separator_def dotted_def read_given_char_Some
      split: option.splits dest!: read_octet_Some)

section \<open>An IPv6 address has a colon\<close>

lemma read_number_suffix: "read_number radix lim most z s = Some (v, rest) \<Longrightarrow> suffix rest s"
  by (auto simp: read_number_def suffix_def split: option.splits if_splits dest!: read_digits_Some)

lemma read_separator_suffix:
  assumes "read_separator sep i inner s = Some (v, rest)"
    and "\<And>s v rest. inner s = Some (v, rest) \<Longrightarrow> suffix rest s"
  shows "suffix rest s"
  using assms(1)
  by (auto simp: read_separator_def read_given_char_Some split: if_splits option.splits
      intro!: suffix_ConsI dest: assms(2))

lemma read_ipv4_suffix: "read_ipv4 s = Some (q, rest) \<Longrightarrow> suffix rest s"
  by (cases q) (auto simp: suffix_def dest!: read_ipv4_Some)

lemma read_groups_suffix: "read_groups limit i s = (gs, v4, rest) \<Longrightarrow> suffix rest s"
proof (induction "limit - i" arbitrary: i s gs v4 rest)
  case 0
  then show ?case by (subst (asm) read_groups.simps) simp
next
  case (Suc n)
  have v4: "suffix r s" if "read_separator CHR '':'' i read_ipv4 s = Some (q, r)" for q r
    using that by (rule read_separator_suffix) (rule read_ipv4_suffix)
  have group: "suffix r s" if "read_separator CHR '':'' i read_group s = Some (g, r)" for g r
    using that by (rule read_separator_suffix) (auto simp: read_group_def intro: read_number_suffix)
  have rec: "suffix r' r" if "read_groups limit (Suc i) r = (gs', b, r')" for r gs' b r'
    using Suc.hyps(2) that by (intro Suc.hyps(1)) auto
  from Suc.prems show ?case
    by (subst (asm) read_groups.simps)
      (auto split: if_splits option.splits prod.splits dest: v4 group rec intro: suffix_order.trans)
qed

lemma read_groups_colon:
  assumes "read_groups limit i s = (gs, v4, rest)" and "0 < i" and "gs \<noteq> []"
  shows "CHR '':'' \<in> set s"
  using assms
  by (subst (asm) read_groups.simps)
    (auto simp: read_separator_def read_given_char_Some split: if_splits option.splits prod.splits)

lemma read_groups_full_colon:
  assumes "read_groups 8 0 s = (gs, v4, rest)" and "length gs = 8"
  shows "CHR '':'' \<in> set s"
proof -
  obtain g r gs' v4' r' where g: "read_group s = Some (g, r)"
    and more: "read_groups 8 1 r = (gs', v4', r')" and "gs = g # gs'"
    using assms
    by (subst (asm) read_groups.simps)
      (auto simp: read_separator_def split: option.splits prod.splits)
  with assms(2) have "gs' \<noteq> []" by auto
  with read_groups_colon [OF more] have "CHR '':'' \<in> set r" by simp
  with read_number_suffix [of 16 65535 4 True s g r] g show ?thesis
    by (auto simp: read_group_def suffix_def)
qed

lemma read_ipv6_colon:
  assumes "read_ipv6 s = Some (gs, rest)"
  shows "CHR '':'' \<in> set s"
proof -
  obtain head v4 r where r: "read_groups 8 0 s = (head, v4, r)"
    by (cases "read_groups 8 0 s")
  from read_groups_suffix [OF r] have "set r \<subseteq> set s" by (auto simp: suffix_def)
  moreover have "length head = 8 \<or> CHR '':'' \<in> set r"
    using assms r
    by (auto simp: read_ipv6_def read_given_char_Some split: if_splits option.splits prod.splits)
  ultimately show ?thesis using read_groups_full_colon [OF r] by blast
qed

text \<open>Without a colon, the literals that parse are exactly the dotted quads.\<close>

lemma parse_ip_no_colon:
  assumes "CHR '':'' \<notin> set s"
  shows "parse_ip s = Some ip \<longleftrightarrow>
    (\<exists>a b c d. ip = V4 a b c d \<and> s = dotted a b c d \<and> a \<le> 255 \<and> b \<le> 255 \<and> c \<le> 255 \<and> d \<le> 255)"
proof
  assume p: "parse_ip s = Some ip"
  have "read_ipv6 s = None"
    using assms read_ipv6_colon [of s] by (cases "read_ipv6 s") auto
  with p obtain a b c d where "read_ipv4 s = Some ((a, b, c, d), [])" and "ip = V4 a b c d"
    by (auto simp: parse_ip_def split: option.splits if_splits)
  with read_ipv4_Some [of s a b c d "[]"]
  show "\<exists>a b c d. ip = V4 a b c d \<and> s = dotted a b c d \<and> a \<le> 255 \<and> b \<le> 255 \<and> c \<le> 255 \<and> d \<le> 255"
    by auto
next
  assume "\<exists>a b c d. ip = V4 a b c d \<and> s = dotted a b c d \<and> a \<le> 255 \<and> b \<le> 255 \<and> c \<le> 255 \<and> d \<le> 255"
  then show "parse_ip s = Some ip"
    using read_ipv4_dotted [of _ _ _ _ "[]"] by (auto simp: parse_ip_def)
qed

end
