(* ===== verification/Http.thy ===== *)
theory Http
  imports Prelude "HOL-Library.AList"
begin

text \<open>
  What the HTTP side of the broker is written in: JSON values with the accessors of
  \<^verbatim>\<open>serde_json::Value\<close> the source calls, and responses. A number is an unsigned 64-bit
  integer, a negative integer or a fraction (kept as its text: the broker never computes with
  one), as in serde_json. An object is a list of its entries with distinct keys; the broker
  never depends on their order.
\<close>

section \<open>JSON\<close>

datatype json =
    Null
  | Bool bool
  | Unsigned u64
  | Negative int
  | Fraction string
  | Str string
  | Arr "json list"
  | Obj "(string \<times> json) list"

text \<open>\<^verbatim>\<open>Value::get\<close> with a key: nothing on anything but an object.\<close>

fun json_get :: "string \<Rightarrow> json \<Rightarrow> json option" where
  "json_get k (Obj es) = map_of es k"
| "json_get k _ = None"

fun as_str :: "json \<Rightarrow> string option" where
  "as_str (Str s) = Some s"
| "as_str _ = None"

fun as_u64 :: "json \<Rightarrow> u64 option" where
  "as_u64 (Unsigned n) = Some n"
| "as_u64 _ = None"

fun as_bool :: "json \<Rightarrow> bool option" where
  "as_bool (Bool b) = Some b"
| "as_bool _ = None"

fun as_array :: "json \<Rightarrow> json list option" where
  "as_array (Arr xs) = Some xs"
| "as_array _ = None"

text \<open>
  \<^verbatim>\<open>Map::insert\<close> and \<^verbatim>\<open>Map::remove\<close> behind \<^verbatim>\<open>as_object_mut\<close>; both leave anything but an
  object alone.
\<close>

fun json_insert :: "string \<Rightarrow> json \<Rightarrow> json \<Rightarrow> json" where
  "json_insert k v (Obj es) = Obj (AList.update k v es)"
| "json_insert k v j = j"

fun json_remove :: "string \<Rightarrow> json \<Rightarrow> json option \<times> json" where
  "json_remove k (Obj es) = (map_of es k, Obj (AList.delete k es))"
| "json_remove k j = (None, j)"

lemma json_get_insert:
  "json_get k (json_insert k' v j) =
     (case j of Obj es \<Rightarrow> if k = k' then Some v else json_get k j | _ \<Rightarrow> None)"
  by (cases j) (auto simp: update_conv')

lemma json_get_remove:
  "json_get k (snd (json_remove k' j)) = (if k = k' then None else json_get k j)"
  by (cases j) (auto simp: delete_conv')

section \<open>Responses\<close>

text \<open>A response without a body has the body \<open>Null\<close>.\<close>

record response =
  resp_status :: nat
  resp_body :: json

definition error_body :: "string \<Rightarrow> json" where
  "error_body msg = Obj [(''error'', Str msg)]"

end
