(* ===== verification/Host_Guard.thy ===== *)
theory Host_Guard
  imports Ip_Addr Http
begin

text \<open>
  The \<^verbatim>\<open>Host\<close> header check against DNS rebinding (src/src/host_guard.rs): which header
  values pass, and the middleware that answers 421 to all others.
\<close>

section \<open>The check\<close>

definition strip_port :: "string \<Rightarrow> string" where
  "strip_port host =
     (case strip_prefix CHR ''['' host of
        Some rest \<Rightarrow> split_first CHR '']'' rest
      | None \<Rightarrow>
          (case rsplit_once CHR '':'' host of
             Some (h, port) \<Rightarrow> if port \<noteq> [] \<and> list_all is_ascii_digit port then h else host
           | None \<Rightarrow> host))"

definition is_loopback_host :: "string \<Rightarrow> bool" where
  "is_loopback_host host \<longleftrightarrow>
     (if eq_ignore_ascii_case host ''localhost'' then True
      else (case parse_ip host of None \<Rightarrow> False | Some ip \<Rightarrow> is_loopback ip))"

definition host_is_allowed :: "string \<Rightarrow> string list \<Rightarrow> bool" where
  "host_is_allowed host_header extra_allowed_hosts \<longleftrightarrow>
     (let host = strip_port host_header
      in if is_loopback_host host then True
         else list_ex (\<lambda>allowed. eq_ignore_ascii_case allowed host) extra_allowed_hosts)"

text \<open>
  The middleware. \<open>host_header\<close> is \<^verbatim>\<open>None\<close> when there is no such header or it is not
  visible ASCII; \<open>next\<close> is the rest of the service.
\<close>

definition misdirected :: response where
  "misdirected =
     \<lparr>resp_status = 421,
      resp_body = error_body ''Host header not allowed: this broker only serves loopback requests''\<rparr>"

definition enforce_allowed_host ::
  "(response \<Rightarrow> 'r) \<Rightarrow> string list \<Rightarrow> string option \<Rightarrow> ('s \<Rightarrow> 'r \<times> 's) \<Rightarrow> 's \<Rightarrow> 'r \<times> 's" where
  "enforce_allowed_host into_response allowed_hosts host_header next s =
     (case host_header of
        Some host \<Rightarrow>
          if host_is_allowed host allowed_hosts then next s else (into_response misdirected, s)
      | None \<Rightarrow> (into_response misdirected, s))"

lemmas host_defs [eval_simps] =
  strip_port_def is_loopback_host_def host_is_allowed_def misdirected_def
  enforce_allowed_host_def

section \<open>Port stripping\<close>

lemma strip_port_name:
  assumes "CHR '':'' \<notin> set name" and "take 1 name \<noteq> ''[''"
  shows "strip_port name = name"
proof -
  have "rsplit_once CHR '':'' name = None" using assms(1) by (simp add: rsplit_once_None)
  moreover have "strip_prefix CHR ''['' name = None" using assms(2) by (simp add: strip_prefix_None)
  ultimately show ?thesis by (simp add: strip_port_def)
qed

lemma strip_port_port:
  assumes "take 1 name \<noteq> ''[''" and "port \<noteq> []" and "list_all is_ascii_digit port"
  shows "strip_port (name @ '':'' @ port) = name"
proof -
  have "rsplit_once CHR '':'' (name @ '':'' @ port) = Some (name, port)"
    using rsplit_once_append [OF digit_not_colon [OF assms(3)]] by simp
  moreover have "strip_prefix CHR ''['' (name @ '':'' @ port) = None"
    using assms(1) by (cases name) auto
  ultimately show ?thesis using assms(2,3) by (simp add: strip_port_def)
qed

text \<open>A loopback name without a colon is \<^verbatim>\<open>localhost\<close> or a quad that starts with 127.\<close>

lemma loopback_no_colon:
  assumes "CHR '':'' \<notin> set host"
  shows "is_loopback_host host \<longleftrightarrow>
    eq_ignore_ascii_case host ''localhost'' \<or>
    (\<exists>b c d. b \<le> 255 \<and> c \<le> 255 \<and> d \<le> 255 \<and> host = dotted 127 b c d)"
proof -
  have "(case parse_ip host of None \<Rightarrow> False | Some ip \<Rightarrow> is_loopback ip) \<longleftrightarrow>
    (\<exists>b c d. b \<le> 255 \<and> c \<le> 255 \<and> d \<le> 255 \<and> host = dotted 127 b c d)" (is "?L \<longleftrightarrow> ?R")
  proof
    assume ?L
    then obtain ip where "parse_ip host = Some ip" and "is_loopback ip"
      by (auto split: option.splits)
    with parse_ip_no_colon [OF assms, of ip]
    obtain b c d where "b \<le> 255" "c \<le> 255" "d \<le> 255" "host = dotted 127 b c d" by auto
    then show ?R by blast
  next
    assume ?R
    then obtain b c d where "parse_ip host = Some (V4 127 b c d)"
      using parse_ip_no_colon [OF assms] by auto
    then show ?L by simp
  qed
  then show ?thesis by (simp add: is_loopback_host_def)
qed

lemma allowed_name:
  assumes "CHR '':'' \<notin> set name" and "take 1 name \<noteq> ''[''"
    and "rest = [] \<or> (\<exists>port. rest = '':'' @ port \<and> port \<noteq> [] \<and> list_all is_ascii_digit port)"
  shows "host_is_allowed (name @ rest) extra \<longleftrightarrow>
    eq_ignore_ascii_case name ''localhost'' \<or>
    (\<exists>b c d. b \<le> 255 \<and> c \<le> 255 \<and> d \<le> 255 \<and> name = dotted 127 b c d) \<or>
    (\<exists>e\<in>set extra. eq_ignore_ascii_case e name)"
proof -
  have "strip_port (name @ rest) = name"
    using assms strip_port_name strip_port_port by auto
  then show ?thesis
    by (auto simp: host_is_allowed_def loopback_no_colon [OF assms(1)] list_ex_iff)
qed

text \<open>
  C37: Which hosts pass. A \<^verbatim>\<open>Host\<close> value that is a name without brackets or colons, with or
  without a port, is allowed exactly when the name is \<^verbatim>\<open>localhost\<close> in any case, a dotted quad
  of 127.0.0.0/8 in canonical decimal notation, or one of the configured hosts in any case.
  So no domain an attacker can own passes, whatever it resolves to.
\<close>

theorem host_allowed_iff:
  assumes "CHR '':'' \<notin> set name" and "take 1 name \<noteq> ''[''"
    and "rest = [] \<or> (\<exists>port. rest = '':'' @ port \<and> port \<noteq> [] \<and> list_all is_ascii_digit port)"
  shows "host_is_allowed (name @ rest) extra \<longleftrightarrow>
    eq_ignore_ascii_case name ''localhost'' \<or>
    (\<exists>b c d. b \<le> 255 \<and> c \<le> 255 \<and> d \<le> 255 \<and> name = dotted 127 b c d) \<or>
    (\<exists>e\<in>set extra. eq_ignore_ascii_case e name)"
  using assms by (rule allowed_name)

lemma decimal_evil: "dotted 127 b c d \<noteq> ''evil.example''"
proof
  have "decimal 127 = ''127''" by code_simp
  moreover assume "dotted 127 b c d = ''evil.example''"
  ultimately show False by (simp add: dotted_def)
qed

lemma host_allowed_iff_witness:
  "host_is_allowed ''evil.example:8899'' [] = False"
proof -
  have port: "'':8899'' = [] \<or> (\<exists>port. '':8899'' = '':'' @ port \<and> port \<noteq> [] \<and> list_all is_ascii_digit port)"
    by (simp add: is_ascii_digit_def)
  have "CHR '':'' \<notin> set ''evil.example''" and "take 1 ''evil.example'' \<noteq> ''[''" by simp_all
  from host_allowed_iff [OF this port, of "[]"] show ?thesis
    by (simp add: decimal_evil [symmetric] eq_ignore_ascii_case_def)
qed

text \<open>
  C38: The address forms. \<^verbatim>\<open>[::1]\<close> passes with or without a port, other IPv6 addresses do
  not; whatever follows the closing bracket is ignored, port or not. An IPv6 literal without
  brackets is split at its last colon like a port, so that a bare \<^verbatim>\<open>::1\<close> is read as the name
  \<^verbatim>\<open>:\<close> and refused.
\<close>

theorem bracketed_hosts:
  "host_is_allowed (''[::1]'' @ anything) extra \<and>
   \<not> host_is_allowed (''[::2]'' @ anything) [] \<and>
   strip_port ''::1'' = '':'' \<and> \<not> host_is_allowed ''::1'' []"
proof -
  have "strip_port (''[::1]'' @ anything) = ''::1''" "strip_port (''[::2]'' @ anything) = ''::2''"
    by (simp_all add: strip_port_def split_first_def)
  moreover have "is_loopback_host ''::1''" "\<not> is_loopback_host ''::2''"
    by (simp_all add: eval_simps)
  ultimately have "host_is_allowed (''[::1]'' @ anything) extra"
    and "\<not> host_is_allowed (''[::2]'' @ anything) []"
    by (simp_all add: host_is_allowed_def)
  moreover have "strip_port ''::1'' = '':''" "\<not> host_is_allowed ''::1'' []"
    by (simp_all add: eval_simps)
  ultimately show ?thesis by simp
qed

end
