(* ===== verification/Llama_Client.thy ===== *)
theory Llama_Client
  imports Http Text Slot_Pool
begin

text \<open>
  What the broker reads from llama-server (src/src/llama_client.rs): the slot list and the
  model list, from the JSON body of a response, and how the scheduler is seeded from the
  first.
\<close>

section \<open>Fetching\<close>

datatype llama_error = Request | Parse

text \<open>
  The outcome of sending a request and reading a JSON body: a transport error, or a status
  and, if the body parses, its value. \<open>json_body\<close> is \<^verbatim>\<open>send\<close>, \<^verbatim>\<open>error_for_status\<close> (an
  error for 400 and above) and \<^verbatim>\<open>json\<close> in sequence, each of whose errors becomes
  \<^verbatim>\<open>LlamaClientError::Request\<close>.
\<close>

datatype 'b reply = Unreachable | Reply nat "'b option"

fun json_body :: "json reply \<Rightarrow> llama_error + json" where
  "json_body Unreachable = Inl Request"
| "json_body (Reply code b) =
     (if 400 \<le> code \<and> code \<le> 599 then Inl Request
      else (case b of None \<Rightarrow> Inl Request | Some j \<Rightarrow> Inr j))"

text \<open>\<^verbatim>\<open>collect\<close> into an option, and the \<^verbatim>\<open>?\<close> of a loop that pushes onto a vector.\<close>

fun collect :: "'a option list \<Rightarrow> 'a list option" where
  "collect [] = Some []"
| "collect (x # xs) =
     (case x of None \<Rightarrow> None
      | Some y \<Rightarrow> (case collect xs of None \<Rightarrow> None | Some ys \<Rightarrow> Some (y # ys)))"

section \<open>Slots\<close>

record llama_slot =
  llama_slot_id :: u32
  is_processing :: bool

text \<open>\<^verbatim>\<open>as u32\<close> keeps the low 32 bits.\<close>

definition parse_slot :: "json \<Rightarrow> llama_slot option" where
  "parse_slot v =
     (case Option.bind (json_get ''id'' v) as_u64 of None \<Rightarrow> None | Some n \<Rightarrow>
      (case Option.bind (json_get ''is_processing'' v) as_bool of None \<Rightarrow> None | Some b \<Rightarrow>
         Some \<lparr>llama_slot_id = ucast n, is_processing = b\<rparr>))"

definition parse_slots :: "json \<Rightarrow> llama_slot list option" where
  "parse_slots j =
     (case as_array j of None \<Rightarrow> None | Some arr \<Rightarrow> collect (map parse_slot arr))"

definition fetch_slots :: "json reply \<Rightarrow> llama_error + llama_slot list" where
  "fetch_slots r =
     (case json_body r of
        Inl e \<Rightarrow> Inl e
      | Inr j \<Rightarrow> (case parse_slots j of None \<Rightarrow> Inl Parse | Some ss \<Rightarrow> Inr ss))"

section \<open>Models\<close>

record loaded_model =
  model_name :: string
  loaded :: bool

text \<open>\<open>None\<close>: no \<^verbatim>\<open>Some\<close>-able entry; \<open>Some None\<close>: an entry that is skipped.\<close>

definition parse_model :: "json \<Rightarrow> loaded_model option option" where
  "parse_model m =
     (case Option.bind (json_get ''id'' m) as_str of None \<Rightarrow> None | Some i \<Rightarrow>
      (case Option.bind (Option.bind (json_get ''status'' m) (json_get ''value'')) as_str of
         None \<Rightarrow> Some (Some \<lparr>model_name = i, loaded = True\<rparr>)
       | Some s \<Rightarrow>
           (if s = ''loaded'' \<or> s = ''loading'' then Some (Some \<lparr>model_name = i, loaded = True\<rparr>)
            else if s = ''unloaded'' \<or> s = ''sleeping'' then Some (Some \<lparr>model_name = i, loaded = False\<rparr>)
            else Some None)))"

definition parse_models :: "json \<Rightarrow> loaded_model list option" where
  "parse_models j =
     (case Option.bind (json_get ''data'' j) as_array of None \<Rightarrow> None | Some arr \<Rightarrow>
      (case collect (map parse_model arr) of None \<Rightarrow> None
       | Some ms \<Rightarrow> Some (List.map_filter (\<lambda>m. m) ms)))"

definition fetch_models :: "json reply \<Rightarrow> llama_error + loaded_model list" where
  "fetch_models r =
     (case json_body r of
        Inl e \<Rightarrow> Inl e
      | Inr j \<Rightarrow> (case parse_models j of None \<Rightarrow> Inl Parse | Some ms \<Rightarrow> Inr ms))"

lemmas llama_defs [eval_simps] =
  parse_slot_def parse_slots_def fetch_slots_def parse_model_def parse_models_def fetch_models_def
  List.map_filter_simps

section \<open>Where the requests go\<close>

text \<open>
  \<open>net\<close> answers a request by its method and URL. The base URL of the configuration may end in
  slashes.
\<close>

definition slots_url :: "string \<Rightarrow> string" where
  "slots_url base = trim_end_matches CHR ''/'' base @ ''/slots''"

definition models_url :: "string \<Rightarrow> string" where
  "models_url base = trim_end_matches CHR ''/'' base @ ''/models''"

definition get_slots :: "(string \<Rightarrow> string \<Rightarrow> json reply) \<Rightarrow> string \<Rightarrow> llama_error + llama_slot list" where
  "get_slots net base = fetch_slots (net ''GET'' (slots_url base))"

definition get_models :: "(string \<Rightarrow> string \<Rightarrow> json reply) \<Rightarrow> string \<Rightarrow> llama_error + loaded_model list" where
  "get_models net base = fetch_models (net ''GET'' (models_url base))"

lemmas url_defs [eval_simps] = slots_url_def models_url_def get_slots_def get_models_def

lemma urls_ignore_slashes:
  "get_slots net (base @ replicate n CHR ''/'') = get_slots net base"
  "get_models net (base @ replicate n CHR ''/'') = get_models net base"
  by (simp_all add: url_defs trim_end_matches_replicate)

lemma urls_append:
  "base = [] \<or> last base \<noteq> CHR ''/'' \<Longrightarrow> slots_url base = base @ ''/slots''"
  "base = [] \<or> last base \<noteq> CHR ''/'' \<Longrightarrow> models_url base = base @ ''/models''"
  by (simp_all add: url_defs trim_end_matches_id)

section \<open>Seeding the scheduler\<close>

definition seed_slots :: "llama_slot list \<Rightarrow> inner \<Rightarrow> inner" where
  "seed_slots ss st = fold (\<lambda>s st. if is_processing s then seed_busy (llama_slot_id s) st else st) ss st"

definition seed_scheduler_from_llama_server ::
  "json reply \<Rightarrow> inner \<Rightarrow> (llama_error + u32) \<times> inner" where
  "seed_scheduler_from_llama_server r st =
     (case fetch_slots r of
        Inl e \<Rightarrow> (Inl e, st)
      | Inr ss \<Rightarrow> (Inr (of_nat (length ss)), seed_slots ss st))"

section \<open>What is parsed\<close>

lemma collect_Some:
  "collect xs = Some ys \<longleftrightarrow> xs = map Some ys"
proof (induction xs arbitrary: ys)
  case (Cons x xs)
  then show ?case by (cases x; cases ys; cases "collect xs") auto
qed auto

lemma collect_None: "collect xs = None \<longleftrightarrow> None \<in> set xs"
  by (induction xs) (auto split: option.splits)

text \<open>
  C39: The slot list is all or nothing. Parsing succeeds exactly on an array whose every entry
  has an unsigned \<^verbatim>\<open>id\<close> and a Boolean \<^verbatim>\<open>is_processing\<close>, and then returns one slot per entry, in
  order, whatever other fields there are; one bad entry fails the whole list. The slot
  number is the id modulo 2 to the 32, so ids that differ by that much are confused.
\<close>

theorem parse_slots_exact:
  "parse_slots j = Some ss \<longleftrightarrow>
     (\<exists>arr. j = Arr arr \<and> length arr = length ss \<and>
        list_all2 (\<lambda>v s. \<exists>n. Option.bind (json_get ''id'' v) as_u64 = Some n \<and>
            Option.bind (json_get ''is_processing'' v) as_bool = Some (is_processing s) \<and>
            unat (llama_slot_id s) = unat n mod 2 ^ 32) arr ss)"
proof -
  have entry: "parse_slot v = Some s \<longleftrightarrow>
      (\<exists>n. Option.bind (json_get ''id'' v) as_u64 = Some n \<and>
        Option.bind (json_get ''is_processing'' v) as_bool = Some (is_processing s) \<and>
        unat (llama_slot_id s) = unat n mod 2 ^ 32)" for v s
  proof -
    have "ucast n = llama_slot_id s \<longleftrightarrow> unat (llama_slot_id s) = unat n mod 2 ^ 32" for n :: u64
      by (simp add: word_unat_eq_iff unsigned_ucast_eq take_bit_eq_mod eq_commute)
    then show ?thesis by (cases s) (auto simp: parse_slot_def split: option.splits)
  qed
  have "map parse_slot arr = map Some ss \<longleftrightarrow>
      length arr = length ss \<and> list_all2 (\<lambda>v s. parse_slot v = Some s) arr ss" for arr
    by (auto simp: list_all2_conv_all_nth list_eq_iff_nth_eq)
  then show ?thesis
    by (cases j) (simp_all add: parse_slots_def collect_Some entry)
qed

section \<open>Seeding\<close>

lemma pool_seed_busy: "pool (seed_busy k st) = pool_set k Seeded (pool st)"
  by (simp add: seed_busy_def pool_update_slot status_of_def pool_set_beyond)

lemma length_seed_slots: "length (slots (seed_slots ss st)) = length (slots st)"
  unfolding seed_slots_def
  by (induction ss arbitrary: st) (simp_all add: seed_busy_def frame_simps)

lemma pool_seed_slots:
  "k < length (slots st) \<Longrightarrow> pool (seed_slots ss st) ! k =
     (if \<exists>s\<in>set ss. is_processing s \<and> unat (llama_slot_id s) = k then Seeded else pool st ! k)"
proof (induction ss arbitrary: st)
  case (Cons s ss)
  let ?st = "if is_processing s then seed_busy (llama_slot_id s) st else st"
  have step: "seed_slots (s # ss) st = seed_slots ss ?st" by (simp add: seed_slots_def)
  have "length (slots ?st) = length (slots st)" by (simp add: seed_busy_def frame_simps)
  with Cons have "pool (seed_slots ss ?st) ! k =
      (if \<exists>s\<in>set ss. is_processing s \<and> unat (llama_slot_id s) = k then Seeded else pool ?st ! k)"
    by simp
  moreover have "pool ?st ! k =
      (if is_processing s \<and> unat (llama_slot_id s) = k then Seeded else pool st ! k)"
    using Cons.prems by (simp add: pool_seed_busy pool_set_def nth_list_update)
  ultimately show ?case unfolding step by auto
qed (simp add: seed_slots_def)

text \<open>
  Restart recovery. Seeding a new scheduler from a readable slot list marks exactly the
  slots in use as occupied from before the start and leaves the others free, and reports how
  many slots were listed; from an unreadable reply it changes nothing and reports the error.
\<close>

lemma seeding_exact:
  assumes "seed_scheduler_from_llama_server r (new_scheduler n) = (res, st)"
  shows "case fetch_slots r of
      Inl e \<Rightarrow> res = Inl e \<and> st = new_scheduler n
    | Inr ss \<Rightarrow> res = Inr (of_nat (length ss)) \<and> length (pool st) = unat n \<and>
        list_all (\<lambda>k. pool st ! k =
          (if \<exists>s\<in>set ss. is_processing s \<and> unat (llama_slot_id s) = k then Seeded else Free))
          [0..<unat n]"
proof (cases "fetch_slots r")
  case (Inr ss)
  have "pool (new_scheduler n) ! k = Free" if "k < unat n" for k
    using that by (simp add: pool_def new_scheduler_def default_slot_def status_of_def)
  with Inr assms show ?thesis
    by (auto simp: seed_scheduler_from_llama_server_def list_all_iff pool_seed_slots
        length_seed_slots new_scheduler_def)
qed (use assms in \<open>simp add: seed_scheduler_from_llama_server_def\<close>)

definition demo_slots :: json where
  "demo_slots =
     Arr [Obj [(''id'', Unsigned 0), (''n_ctx'', Unsigned 8192), (''is_processing'', Bool True)],
          Obj [(''id'', Unsigned 1), (''is_processing'', Bool False)]]"

lemma seeding_exact_witness:
  "fst (seed_scheduler_from_llama_server (Reply 200 (Some demo_slots)) (new_scheduler 2)) = Inr 2"
proof -
  have f: "fetch_slots (Reply 200 (Some demo_slots)) =
      Inr [\<lparr>llama_slot_id = 0, is_processing = True\<rparr>, \<lparr>llama_slot_id = 1, is_processing = False\<rparr>]"
    by (simp add: demo_slots_def eval_simps)
  show ?thesis
    using seeding_exact [OF prod.collapse [symmetric], of "Reply 200 (Some demo_slots)" 2]
    by (simp add: f)
qed

section \<open>Models\<close>

text \<open>
  The model list. An entry without a status, as a single-model server gives it, is a loaded
  model; a status of loading counts as loaded and one of sleeping as not loaded; entries with
  any other status are left out; the order is kept. One entry without a string id makes the
  whole list unreadable.
\<close>

lemma parse_models_rules:
  "parse_models (Obj [(''data'', Arr arr)]) =
     (if \<exists>m\<in>set arr. Option.bind (json_get ''id'' m) as_str = None then None
      else Some (concat (map (\<lambda>m.
        let name = the (Option.bind (json_get ''id'' m) as_str);
            state = Option.bind (Option.bind (json_get ''status'' m) (json_get ''value'')) as_str
        in if state \<in> {None, Some ''loaded'', Some ''loading''} then [\<lparr>model_name = name, loaded = True\<rparr>]
           else if state \<in> {Some ''unloaded'', Some ''sleeping''} then [\<lparr>model_name = name, loaded = False\<rparr>]
           else []) arr)))"
proof (induction arr)
  case Nil
  then show ?case by (simp add: parse_models_def List.map_filter_simps)
next
  case (Cons m arr)
  then show ?case
    by (cases "Option.bind (json_get ''id'' m) as_str";
        cases "Option.bind (Option.bind (json_get ''status'' m) (json_get ''value'')) as_str")
      (auto simp: parse_models_def parse_model_def List.map_filter_simps Let_def
        split: option.splits if_splits)
qed

end
