(* ===== verification/Gpu_Probe.thy ===== *)
theory Gpu_Probe
  imports Text
begin

text \<open>
  Reading the host's GPU memory (src/src/gpu.rs): the output of \<^verbatim>\<open>nvidia-smi\<close>, the files of
  the AMD driver, the choice between them, and the loop that runs a command under a deadline.
  Sizes are \<^verbatim>\<open>u64\<close> and their arithmetic wraps, as in a release build.
\<close>

section \<open>Data\<close>

definition mib :: u64 where
  "mib = 1024 * 1024"

record vram =
  total_bytes :: u64
  used_bytes :: u64

datatype vram_source = Auto | Nvidia | Amd | No_Source

definition parse_u64 :: "string \<Rightarrow> u64 option" where
  "parse_u64 s = map_option of_nat (parse_unsigned (2 ^ 64 - 1) s)"

section \<open>NVIDIA\<close>

definition parse_gpu_line :: "string \<Rightarrow> (u64 \<times> u64) option" where
  "parse_gpu_line line =
     (case split_once CHR '','' line of None \<Rightarrow> None | Some (tot, used) \<Rightarrow>
      (case parse_u64 (trim tot) of None \<Rightarrow> None | Some t \<Rightarrow>
      (case parse_u64 (trim used) of None \<Rightarrow> None | Some u \<Rightarrow> Some (t * mib, u * mib))))"

text \<open>The loop: \<open>None\<close> is an early return, \<open>Some v\<close> the accumulator so far.\<close>

fun sum_gpus :: "vram option \<Rightarrow> string list \<Rightarrow> vram option option" where
  "sum_gpus v [] = Some v"
| "sum_gpus v (line # ls) =
     (case parse_gpu_line line of
        None \<Rightarrow> None
      | Some (t, u) \<Rightarrow>
          (let sum = (case v of None \<Rightarrow> \<lparr>total_bytes = 0, used_bytes = 0\<rparr> | Some s \<Rightarrow> s)
           in sum_gpus (Some \<lparr>total_bytes = total_bytes sum + t, used_bytes = used_bytes sum + u\<rparr>) ls))"

definition parse_nvidia_smi :: "string \<Rightarrow> vram option" where
  "parse_nvidia_smi out =
     (case sum_gpus None (filter (\<lambda>l. trim l \<noteq> []) (lines out)) of None \<Rightarrow> None | Some v \<Rightarrow> v)"

section \<open>AMD\<close>

text \<open>
  An entry of the directory: its name and the contents of the two files under its
  \<^verbatim>\<open>device\<close> directory, where they can be read. The directory is \<open>None\<close> when it cannot be
  read; entries that cannot are not in the list.
\<close>

record drm_entry =
  entry_name :: string
  total_file :: "string option"
  used_file :: "string option"

definition read_u64 :: "string option \<Rightarrow> u64 option" where
  "read_u64 f = (case f of None \<Rightarrow> None | Some s \<Rightarrow> parse_u64 (trim s))"

definition is_card :: "string \<Rightarrow> bool" where
  "is_card name \<longleftrightarrow> take 4 name = ''card'' \<and> CHR ''-'' \<notin> set name"

definition card_vram :: "drm_entry \<Rightarrow> vram option" where
  "card_vram e =
     (case read_u64 (total_file e) of None \<Rightarrow> None | Some t \<Rightarrow>
      (case read_u64 (used_file e) of None \<Rightarrow> None | Some u \<Rightarrow>
         Some \<lparr>total_bytes = t, used_bytes = u\<rparr>))"

definition amd :: "drm_entry list option \<Rightarrow> vram option" where
  "amd root =
     (case root of
        None \<Rightarrow> None
      | Some es \<Rightarrow>
          max_by_key total_bytes
            (List.map_filter card_vram (filter (\<lambda>e. is_card (entry_name e)) es)))"

section \<open>The probe\<close>

text \<open>\<open>smi\<close> is the output of \<^verbatim>\<open>nvidia-smi\<close> under its deadline.\<close>

definition nvidia :: "string option \<Rightarrow> vram option" where
  "nvidia smi = (case smi of None \<Rightarrow> None | Some out \<Rightarrow> parse_nvidia_smi out)"

fun probe_vram :: "vram_source \<Rightarrow> string option \<Rightarrow> drm_entry list option \<Rightarrow> vram option" where
  "probe_vram No_Source smi root = None"
| "probe_vram Nvidia smi root = nvidia smi"
| "probe_vram Amd smi root = amd root"
| "probe_vram Auto smi root = (case nvidia smi of Some v \<Rightarrow> Some v | None \<Rightarrow> amd root)"

lemmas gpu_defs [eval_simps] =
  mib_def parse_u64_def parse_gpu_line_def parse_nvidia_smi_def read_u64_def is_card_def
  card_vram_def amd_def nvidia_def List.map_filter_simps

section \<open>A command under a deadline\<close>

text \<open>
  What the operating system answers: \<open>Exited b\<close> with the success of the exit status,
  \<open>Running\<close>, or an error of \<^verbatim>\<open>try_wait\<close>. The loop's \<open>i\<close>-th round sees \<open>try_wait i\<close> and, if
  it looks at the clock, the time \<open>clock i\<close>; a round that ends in a sleep is followed by the
  next. The loop may run forever if the clock stands still, so \<open>None\<close> is not returning.
  The result is the exit status, or \<open>None\<close> for a child that is to be killed, with the
  number of the last round.
\<close>

datatype wait_result = Exited bool | Running | Wait_Error

definition poll_interval :: duration where
  "poll_interval = from_millis 20"

definition nvidia_smi_timeout :: duration where
  "nvidia_smi_timeout = from_secs 2"

partial_function (option) wait_loop ::
  "(nat \<Rightarrow> wait_result) \<Rightarrow> (nat \<Rightarrow> instant) \<Rightarrow> instant \<Rightarrow> nat \<Rightarrow> (bool option \<times> nat) option" where
  "wait_loop try_wait clock deadline i =
     (case try_wait i of
        Exited success \<Rightarrow> Some (Some success, i)
      | Running \<Rightarrow>
          (if clock i < deadline then wait_loop try_wait clock deadline (i + 1)
           else Some (None, i))
      | Wait_Error \<Rightarrow> Some (None, i))"

text \<open>
  \<open>spawned\<close>: the command could be started. Two calls of the function block for as long as the
  system lets them: \<open>reaped\<close> says whether the \<^verbatim>\<open>wait\<close> for the killed child returns, which it
  does not for a child in uninterruptible sleep; \<open>stdout\<close> is what reading the output to its end
  gives, \<open>None\<close> if it never ends (another process has the pipe open), \<open>Some None\<close> if it fails.
  The result is \<open>None\<close> if the function does not return.
\<close>

definition run_with_deadline ::
  "bool \<Rightarrow> (nat \<Rightarrow> wait_result) \<Rightarrow> (nat \<Rightarrow> instant) \<Rightarrow> bool \<Rightarrow> string option option \<Rightarrow>
     instant \<Rightarrow> duration \<Rightarrow> string option option" where
  "run_with_deadline spawned try_wait clock reaped stdout started timeout =
     (if \<not> spawned then Some None
      else
        (case wait_loop try_wait clock (started + timeout) 0 of
           None \<Rightarrow> None
         | Some (None, _) \<Rightarrow> (if reaped then Some None else None)
         | Some (Some success, _) \<Rightarrow> (if success then stdout else Some None)))"

section \<open>What the parser reads\<close>

lemma digit_not_space: "48 \<le> ascii c \<and> ascii c \<le> 57 \<Longrightarrow> \<not> is_whitespace c"
  by (auto simp: is_whitespace_def)

lemma trim_decimal: "trim (decimal n) = decimal n"
proof -
  have keep: "dropWhile is_whitespace xs = xs" if "\<And>c. c \<in> set xs \<Longrightarrow> \<not> is_whitespace c" for xs
    using that by (cases xs) auto
  have "\<not> is_whitespace c" if "c \<in> set (decimal n)" for c
    using digit_not_space [OF decimal_digits [OF that]] .
  then have "dropWhile is_whitespace (decimal n) = decimal n"
    and "dropWhile is_whitespace (rev (decimal n)) = rev (decimal n)"
    by (auto intro!: keep)
  then show ?thesis by (simp add: trim_def)
qed

lemma trim_space: "trim (CHR '' '' # s) = trim s"
  by (simp add: trim_def is_whitespace_def)

lemma split_once_append: "c \<notin> set h \<Longrightarrow> split_once c (h @ c # t) = Some (h, t)"
  by (induction h) auto

lemma parse_u64_decimal: "n < 2 ^ 64 \<Longrightarrow> parse_u64 (decimal n) = Some (of_nat n)"
  by (simp add: parse_u64_def parse_unsigned_decimal)

text \<open>One line of \<^verbatim>\<open>nvidia-smi --format=csv,noheader,nounits\<close>.\<close>

definition gpu_line :: "nat \<times> nat \<Rightarrow> string" where
  "gpu_line g = decimal (fst g) @ '', '' @ decimal (snd g)"

lemma parse_gpu_line_render:
  assumes "t < 2 ^ 64" and "u < 2 ^ 64"
  shows "parse_gpu_line (gpu_line (t, u)) = Some (of_nat t * mib, of_nat u * mib)"
proof -
  have "CHR '','' \<notin> set (decimal t)" using decimal_digits [of "CHR '',''" t] by auto
  from split_once_append [OF this, of "CHR '' '' # decimal u"]
  have "split_once CHR '','' (gpu_line (t, u)) = Some (decimal t, CHR '' '' # decimal u)"
    by (simp add: gpu_line_def)
  with assms show ?thesis
    by (simp add: parse_gpu_line_def trim_space trim_decimal parse_u64_decimal)
qed

lemma lines_from_append:
  "(\<And>c. c \<in> set l \<Longrightarrow> ascii c \<noteq> 10) \<Longrightarrow>
     lines_from acc (l @ CHR 0x0A # rest) = strip_cr (rev acc @ l) # lines rest"
  by (induction l arbitrary: acc) (auto simp: lines_def)

lemma gpu_line_chars: "c \<in> set (gpu_line g) \<Longrightarrow> ascii c \<noteq> 10 \<and> ascii c \<noteq> 13"
  using decimal_digits [of c "fst g"] decimal_digits [of c "snd g"] by (auto simp: gpu_line_def)

lemma gpu_line_not_Nil: "gpu_line g \<noteq> []"
  by (simp add: gpu_line_def)

lemma lines_gpu: "lines (concat (map (\<lambda>g. gpu_line g @ [CHR 0x0A]) gs)) = map gpu_line gs"
proof (induction gs)
  case (Cons g gs)
  have "strip_cr (gpu_line g) = gpu_line g"
    using gpu_line_chars [OF last_in_set [OF gpu_line_not_Nil]] by (simp add: strip_cr_def)
  with lines_from_append [of "gpu_line g" "[]"] gpu_line_chars Cons show ?case
    by (auto simp: lines_def)
qed (simp add: lines_def)

lemma sum_gpus_render:
  "(\<And>t u. (t, u) \<in> set gs \<Longrightarrow> t < 2 ^ 64 \<and> u < 2 ^ 64) \<Longrightarrow>
     sum_gpus (Some \<lparr>total_bytes = a, used_bytes = b\<rparr>) (map gpu_line gs) =
       Some (Some \<lparr>total_bytes = a + of_nat (sum_list (map fst gs)) * mib,
                   used_bytes = b + of_nat (sum_list (map snd gs)) * mib\<rparr>)"
proof (induction gs arbitrary: a b)
  case (Cons g gs)
  obtain t u where g: "g = (t, u)" by (cases g)
  with Cons.prems have "t < 2 ^ 64" "u < 2 ^ 64" by auto
  moreover have "sum_gpus (Some \<lparr>total_bytes = a', used_bytes = b'\<rparr>) (map gpu_line gs) =
      Some (Some \<lparr>total_bytes = a' + of_nat (sum_list (map fst gs)) * mib,
                  used_bytes = b' + of_nat (sum_list (map snd gs)) * mib\<rparr>)" for a' b'
    by (rule Cons.IH) (use Cons.prems in auto)
  ultimately show ?case using g by (simp add: parse_gpu_line_render Let_def algebra_simps)
qed simp

lemma trim_gpu_line: "trim (gpu_line g) \<noteq> []"
proof
  assume empty: "trim (gpu_line g) = []"
  have all: "is_whitespace c" if "c \<in> set (gpu_line g)" for c
  proof -
    from empty have "dropWhile is_whitespace (rev (dropWhile is_whitespace (gpu_line g))) = []"
      by (simp add: trim_def)
    then have "\<forall>x\<in>set (dropWhile is_whitespace (gpu_line g)). is_whitespace x"
      by (simp add: dropWhile_eq_Nil_conv)
    with that show ?thesis
      by (metis (no_types, lifting) UnE set_append set_takeWhileD takeWhile_dropWhile_id)
  qed
  have "hd (decimal (fst g)) \<in> set (gpu_line g)" by (simp add: gpu_line_def)
  from all [OF this] decimal_digits [OF hd_in_set [OF decimal_not_Nil]] digit_not_space
  show False by blast
qed

text \<open>
  Several GPUs are summed. On the output \<^verbatim>\<open>nvidia-smi\<close> prints for any list of cards, the
  probe reports the sums of the totals and of the used sizes in bytes, modulo 2 to the 64; on
  no output it reports nothing.
\<close>

lemma nvidia_sums_cards:
  assumes "\<forall>g\<in>set gs. fst g < 2 ^ 64 \<and> snd g < 2 ^ 64"
  shows "parse_nvidia_smi (concat (map (\<lambda>g. gpu_line g @ [CHR 0x0A]) gs)) =
    (if gs = [] then None
     else Some \<lparr>total_bytes = of_nat (sum_list (map fst gs) * 1048576),
                used_bytes = of_nat (sum_list (map snd gs) * 1048576)\<rparr>)"
proof -
  have "filter (\<lambda>l. trim l \<noteq> []) (map gpu_line gs) = map gpu_line gs"
    by (simp add: filter_id_conv trim_gpu_line)
  then have "parse_nvidia_smi (concat (map (\<lambda>g. gpu_line g @ [CHR 0x0A]) gs)) =
      (case sum_gpus None (map gpu_line gs) of None \<Rightarrow> None | Some v \<Rightarrow> v)"
    by (simp only: parse_nvidia_smi_def lines_gpu)
  moreover have "sum_gpus None (map gpu_line gs) =
      sum_gpus (Some \<lparr>total_bytes = 0, used_bytes = 0\<rparr>) (map gpu_line gs)" if "gs \<noteq> []"
    using that by (cases gs) (simp_all add: Let_def split: option.split)
  ultimately show ?thesis
    using sum_gpus_render [of gs 0 0] assms by (fastforce simp: mib_def)
qed

lemma nvidia_sums_cards_witness:
  "parse_nvidia_smi (concat (map (\<lambda>g. gpu_line g @ [CHR 0x0A]) [(24564, 1000), (24564, 2000)])) =
     Some \<lparr>total_bytes = 2 * 24564 * mib, used_bytes = 3000 * mib\<rparr>"
proof -
  have "\<forall>g\<in>set [(24564 :: nat, 1000 :: nat), (24564, 2000)]. fst g < 2 ^ 64 \<and> snd g < 2 ^ 64"
    by simp
  from nvidia_sums_cards [OF this] show ?thesis by (simp add: mib_def)
qed

text \<open>
  No guessing. The \<^verbatim>\<open>nvidia-smi\<close> probe reports nothing exactly when its output has only
  blank lines, or some line that is not blank does not hold two readable sizes: one card that
  answers \<^verbatim>\<open>N/A\<close> voids the whole reading, rather than being left out of the sum.
\<close>

lemma nvidia_nothing_iff:
  "parse_nvidia_smi out = None \<longleftrightarrow>
     (let ls = filter (\<lambda>l. trim l \<noteq> []) (lines out)
      in ls = [] \<or> (\<exists>l\<in>set ls. parse_gpu_line l = None))"
proof -
  have some: "sum_gpus (Some v) ls \<noteq> Some None" for v ls
    by (induction ls arbitrary: v) (auto simp: Let_def split: option.splits)
  have fails: "sum_gpus v ls = None \<longleftrightarrow> (\<exists>l\<in>set ls. parse_gpu_line l = None)" for v ls
    by (induction ls arbitrary: v) (auto simp: Let_def split: option.splits)
  have none: "sum_gpus None ls = Some None \<longleftrightarrow> ls = []" for ls
    using some by (cases ls) (auto simp: Let_def split: option.splits)
  have "(case sum_gpus None ls of None \<Rightarrow> None | Some v \<Rightarrow> v) = None \<longleftrightarrow>
      sum_gpus None ls = Some None \<or> sum_gpus None ls = None" for ls
    by (cases "sum_gpus None ls") auto
  then have "(case sum_gpus None ls of None \<Rightarrow> None | Some v \<Rightarrow> v) = None \<longleftrightarrow>
      ls = [] \<or> (\<exists>l\<in>set ls. parse_gpu_line l = None)" for ls
    by (simp only: none fails)
  then show ?thesis by (simp only: parse_nvidia_smi_def Let_def)
qed

text \<open>
  The AMD reading is that of a real card with the most memory: a directory entry named as
  a card and not as a connector, both of whose files are readable, and no other such card has
  more. There is no reading exactly when there is no such card.
\<close>

lemma amd_largest_card:
  "case amd (Some es) of
     Some v \<Rightarrow>
       (\<exists>e\<in>set es. is_card (entry_name e) \<and> card_vram e = Some v \<and>
          list_all (\<lambda>e'. if is_card (entry_name e')
            then (case card_vram e' of None \<Rightarrow> True | Some v' \<Rightarrow> total_bytes v' \<le> total_bytes v)
            else True) es)
   | None \<Rightarrow> list_all (\<lambda>e. \<not> (is_card (entry_name e) \<and> card_vram e \<noteq> None)) es"
proof -
  let ?vs = "List.map_filter card_vram (filter (\<lambda>e. is_card (entry_name e)) es)"
  have vs: "v \<in> set ?vs \<longleftrightarrow> (\<exists>e\<in>set es. is_card (entry_name e) \<and> card_vram e = Some v)" for v
    by (induction es) (auto simp: List.map_filter_simps split: option.splits)
  show ?thesis
  proof (cases "max_by_key total_bytes ?vs")
    case None
    then have "?vs = []" by simp
    then have "v \<notin> set ?vs" for v by simp
    with vs have "\<not> (is_card (entry_name e) \<and> card_vram e \<noteq> None)" if "e \<in> set es" for e
      using that by (cases "card_vram e") auto
    with None show ?thesis by (simp add: amd_def list_all_iff)
  next
    case (Some v)
    from max_by_key_mem [OF Some] vs
    have e: "\<exists>e\<in>set es. is_card (entry_name e) \<and> card_vram e = Some v" by simp
    have "case card_vram e' of None \<Rightarrow> True | Some v' \<Rightarrow> total_bytes v' \<le> total_bytes v"
      if "e' \<in> set es" "is_card (entry_name e')" for e'
    proof (cases "card_vram e'")
      case (Some v')
      with that vs have "v' \<in> set ?vs" by blast
      with Some show ?thesis by (simp add: max_by_key_ge [OF \<open>max_by_key total_bytes ?vs = Some v\<close>])
    qed simp
    with e Some show ?thesis by (auto simp: amd_def list_all_iff)
  qed
qed

section \<open>The deadline\<close>

text \<open>A sleep takes at least its length, on a clock that never goes back.\<close>

definition sleeps :: "(nat \<Rightarrow> instant) \<Rightarrow> bool" where
  "sleeps clock \<longleftrightarrow> (\<forall>i. clock i + poll_interval \<le> clock (i + 1))"

lemma sleeps_ge: "sleeps clock \<Longrightarrow> clock i + j * poll_interval \<le> clock (i + j)"
proof (induction j)
  case (Suc j)
  then have "clock (i + j) + poll_interval \<le> clock (Suc (i + j))" by (simp add: sleeps_def)
  with Suc show ?case by simp
qed simp

text \<open>Rounds of the loop, for running it on a concrete child.\<close>

lemma wait_loop_sleep:
  "try_wait i = Running \<Longrightarrow> clock i < deadline \<Longrightarrow>
     wait_loop try_wait clock deadline i = wait_loop try_wait clock deadline (Suc i)"
  by (subst wait_loop.simps) simp

lemma wait_loop_stop:
  "try_wait i = Running \<Longrightarrow> deadline \<le> clock i \<Longrightarrow>
     wait_loop try_wait clock deadline i = Some (None, i)"
  "try_wait i = Exited b \<Longrightarrow> wait_loop try_wait clock deadline i = Some (Some b, i)"
  by (subst wait_loop.simps; simp)+

lemma wait_loop_ends:
  assumes "sleeps clock"
  shows "\<exists>r n. wait_loop try_wait clock deadline i = Some (r, n) \<and> i \<le> n \<and>
    (\<forall>j. i \<le> j \<and> j < n \<longrightarrow> try_wait j = Running \<and> clock j < deadline) \<and>
    (case r of
       Some success \<Rightarrow> try_wait n = Exited success
     | None \<Rightarrow> try_wait n = Wait_Error \<or> (try_wait n = Running \<and> deadline \<le> clock n))"
proof (induction "deadline - clock i" arbitrary: i rule: less_induct)
  case less
  show ?case
  proof (cases "try_wait i = Running \<and> clock i < deadline")
    case True
    have "0 < poll_interval" by (simp add: poll_interval_def from_millis_def)
    moreover have "clock i + poll_interval \<le> clock (i + 1)" using assms by (simp add: sleeps_def)
    ultimately have "deadline - clock (i + 1) < deadline - clock i" using True by linarith
    from less [OF this] obtain r n where r:
      "wait_loop try_wait clock deadline (i + 1) = Some (r, n)" "i + 1 \<le> n"
      "\<forall>j. i + 1 \<le> j \<and> j < n \<longrightarrow> try_wait j = Running \<and> clock j < deadline"
      "case r of
         Some success \<Rightarrow> try_wait n = Exited success
       | None \<Rightarrow> try_wait n = Wait_Error \<or> (try_wait n = Running \<and> deadline \<le> clock n)"
      by blast
    have "wait_loop try_wait clock deadline i = Some (r, n)"
      using True r(1) by (subst wait_loop.simps) simp
    moreover have "try_wait j = Running \<and> clock j < deadline" if "i \<le> j \<and> j < n" for j
      using that True r(3) by (cases "j = i") auto
    ultimately show ?thesis using r(2,4) by (intro exI [of _ r] exI [of _ n]) auto
  next
    case False
    then show ?thesis
      by (subst wait_loop.simps) (auto split: wait_result.splits)
  qed
qed

text \<open>
  C40: The deadline of a command. If each sleep lasts at least its length, the polling
  ends after at most as many sleeps as fit into the timeout and one more; up to then the child
  was running and the deadline had not passed; and the child is killed exactly when it cannot
  be waited for or is still running at the deadline. Its output is used only if it
  exited successfully by itself. The function returns in every case but two, in which it pins its
  thread: the killed child is never reaped, or the output of a successful one never ends.
\<close>

theorem command_deadline:
  assumes "sleeps clock" and "started \<le> clock 0"
  shows "\<exists>n r. wait_loop try_wait clock (started + timeout) 0 = Some (r, n) \<and>
    n \<le> timeout div poll_interval + 1 \<and>
    (\<forall>j<n. try_wait j = Running \<and> clock j < started + timeout) \<and>
    (r = None \<longleftrightarrow> try_wait n = Wait_Error \<or> (try_wait n = Running \<and> started + timeout \<le> clock n)) \<and>
    run_with_deadline True try_wait clock reaped stdout started timeout =
      (case try_wait n of
         Exited True \<Rightarrow> stdout
       | Exited False \<Rightarrow> Some None
       | _ \<Rightarrow> if reaped then Some None else None)"
proof -
  let ?d = "started + timeout"
  obtain r n where r: "wait_loop try_wait clock ?d 0 = Some (r, n)"
    "\<And>j. j < n \<Longrightarrow> try_wait j = Running \<and> clock j < ?d"
    "case r of
       Some success \<Rightarrow> try_wait n = Exited success
     | None \<Rightarrow> try_wait n = Wait_Error \<or> (try_wait n = Running \<and> ?d \<le> clock n)"
    using wait_loop_ends [OF assms(1), of try_wait ?d 0] by auto
  have n: "n \<le> timeout div poll_interval + 1"
  proof (cases n)
    case (Suc m)
    have P: "0 < poll_interval" by (simp add: poll_interval_def from_millis_def)
    from r(2) [of m] Suc sleeps_ge [OF assms(1), of 0 m] assms(2)
    have "m * poll_interval \<le> timeout" by simp
    then have "m \<le> timeout div poll_interval" using P by (simp add: less_eq_div_iff_mult_less_eq)
    with Suc show ?thesis by simp
  qed simp
  have "run_with_deadline True try_wait clock reaped stdout started timeout =
      (case try_wait n of
         Exited True \<Rightarrow> stdout
       | Exited False \<Rightarrow> Some None
       | _ \<Rightarrow> if reaped then Some None else None)"
    using r(1,3) by (auto simp: run_with_deadline_def split: option.splits)
  moreover have "r = None \<longleftrightarrow> try_wait n = Wait_Error \<or> (try_wait n = Running \<and> ?d \<le> clock n)"
    using r(3) by (cases r) auto
  ultimately show ?thesis using r(1,2) n by blast
qed

text \<open>A child that never exits and cannot be reaped: the thread never comes back.\<close>

lemma command_deadline_witness:
  "run_with_deadline True (\<lambda>_. Running) (\<lambda>i. i * poll_interval) False None 0 nvidia_smi_timeout = None \<and>
   run_with_deadline True (\<lambda>_. Running) (\<lambda>i. i * poll_interval) True None 0 nvidia_smi_timeout = Some None"
proof -
  have "sleeps (\<lambda>i. i * poll_interval)" by (simp add: sleeps_def)
  note this [THEN command_deadline, of 0 "\<lambda>_. Running" nvidia_smi_timeout _ None]
  from this [of False] this [of True] show ?thesis by auto
qed

end
