(* ===== verification/Vram_Cache.thy ===== *)
theory Vram_Cache
  imports Gpu_Probe
begin

text \<open>
  The cache in front of the GPU probe (\<^verbatim>\<open>VramCache\<close> in src/src/server.rs): what a residency
  request is served, when a new probe is started, and, over all interleavings of requests,
  probe threads and dropped requests, that at most one probe is ever out.
\<close>

section \<open>Data and operations\<close>

definition residency_probe_deadline :: duration where
  "residency_probe_deadline = from_millis 2500"

definition vram_cache_ttl :: duration where
  "vram_cache_ttl = from_secs 2"

definition vram_timeout_backoff :: duration where
  "vram_timeout_backoff = from_secs 30"

lemmas cache_constants =
  residency_probe_deadline_def vram_cache_ttl_def vram_timeout_backoff_def nvidia_smi_timeout_def
  from_secs_def from_millis_def

record vram_reading =
  taken :: instant
  reading :: "vram option"
  fresh_for :: duration

record vram_cache =
  last_reading :: "vram_reading option"
  in_flight :: bool

definition empty_cache :: vram_cache where
  "empty_cache = \<lparr>last_reading = None, in_flight = False\<rparr>"

text \<open>
  \<^verbatim>\<open>VramCache::get\<close> up to its only suspension. \<open>Probing\<close>: the in-flight flag was taken and
  a probe thread started.
\<close>

datatype get_outcome = Served "vram option" | Probing

definition get_begin :: "instant \<Rightarrow> vram_cache \<Rightarrow> get_outcome \<times> vram_cache" where
  "get_begin t c =
     (case last_reading c of
        Some r \<Rightarrow>
          (if elapsed t (taken r) < fresh_for r then (Served (reading r), c)
           else if in_flight c
           then (Served (if elapsed t (taken r) < vram_timeout_backoff then reading r else None), c)
           else (Probing, c\<lparr>in_flight := True\<rparr>))
      | None \<Rightarrow>
          (if in_flight c then (Served None, c) else (Probing, c\<lparr>in_flight := True\<rparr>)))"

text \<open>How the wait for the probe thread ends: its result, its panic, or the deadline.\<close>

datatype join_result = Joined "vram option" | Panicked | Timed_Out

definition get_end ::
  "instant \<Rightarrow> instant \<Rightarrow> join_result \<Rightarrow> vram_cache \<Rightarrow> vram option \<times> vram_cache" where
  "get_end started t joined c =
     (let (v, fresh) =
        (case joined of
           Joined v \<Rightarrow>
             (if nvidia_smi_timeout \<le> elapsed t started \<and> v = None
              then (None, vram_timeout_backoff) else (v, vram_cache_ttl))
         | Panicked \<Rightarrow> (None, vram_cache_ttl)
         | Timed_Out \<Rightarrow> (None, vram_timeout_backoff))
      in (v, c\<lparr>last_reading := Some \<lparr>taken = t, reading = v, fresh_for = fresh\<rparr>\<rparr>))"

text \<open>The probe thread ends, by returning or by panicking: its guard clears the flag.\<close>

definition drop_in_flight :: "vram_cache \<Rightarrow> vram_cache" where
  "drop_in_flight c = c\<lparr>in_flight := False\<rparr>"

lemmas cache_defs [eval_simps] =
  empty_cache_def get_begin_def get_end_def drop_in_flight_def residency_probe_deadline_def
  vram_cache_ttl_def vram_timeout_backoff_def nvidia_smi_timeout_def

section \<open>Requests and probe threads\<close>

text \<open>
  The asynchronous mutex around the last reading is held for the whole of \<^verbatim>\<open>get\<close>, so there is
  at most one request past its beginning: \<open>waiting\<close>, with its probe and its starting time.
  \<open>out\<close> are the probe threads still running, whoever started them.
\<close>

record probe_world =
  cache :: vram_cache
  out :: "nat set"
  waiting :: "(nat \<times> instant) option"
  results :: "nat \<rightharpoonup> join_result"
  next_probe :: nat
  time :: instant

definition probe_start :: probe_world where
  "probe_start =
     \<lparr>cache = empty_cache, out = {}, waiting = None, results = Map.empty, next_probe = 0, time = 0\<rparr>"

text \<open>
  The label is what a request is served in the step. A request that is dropped while it waits
  gives the mutex back and leaves the thread running.
\<close>

inductive probe_step :: "probe_world \<Rightarrow> vram option option \<Rightarrow> probe_world \<Rightarrow> bool" where
  serve: "waiting w = None \<Longrightarrow> get_begin (time w) (cache w) = (Served v, c) \<Longrightarrow>
     probe_step w (Some v) (w\<lparr>cache := c\<rparr>)"
| start: "waiting w = None \<Longrightarrow> get_begin (time w) (cache w) = (Probing, c) \<Longrightarrow>
     probe_step w None
       (w\<lparr>cache := c, out := insert (next_probe w) (out w),
          waiting := Some (next_probe w, time w), next_probe := next_probe w + 1\<rparr>)"
| ends: "p \<in> out w \<Longrightarrow> r \<noteq> Timed_Out \<Longrightarrow>
     probe_step w None
       (w\<lparr>cache := drop_in_flight (cache w), out := out w - {p}, results := (results w)(p \<mapsto> r)\<rparr>)"
| resume: "waiting w = Some (p, t) \<Longrightarrow> results w p = Some r \<Longrightarrow>
     get_end t (time w) r (cache w) = (v, c) \<Longrightarrow>
     probe_step w (Some v) (w\<lparr>cache := c, waiting := None\<rparr>)"
| deadline: "waiting w = Some (p, t) \<Longrightarrow> t + residency_probe_deadline \<le> time w \<Longrightarrow>
     get_end t (time w) Timed_Out (cache w) = (v, c) \<Longrightarrow>
     probe_step w (Some v) (w\<lparr>cache := c, waiting := None\<rparr>)"
| dropped: "waiting w = Some (p, t) \<Longrightarrow> probe_step w None (w\<lparr>waiting := None\<rparr>)"
| passes: "probe_step w None (w\<lparr>time := time w + d\<rparr>)"

inductive_cases probe_step_servedE: "probe_step w (Some v) w'"

inductive probe_reach :: "probe_world \<Rightarrow> bool" where
  probe_reach_start: "probe_reach probe_start"
| probe_reach_step: "probe_reach w \<Longrightarrow> probe_step w l w' \<Longrightarrow> probe_reach w'"

definition probe_ok :: "probe_world \<Rightarrow> bool" where
  "probe_ok w \<longleftrightarrow>
     (out w = {} \<and> \<not> in_flight (cache w) \<or> (\<exists>p. out w = {p}) \<and> in_flight (cache w)) \<and>
     (\<forall>r. last_reading (cache w) = Some r \<longrightarrow>
        taken r \<le> time w \<and> fresh_for r \<le> vram_timeout_backoff \<and>
        (reading r \<noteq> None \<longrightarrow> fresh_for r = vram_cache_ttl))"

lemma get_begin_cases:
  obtains (served) v where "get_begin t c = (Served v, c)"
  | (probing) "get_begin t c = (Probing, c\<lparr>in_flight := True\<rparr>)" and "\<not> in_flight c"
proof -
  have "get_begin t c = (Probing, c\<lparr>in_flight := True\<rparr>) \<and> \<not> in_flight c \<or>
      (\<exists>v. get_begin t c = (Served v, c))"
    by (auto simp: get_begin_def split: option.splits)
  then show ?thesis using that by blast
qed

lemma get_end_cases:
  assumes "get_end s t j c = (v, c')"
  obtains f where "c' = c\<lparr>last_reading := Some \<lparr>taken = t, reading = v, fresh_for = f\<rparr>\<rparr>"
    and "f \<le> vram_timeout_backoff" and "v \<noteq> None \<Longrightarrow> f = vram_cache_ttl"
proof -
  have "vram_cache_ttl \<le> vram_timeout_backoff" by (simp add: cache_constants)
  with assms that show ?thesis
    by (auto simp: get_end_def split: join_result.splits if_splits)
qed

lemma probe_ok_step:
  assumes "probe_ok w" and "probe_step w l w'"
  shows "probe_ok w'"
  using assms(2,1)
proof cases
  case (serve v c)
  with assms(1) show ?thesis
    by (cases rule: get_begin_cases [of "time w" "cache w"]) auto
next
  case (start c)
  then have "\<not> in_flight (cache w)" and "c = (cache w)\<lparr>in_flight := True\<rparr>"
    by (cases rule: get_begin_cases [of "time w" "cache w"]; simp)+
  with assms(1) start show ?thesis by (simp add: probe_ok_def)
next
  case (ends p r)
  with assms(1) show ?thesis by (auto simp: probe_ok_def drop_in_flight_def)
next
  case (resume p t r v c)
  then show ?thesis
    using assms(1) by (elim get_end_cases) (simp add: probe_ok_def)
next
  case (deadline p t v c)
  then show ?thesis
    using assms(1) by (elim get_end_cases) (simp add: probe_ok_def)
next
  case (passes d)
  with assms(1) show ?thesis by (auto simp: probe_ok_def)
qed (use assms(1) in \<open>simp add: probe_ok_def\<close>)

lemma probe_reach_ok: "probe_reach w \<Longrightarrow> probe_ok w"
proof (induction rule: probe_reach.induct)
  case probe_reach_start
  then show ?case by (simp add: probe_ok_def probe_start_def empty_cache_def)
qed (rule probe_ok_step)

text \<open>
  C35: One probe at a time. However requests come, wait and are dropped, and however long a
  probe hangs, at most one probe thread is running, and the in-flight flag says exactly
  whether one is.
\<close>

theorem at_most_one_probe:
  assumes "probe_reach w"
  shows "card (out w) = (if in_flight (cache w) then 1 else 0)"
  using probe_reach_ok [OF assms] by (auto simp: probe_ok_def)

lemma probe_run:
  "probe_reach (probe_start\<lparr>cache := \<lparr>last_reading = None, in_flight = True\<rparr>, out := {0},
     waiting := Some (0, 0), next_probe := 1\<rparr>)"
proof -
  have "get_begin (time probe_start) (cache probe_start) =
      (Probing, \<lparr>last_reading = None, in_flight = True\<rparr>)"
    by (simp add: probe_start_def eval_simps)
  from probe_reach_step [OF probe_reach_start probe_step.start [OF _ this]] show ?thesis
    by (simp add: probe_start_def)
qed

lemma at_most_one_probe_witness:
  "card (out (probe_start\<lparr>cache := \<lparr>last_reading = None, in_flight = True\<rparr>, out := {0},
     waiting := Some (0, 0), next_probe := 1\<rparr>)) = 1"
  using at_most_one_probe [OF probe_run] by simp

text \<open>
  C36: Stale memory sizes are not served. A size served without waiting for a probe is that of
  the last reading, which is younger than the time to live or, while a hung probe keeps a new
  one from starting, younger than the back-off time.
\<close>

theorem served_size_is_recent:
  assumes "probe_reach w" and "waiting w = None" and "probe_step w (Some (Some v)) w'"
  shows "\<exists>r. last_reading (cache w) = Some r \<and> reading r = Some v \<and>
    time w - taken r < (if in_flight (cache w) then vram_timeout_backoff else vram_cache_ttl)"
proof -
  from assms(3,2) obtain c where "get_begin (time w) (cache w) = (Served (Some v), c)"
    by (auto elim: probe_step_servedE)
  then obtain r where r: "last_reading (cache w) = Some r" "reading r = Some v"
      "elapsed (time w) (taken r) < fresh_for r \<or>
       (in_flight (cache w) \<and> elapsed (time w) (taken r) < vram_timeout_backoff)"
    by (auto simp: get_begin_def split: option.splits if_splits)
  moreover have "fresh_for r = vram_cache_ttl"
    using probe_reach_ok [OF assms(1)] r by (simp add: probe_ok_def)
  moreover have "vram_cache_ttl \<le> vram_timeout_backoff" by (simp add: cache_constants)
  ultimately show ?thesis by (auto simp: elapsed_def)
qed

lemma served_size_is_recent_witness:
  "\<exists>w v w'. probe_reach w \<and> probe_step w (Some (Some v)) w' \<and>
     (\<exists>r. last_reading (cache w) = Some r \<and> reading r = Some v)"
proof -
  let ?v = "\<lparr>total_bytes = 16, used_bytes = 4\<rparr>"
  let ?w1 = "probe_start\<lparr>cache := \<lparr>last_reading = None, in_flight = True\<rparr>, out := {0},
    waiting := Some (0, 0), next_probe := 1\<rparr>"
  let ?c2 = "\<lparr>last_reading = None, in_flight = False\<rparr>"
  let ?c = "?c2\<lparr>last_reading := Some \<lparr>taken = 0, reading = Some ?v, fresh_for = vram_cache_ttl\<rparr>\<rparr>"
  let ?w2 = "?w1\<lparr>cache := drop_in_flight (cache ?w1), out := out ?w1 - {0},
    results := (results ?w1)(0 \<mapsto> Joined (Some ?v))\<rparr>"
  let ?w3 = "?w2\<lparr>cache := ?c, waiting := None\<rparr>"
  have "0 \<in> out ?w1" and "Joined (Some ?v) \<noteq> Timed_Out" by simp_all
  then have "probe_step ?w1 None ?w2" by (rule probe_step.ends)
  with probe_run have r2: "probe_reach ?w2" by (rule probe_reach_step)
  have "get_end 0 (time ?w2) (Joined (Some ?v)) (cache ?w2) = (Some ?v, ?c)"
    by (simp add: get_end_def drop_in_flight_def probe_start_def)
  moreover have "waiting ?w2 = Some (0, 0)" and "results ?w2 0 = Some (Joined (Some ?v))" by simp_all
  ultimately have "probe_step ?w2 (Some (Some ?v)) ?w3" by (intro probe_step.resume)
  with r2 have r3: "probe_reach ?w3" by (rule probe_reach_step)
  have b: "get_begin (time ?w3) (cache ?w3) = (Served (Some ?v), ?c)"
    by (simp add: get_begin_def elapsed_def cache_constants probe_start_def)
  have n: "waiting ?w3 = None" by simp
  from probe_step.serve [OF n b] have s: "probe_step ?w3 (Some (Some ?v)) (?w3\<lparr>cache := ?c\<rparr>)" .
  from served_size_is_recent [OF r3 n s] r3 s show ?thesis by blast
qed

text \<open>
  A wedged driver is left alone. After a request has waited out its deadline, or the probe
  came back empty only after the \<^verbatim>\<open>nvidia-smi\<close> timeout, no request starts a probe for the whole
  back-off time; each is answered at once that the size is unknown.
\<close>

lemma backoff_after_hang:
  assumes "get_end started t joined c = (v, c')"
    and "joined = Timed_Out \<or> (joined = Joined None \<and> nvidia_smi_timeout \<le> t - started)"
    and "t' - t < vram_timeout_backoff"
  shows "v = None \<and> get_begin t' c' = (Served None, c')"
proof -
  from assms(1,2) have "v = None"
    and "c' = c\<lparr>last_reading := Some \<lparr>taken = t, reading = None, fresh_for = vram_timeout_backoff\<rparr>\<rparr>"
    by (auto simp: get_end_def elapsed_def)
  with assms(3) show ?thesis by (simp add: get_begin_def elapsed_def)
qed

lemma backoff_after_hang_witness:
  "get_begin (from_secs 20) (snd (get_end 0 residency_probe_deadline Timed_Out empty_cache)) =
     (Served None, snd (get_end 0 residency_probe_deadline Timed_Out empty_cache))"
proof -
  have "from_secs 20 - residency_probe_deadline < vram_timeout_backoff" by (simp add: cache_constants)
  from backoff_after_hang [OF prod.collapse [symmetric] disjI1 [OF refl] this] show ?thesis by blast
qed

end
