(* ===== verification/Forward.thy ===== *)
theory Forward
  imports Llama_Client
begin

text \<open>
  What the broker does to an admitted slot before and with the forwarded request
  (\<^verbatim>\<open>warm_or_restore\<close> and \<^verbatim>\<open>send_upstream\<close> in src/src/server.rs): the calls it makes, in
  order, as a list of actions, given the answers of llama-server and of the KV store; and
  what that does to the scheduler's residency table.
\<close>

section \<open>Data\<close>

record cache_key =
  backend_id :: string
  model_id :: string
  build_hash :: string
  key_prefix :: string

datatype action =
    Restore cache_key u32
  | Warm_Up json
  | Save cache_key u32
  | Mark u32 "string option" string
  | Clear u32
  | Post json

text \<open>
  The answers, each to the one call it names: \<open>restore_answer\<close> and \<open>save_answer\<close> are
  \<open>None\<close> when the store fails; a reply is as in Llama_Client.
\<close>

record 'b answers =
  restore_answer :: "bool option"
  warm_answer :: "unit reply"
  save_answer :: "unit option"
  post_answer :: "'b reply"

datatype upstream_error = Send_Failed | Bad_Status nat

section \<open>Warm-up\<close>

definition hint_key :: "slot_hint \<Rightarrow> cache_key" where
  "hint_key h =
     \<lparr>backend_id = ''aivyx-broker'',
      model_id = (case hint_model h of None \<Rightarrow> '''' | Some m \<Rightarrow> m),
      build_hash = ''aivyx-broker'', key_prefix = prefix_hash h\<rparr>"

definition default_system_message :: json where
  "default_system_message = Obj [(''role'', Str ''system''), (''content'', Str '''')]"

text \<open>The first message whose role is \<^verbatim>\<open>system\<close>.\<close>

definition system_message :: "json \<Rightarrow> json" where
  "system_message body =
     (case Option.bind (json_get ''messages'' body) as_array of
        None \<Rightarrow> default_system_message
      | Some arr \<Rightarrow>
          (case List.find (\<lambda>m. Option.bind (json_get ''role'' m) as_str = Some ''system'') arr of
             None \<Rightarrow> default_system_message
           | Some m \<Rightarrow> m))"

definition slot_json :: "u32 \<Rightarrow> json" where
  "slot_json k = Unsigned (ucast k)"

definition warm_up_body :: "json \<Rightarrow> slot_hint \<Rightarrow> u32 \<Rightarrow> json" where
  "warm_up_body body h k =
     (let warm_up =
            Obj [(''messages'',
                   Arr [system_message body,
                        Obj [(''role'', Str ''user''), (''content'', Str '''')]]),
                 (''max_tokens'', Unsigned 1),
                 (''id_slot'', slot_json k)];
          warm_up =
            (case json_get ''tools'' body of
               None \<Rightarrow> warm_up | Some tools \<Rightarrow> json_insert ''tools'' tools warm_up)
      in (case hint_model h of
            None \<Rightarrow> warm_up | Some m \<Rightarrow> json_insert ''model'' (Str m) warm_up))"

text \<open>\<^verbatim>\<open>send().await?.error_for_status()?\<close>\<close>

fun checked_status :: "unit reply \<Rightarrow> upstream_error + unit" where
  "checked_status Unreachable = Inl Send_Failed"
| "checked_status (Reply code b) =
     (if 400 \<le> code \<and> code \<le> 599 then Inl (Bad_Status code) else Inr ())"

definition warm_or_restore ::
  "'b answers \<Rightarrow> json \<Rightarrow> slot_hint \<Rightarrow> u32 \<Rightarrow> (upstream_error + unit) \<times> action list" where
  "warm_or_restore ans body h k =
     (let key = hint_key h;
          restored = (case restore_answer ans of None \<Rightarrow> False | Some b \<Rightarrow> b);
          mark = Mark k (hint_model h) (prefix_hash h)
      in if restored then (Inr (), [Restore key k, mark])
         else
           (case checked_status (warm_answer ans) of
              Inl e \<Rightarrow> (Inl e, [Restore key k, Warm_Up (warm_up_body body h k)])
            | Inr _ \<Rightarrow>
                (Inr (),
                 [Restore key k, Warm_Up (warm_up_body body h k), Save key k, mark])))"

section \<open>The forwarded request\<close>

definition post_body :: "json \<Rightarrow> u32 \<Rightarrow> json" where
  "post_body body k = json_insert ''id_slot'' (slot_json k) body"

definition send_post ::
  "'b answers \<Rightarrow> json \<Rightarrow> u32 \<Rightarrow> (upstream_error + nat \<times> 'b option) \<times> action list" where
  "send_post ans body k =
     ((case post_answer ans of
         Unreachable \<Rightarrow> Inl Send_Failed
       | Reply code b \<Rightarrow> Inr (code, b)),
      [Post (post_body body k)])"

definition send_upstream ::
  "'b answers \<Rightarrow> json \<Rightarrow> slot_hint option \<Rightarrow> admission \<Rightarrow>
     (upstream_error + nat \<times> 'b option) \<times> action list" where
  "send_upstream ans body hint a =
     (case hint of
        Some h \<Rightarrow>
          (if \<not> cache_ready a
           then
             (case warm_or_restore ans body h (slot_id a) of
                (Inl e, acts) \<Rightarrow> (Inl e, acts)
              | (Inr _, acts) \<Rightarrow>
                  (let (r, more) = send_post ans body (slot_id a) in (r, acts @ more)))
           else send_post ans body (slot_id a))
      | None \<Rightarrow>
          (let (r, more) = send_post ans body (slot_id a) in (r, Clear (slot_id a) # more)))"

text \<open>What the actions do to the scheduler: only two of them are calls of it.\<close>

fun schedule_action :: "action \<Rightarrow> inner \<Rightarrow> inner" where
  "schedule_action (Mark k m p) st = mark_resident k m p st"
| "schedule_action (Clear k) st = clear_resident k st"
| "schedule_action _ st = st"

definition schedule_actions :: "action list \<Rightarrow> inner \<Rightarrow> inner" where
  "schedule_actions as st = fold schedule_action as st"

lemmas forward_defs [eval_simps] =
  hint_key_def default_system_message_def system_message_def slot_json_def warm_up_body_def
  warm_or_restore_def post_body_def send_post_def send_upstream_def schedule_actions_def

section \<open>The order of the calls\<close>

lemma warm_or_restore_cases:
  obtains (restored) "restore_answer ans = Some True"
      and "warm_or_restore ans body h k =
        (Inr (), [Restore (hint_key h) k, Mark k (hint_model h) (prefix_hash h)])"
  | (warmed) "restore_answer ans \<noteq> Some True" and "checked_status (warm_answer ans) = Inr ()"
      and "warm_or_restore ans body h k =
        (Inr (), [Restore (hint_key h) k, Warm_Up (warm_up_body body h k), Save (hint_key h) k,
                  Mark k (hint_model h) (prefix_hash h)])"
  | (failed) e where "restore_answer ans \<noteq> Some True"
      and "checked_status (warm_answer ans) = Inl e"
      and "warm_or_restore ans body h k =
        (Inl e, [Restore (hint_key h) k, Warm_Up (warm_up_body body h k)])"
proof (cases "restore_answer ans = Some True")
  case True
  then show ?thesis using restored by (simp add: warm_or_restore_def)
next
  case False
  then have "(case restore_answer ans of None \<Rightarrow> False | Some b \<Rightarrow> b) = False"
    by (cases "restore_answer ans") auto
  with False show ?thesis
    using warmed failed
    by (cases "checked_status (warm_answer ans)") (simp_all add: warm_or_restore_def Let_def)
qed

text \<open>
  What is sent to llama-server, and when. The request is posted last and at most once, only
  if the slot was prepared: a slot that already holds the prefix is used as it is; a request
  without a hint first clears the slot's residency record; otherwise the saved state is
  restored, or failing that the slot is warmed up and saved, and in both cases the residency is
  recorded before the request is posted. If the warm-up fails nothing is saved, recorded or
  posted and the error is returned.
\<close>

lemma upstream_order:
  "snd (send_upstream ans body hint a) =
     (case hint of
        None \<Rightarrow> [Clear (slot_id a), Post (post_body body (slot_id a))]
      | Some h \<Rightarrow>
          if cache_ready a then [Post (post_body body (slot_id a))]
          else if restore_answer ans = Some True
          then [Restore (hint_key h) (slot_id a), Mark (slot_id a) (hint_model h) (prefix_hash h),
                Post (post_body body (slot_id a))]
          else if checked_status (warm_answer ans) = Inr ()
          then [Restore (hint_key h) (slot_id a), Warm_Up (warm_up_body body h (slot_id a)),
                Save (hint_key h) (slot_id a), Mark (slot_id a) (hint_model h) (prefix_hash h),
                Post (post_body body (slot_id a))]
          else [Restore (hint_key h) (slot_id a), Warm_Up (warm_up_body body h (slot_id a))]) \<and>
   (case fst (send_upstream ans body hint a) of
      Inr resp \<Rightarrow> post_answer ans = Reply (fst resp) (snd resp)
    | Inl e \<Rightarrow>
        post_answer ans = Unreachable \<or>
        (hint \<noteq> None \<and> \<not> cache_ready a \<and> restore_answer ans \<noteq> Some True \<and>
         checked_status (warm_answer ans) = Inl e))"
proof (cases hint)
  case None
  then show ?thesis by (auto simp: send_upstream_def send_post_def split: reply.splits)
next
  case (Some h)
  show ?thesis
  proof (cases "cache_ready a")
    case True
    with Some show ?thesis by (auto simp: send_upstream_def send_post_def split: reply.splits)
  next
    case False
    with Some show ?thesis
      by (cases rule: warm_or_restore_cases [of ans body h "slot_id a"])
        (auto simp: send_upstream_def send_post_def split: reply.splits)
  qed
qed

text \<open>
  The request is forwarded as it came, but for its slot. Every field of the posted object
  is that of the request, except \<^verbatim>\<open>id_slot\<close>, which names the admitted slot whatever the client
  put there; a request that is not an object is posted unchanged. The warm-up names the same
  slot, carries the request's tools if it has any, and the model of the hint if it has one.
\<close>

lemma posted_body:
  "post_body body k =
     (case body of Obj es \<Rightarrow> Obj (AList.update ''id_slot'' (slot_json k) es) | _ \<Rightarrow> body) \<and>
   json_get f (post_body body k) =
     (case body of Obj es \<Rightarrow> if f = ''id_slot'' then Some (slot_json k) else json_get f body | _ \<Rightarrow> None) \<and>
   json_get ''id_slot'' (warm_up_body body h k) = Some (slot_json k) \<and>
   json_get ''tools'' (warm_up_body body h k) = json_get ''tools'' body \<and>
   json_get ''model'' (warm_up_body body h k) = map_option Str (hint_model h) \<and>
   json_get ''messages'' (warm_up_body body h k) =
     Some (Arr [system_message body, Obj [(''role'', Str ''user''), (''content'', Str '''')]])"
  by (simp add: post_body_def json_get_insert warm_up_body_def Let_def update_conv'
      split: option.splits json.splits)

section \<open>Is the residency table true?\<close>

text \<open>
  What a slot really holds is known only to llama-server: \<open>content k\<close> is the key of the prefix
  in slot \<open>k\<close>, if any. A table is \<open>truthful\<close> when every record of it is so.
\<close>

definition record_key :: "slot_state \<Rightarrow> cache_key option" where
  "record_key s =
     (case resident_prefix s of
        None \<Rightarrow> None
      | Some p \<Rightarrow> Some (hint_key \<lparr>prefix_hash = p, preferred_slot = None, hint_model = resident_model s\<rparr>))"

definition truthful :: "(u32 \<Rightarrow> cache_key option) \<Rightarrow> inner \<Rightarrow> bool" where
  "truthful content st \<longleftrightarrow>
     (\<forall>k key. unat k < length (slots st) \<and> record_key (slots st ! unat k) = Some key \<longrightarrow>
        content k = Some key)"

text \<open>
  \<open>server act c\<close> is what the slot holds after a call, if it held \<open>c\<close> before. What the broker
  relies on: a restore that reports success and a warm-up that is answered leave the slot with
  the prefix of the key; saving and, for a request with that prefix, posting keep it.
\<close>

definition dependable ::
  "(action \<Rightarrow> cache_key option \<Rightarrow> cache_key option) \<Rightarrow> 'b answers \<Rightarrow> json \<Rightarrow> slot_hint \<Rightarrow> u32 \<Rightarrow> bool" where
  "dependable server ans body h k \<longleftrightarrow>
     (restore_answer ans = Some True \<longrightarrow>
        (\<forall>c. server (Restore (hint_key h) k) c = Some (hint_key h))) \<and>
     (checked_status (warm_answer ans) = Inr () \<longrightarrow>
        (\<forall>c. server (Warm_Up (warm_up_body body h k)) c = Some (hint_key h))) \<and>
     (\<forall>c. server (Save (hint_key h) k) c = c) \<and>
     (\<forall>c. server (Mark k (hint_model h) (prefix_hash h)) c = c) \<and>
     (\<forall>c. server (Post (post_body body k)) c = c)"

definition content_after ::
  "(action \<Rightarrow> cache_key option \<Rightarrow> cache_key option) \<Rightarrow> action list \<Rightarrow> u32 \<Rightarrow>
     (u32 \<Rightarrow> cache_key option) \<Rightarrow> u32 \<Rightarrow> cache_key option" where
  "content_after server as k content = content(k := fold server as (content k))"

lemma truthful_update:
  assumes "truthful content st" and "\<And>k'. k' \<noteq> k \<Longrightarrow> content' k' = content k'"
    and "\<And>key. unat k < length (slots st) \<Longrightarrow> record_key (f (slots st ! unat k)) = Some key \<Longrightarrow>
      content' k = Some key"
  shows "truthful content' (update_slot k f st)"
  unfolding truthful_def
proof (intro allI impI)
  fix k' :: u32 and key
  assume a: "unat k' < length (slots (update_slot k f st)) \<and>
    record_key (slots (update_slot k f st) ! unat k') = Some key"
  show "content' k' = Some key"
  proof (cases "k' = k")
    case True
    with a assms(3) show ?thesis by (auto simp: frame_simps nth_update_slot)
  next
    case False
    with a assms(1,2) show ?thesis
      by (simp add: truthful_def frame_simps nth_update_slot word_unat_eq_iff)
  qed
qed

lemma truthful_marked:
  assumes "truthful content st" and "\<And>k'. k' \<noteq> k \<Longrightarrow> content' k' = content k'"
    and "content' k = Some (hint_key h)"
  shows "truthful content' (mark_resident k (hint_model h) (prefix_hash h) st)"
  unfolding mark_resident_def
  by (rule truthful_update [OF assms(1,2)])
    (use assms(3) in \<open>auto simp: record_key_def hint_key_def\<close>)

text \<open>
  The residency table stays true. If every record named what its slot held before the job,
  and llama-server and the store are dependable, then after the calls for a request on slot
  \<open>k\<close> every record still does, for every outcome but a failed warm-up. Nothing is assumed of
  what a request without a hint does to its slot.
\<close>

lemma residency_stays_true:
  assumes "truthful content st"
    and "\<forall>h. hint = Some h \<longrightarrow> dependable server ans body h (slot_id a)"
    and "hint = None \<or> cache_ready a \<or> restore_answer ans = Some True \<or>
      checked_status (warm_answer ans) = Inr ()"
  shows "truthful
    (content_after server (snd (send_upstream ans body hint a)) (slot_id a) content)
    (schedule_actions (snd (send_upstream ans body hint a)) st)"
proof (cases hint)
  case None
  then have clear: "schedule_actions (snd (send_upstream ans body hint a)) st =
      update_slot (slot_id a) (\<lambda>s. s\<lparr>resident_prefix := None, resident_model := None\<rparr>) st"
    by (simp add: send_upstream_def send_post_def schedule_actions_def clear_resident_def)
  show ?thesis
    unfolding clear content_after_def
    by (rule truthful_update [OF assms(1)]) (simp_all add: record_key_def)
next
  case (Some h)
  with assms(2) have dep: "dependable server ans body h (slot_id a)" by simp
  let ?k = "slot_id a"
  have ready: ?thesis if "cache_ready a"
    using that Some dep assms(1)
    by (simp add: send_upstream_def send_post_def schedule_actions_def content_after_def dependable_def
        truthful_def)
  have "?thesis" if "\<not> cache_ready a"
  proof (cases rule: warm_or_restore_cases [of ans body h ?k])
    case restored
    with that Some dep show ?thesis
      by (simp add: send_upstream_def send_post_def schedule_actions_def dependable_def
          truthful_marked [OF assms(1)] content_after_def)
  next
    case warmed
    with that Some dep show ?thesis
      by (simp add: send_upstream_def send_post_def schedule_actions_def dependable_def
          truthful_marked [OF assms(1)] content_after_def)
  next
    case (failed e)
    with assms(3) that Some show ?thesis by simp
  qed
  with ready show ?thesis by blast
qed

lemma residency_stays_true_witness:
  "truthful
     (content_after (\<lambda>act c. case act of Restore key k \<Rightarrow> Some key | _ \<Rightarrow> c)
       (snd (send_upstream \<lparr>restore_answer = Some True, warm_answer = Unreachable, save_answer = None,
               post_answer = Reply 200 (Some ())\<rparr>
             (Obj []) (Some (demo_hint ''p'' None None)) \<lparr>slot_id = 0, cache_ready = False\<rparr>))
       0 Map.empty)
     (schedule_actions
       (snd (send_upstream \<lparr>restore_answer = Some True, warm_answer = Unreachable, save_answer = None,
               post_answer = Reply 200 (Some ())\<rparr>
             (Obj []) (Some (demo_hint ''p'' None None)) \<lparr>slot_id = 0, cache_ready = False\<rparr>))
       (new_scheduler 2))"
proof -
  let ?ans = "\<lparr>restore_answer = Some True, warm_answer = Unreachable, save_answer = None,
    post_answer = Reply 200 (Some ())\<rparr>"
  let ?server = "\<lambda>act c. case act of Restore key k \<Rightarrow> Some key | _ \<Rightarrow> c"
  let ?a = "\<lparr>slot_id = 0, cache_ready = False\<rparr>"
  have t: "truthful Map.empty (new_scheduler 2)"
    by (simp add: truthful_def record_key_def new_scheduler_def default_slot_def)
  have d: "\<forall>h. Some (demo_hint ''p'' None None) = Some h \<longrightarrow>
      dependable ?server ?ans (Obj []) h (slot_id ?a)"
    by (simp add: dependable_def)
  have ok: "Some (demo_hint ''p'' None None) = None \<or> cache_ready ?a \<or>
      restore_answer ?ans = Some True \<or> checked_status (warm_answer ?ans) = Inr ()"
    by simp
  show ?thesis using residency_stays_true [OF t d ok] by simp
qed

section \<open>After a failed warm-up\<close>



end
