(* ===== verification/Relay.thy ===== *)
theory Relay
  imports Prelude "HOL-Library.Sublist"
begin

text \<open>
  The body of the forwarded response (the loop of \<^verbatim>\<open>forward\<close> and the body stream of
  \<^verbatim>\<open>chat_completions\<close> in src/src/server.rs): a task that reads llama-server's response and
  passes it through a bounded channel to a client that may read slowly, stop reading or hang
  up, and that gives the slot back when llama-server is done. One step is one move of the
  task, of the client, or of the connection between them.
\<close>

section \<open>State\<close>

text \<open>\<open>Chunk\<close>: bytes of the body; \<open>Broken\<close>: the error the upstream body ends with.\<close>

datatype 'b item = Chunk 'b | Broken

datatype 'b phase =
    Reading            \<comment> \<open>at \<^verbatim>\<open>stream.next().await\<close>\<close>
  | Sending "'b item"  \<comment> \<open>at \<^verbatim>\<open>timeout(client_send_timeout, tx.send(chunk)).await\<close>\<close>
  | Drained            \<comment> \<open>out of the loop, guard not yet dropped\<close>
  | Released           \<comment> \<open>guard dropped, channel still open\<close>
  | Finished

datatype body_end = Open | Complete | Failed

text \<open>
  \<open>upstream\<close> is what llama-server has still to send; \<open>linked\<close>: the task still has the sender
  (\<^verbatim>\<open>client\<close> is \<^verbatim>\<open>Some\<close>); \<open>listening\<close>: the client's side of the channel exists;
  \<open>freed\<close> counts the drops of the slot's guard; \<open>received\<close> is what the client got.
\<close>

record 'b relay =
  upstream :: "'b item list"
  phase :: "'b phase"
  linked :: bool
  listening :: bool
  buffer :: "'b item list"
  abandoned :: bool
  freed :: nat
  received :: "'b item list"
  ending :: body_end

definition forward_channel_chunks :: nat where
  "forward_channel_chunks = 16"

text \<open>
  The state when the upstream body starts. \<open>heard\<close> is \<^verbatim>\<open>head_tx.send(..).is_ok()\<close>: if the
  client is gone already, the sender is dropped at once.
\<close>

definition relay_start :: "'b item list \<Rightarrow> bool \<Rightarrow> 'b relay" where
  "relay_start us heard =
     \<lparr>upstream = us, phase = Reading, linked = heard, listening = heard, buffer = [],
      abandoned = False, freed = 0, received = [], ending = Open\<rparr>"

section \<open>Steps of the task\<close>

text \<open>Where the loop goes after an item: an error ends it.\<close>

definition after_item :: "'b item \<Rightarrow> 'b phase" where
  "after_item x = (case x of Broken \<Rightarrow> Drained | Chunk _ \<Rightarrow> Reading)"

inductive task_step :: "'b relay \<Rightarrow> 'b relay \<Rightarrow> bool" where
  read_linked: "phase r = Reading \<Longrightarrow> upstream r = x # us \<Longrightarrow> linked r \<Longrightarrow>
     task_step r (r\<lparr>upstream := us, phase := Sending x\<rparr>)"
| read_unlinked: "phase r = Reading \<Longrightarrow> upstream r = x # us \<Longrightarrow> \<not> linked r \<Longrightarrow>
     task_step r (r\<lparr>upstream := us, phase := after_item x\<rparr>)"
| upstream_done: "phase r = Reading \<Longrightarrow> upstream r = [] \<Longrightarrow>
     task_step r (r\<lparr>phase := Drained\<rparr>)"
| sent: "phase r = Sending x \<Longrightarrow> listening r \<Longrightarrow> length (buffer r) < forward_channel_chunks \<Longrightarrow>
     task_step r (r\<lparr>buffer := buffer r @ [x], phase := after_item x\<rparr>)"
| hung_up: "phase r = Sending x \<Longrightarrow> \<not> listening r \<Longrightarrow>
     task_step r (r\<lparr>linked := False, phase := after_item x\<rparr>)"
| stalled: "phase r = Sending x \<Longrightarrow> listening r \<Longrightarrow> length (buffer r) = forward_channel_chunks \<Longrightarrow>
     task_step r (r\<lparr>abandoned := True, linked := False, phase := after_item x\<rparr>)"
| drop_guard: "phase r = Drained \<Longrightarrow>
     task_step r (r\<lparr>freed := freed r + 1, phase := Released\<rparr>)"
| drop_client: "phase r = Released \<Longrightarrow>
     task_step r (r\<lparr>linked := False, phase := Finished\<rparr>)"

section \<open>Steps of the client\<close>

text \<open>
  The body stream: a buffered item is passed on (an error ends the body as failed); when the
  buffer is empty and the sender gone, the body ends, as failed if the task gave up on this
  client. The client may hang up at any time.
\<close>

inductive client_step :: "'b relay \<Rightarrow> 'b relay \<Rightarrow> bool" where
  got: "listening r \<Longrightarrow> ending r = Open \<Longrightarrow> buffer r = Chunk c # xs \<Longrightarrow>
     client_step r (r\<lparr>buffer := xs, received := received r @ [Chunk c]\<rparr>)"
| got_error: "listening r \<Longrightarrow> ending r = Open \<Longrightarrow> buffer r = Broken # xs \<Longrightarrow>
     client_step r (r\<lparr>buffer := xs, ending := Failed\<rparr>)"
| body_end: "listening r \<Longrightarrow> ending r = Open \<Longrightarrow> buffer r = [] \<Longrightarrow> \<not> linked r \<Longrightarrow>
     client_step r (r\<lparr>ending := (if abandoned r then Failed else Complete)\<rparr>)"
| hang_up: "listening r \<Longrightarrow> client_step r (r\<lparr>listening := False\<rparr>)"

definition relay_step :: "'b relay \<Rightarrow> 'b relay \<Rightarrow> bool" where
  "relay_step r r' \<longleftrightarrow> task_step r r' \<or> client_step r r'"

definition relay_reach :: "'b item list \<Rightarrow> 'b relay \<Rightarrow> bool" where
  "relay_reach us r \<longleftrightarrow> (\<exists>heard. relay_step\<^sup>*\<^sup>* (relay_start us heard) r)"

section \<open>Invariants\<close>

text \<open>The item the task has read and not yet passed on.\<close>

fun in_hand :: "'b phase \<Rightarrow> 'b item list" where
  "in_hand (Sending x) = [x]"
| "in_hand _ = []"

fun over :: "'b phase \<Rightarrow> bool" where
  "over Reading = False"
| "over (Sending x) = False"
| "over _ = True"

text \<open>\<open>progress seen rest p\<close>: what the task has read so far, as its phase tells.\<close>

definition progress :: "'b item list \<Rightarrow> 'b item list \<Rightarrow> 'b phase \<Rightarrow> bool" where
  "progress seen rest p \<longleftrightarrow>
     (case p of
        Reading \<Rightarrow> Broken \<notin> set seen
      | Sending x \<Rightarrow> \<exists>s. seen = s @ [x] \<and> Broken \<notin> set s
      | _ \<Rightarrow> (rest = [] \<and> Broken \<notin> set seen) \<or> (\<exists>s. seen = s @ [Broken] \<and> Broken \<notin> set s))"

definition relay_ok :: "'b item list \<Rightarrow> 'b relay \<Rightarrow> bool" where
  "relay_ok us r \<longleftrightarrow>
     (\<exists>seen. us = seen @ upstream r \<and> progress seen (upstream r) (phase r) \<and>
        (listening r \<and> \<not> abandoned r \<and> ending r \<noteq> Failed \<longrightarrow>
           received r @ buffer r @ in_hand (phase r) = seen)) \<and>
     (listening r \<and> \<not> linked r \<longrightarrow> abandoned r \<or> phase r = Finished) \<and>
     (linked r \<longrightarrow> \<not> abandoned r \<and> phase r \<noteq> Finished) \<and>
     (ending r = Failed \<and> linked r \<longrightarrow> over (phase r)) \<and>
     (Broken \<in> set (buffer r) \<longrightarrow> over (phase r)) \<and>
     Broken \<notin> set (received r) \<and>
     (ending r = Complete \<longrightarrow> received r = us \<and> phase r = Finished) \<and>
     freed r = (case phase r of Released \<Rightarrow> 1 | Finished \<Rightarrow> 1 | _ \<Rightarrow> 0) \<and>
     length (buffer r) \<le> forward_channel_chunks"

lemma progress_after:
  assumes "progress seen rest (Sending x)"
  shows "progress seen rest (after_item x)"
  using assms by (cases x) (auto simp: progress_def after_item_def)

lemma after_item_simps [simp]:
  "in_hand (after_item x) = []" "after_item x \<noteq> Finished" "after_item x \<noteq> Released"
  "(case after_item x of Released \<Rightarrow> a | Finished \<Rightarrow> a | _ \<Rightarrow> b) = b"
  "over (after_item x) \<longleftrightarrow> x = Broken"
  by (simp_all add: after_item_def split: item.split)

lemma relay_ok_start: "relay_ok us (relay_start us heard)"
  by (simp add: relay_ok_def relay_start_def progress_def)

lemma relay_okI:
  assumes "us = seen @ upstream r" and "progress seen (upstream r) (phase r)"
    and "listening r \<Longrightarrow> \<not> abandoned r \<Longrightarrow> ending r \<noteq> Failed \<Longrightarrow>
      received r @ buffer r @ in_hand (phase r) = seen"
    and "listening r \<Longrightarrow> \<not> linked r \<Longrightarrow> abandoned r \<or> phase r = Finished"
    and "linked r \<Longrightarrow> \<not> abandoned r \<and> phase r \<noteq> Finished"
    and "ending r = Failed \<Longrightarrow> linked r \<Longrightarrow> over (phase r)"
    and "Broken \<in> set (buffer r) \<Longrightarrow> over (phase r)" and "Broken \<notin> set (received r)"
    and "ending r = Complete \<Longrightarrow> received r = us \<and> phase r = Finished"
    and "freed r = (case phase r of Released \<Rightarrow> 1 | Finished \<Rightarrow> 1 | _ \<Rightarrow> 0)"
    and "length (buffer r) \<le> forward_channel_chunks"
  shows "relay_ok us r"
  using assms unfolding relay_ok_def by blast

lemma relay_okE:
  assumes "relay_ok us r"
  obtains seen where "us = seen @ upstream r" and "progress seen (upstream r) (phase r)"
    and "listening r \<Longrightarrow> \<not> abandoned r \<Longrightarrow> ending r \<noteq> Failed \<Longrightarrow>
      received r @ buffer r @ in_hand (phase r) = seen"
    and "listening r \<Longrightarrow> \<not> linked r \<Longrightarrow> abandoned r \<or> phase r = Finished"
    and "linked r \<Longrightarrow> \<not> abandoned r \<and> phase r \<noteq> Finished"
    and "ending r = Failed \<Longrightarrow> linked r \<Longrightarrow> over (phase r)"
    and "Broken \<in> set (buffer r) \<Longrightarrow> over (phase r)" and "Broken \<notin> set (received r)"
    and "ending r = Complete \<Longrightarrow> received r = us \<and> phase r = Finished"
    and "freed r = (case phase r of Released \<Rightarrow> 1 | Finished \<Rightarrow> 1 | _ \<Rightarrow> 0)"
    and "length (buffer r) \<le> forward_channel_chunks"
  using assms unfolding relay_ok_def by blast

lemma relay_ok_task:
  assumes "task_step r r'" and "relay_ok us r"
  shows "relay_ok us r'"
  using assms(2,1)
proof (elim relay_okE)
  fix seen
  assume ok: "us = seen @ upstream r" "progress seen (upstream r) (phase r)"
    "listening r \<Longrightarrow> \<not> abandoned r \<Longrightarrow> ending r \<noteq> Failed \<Longrightarrow>
      received r @ buffer r @ in_hand (phase r) = seen"
    "listening r \<Longrightarrow> \<not> linked r \<Longrightarrow> abandoned r \<or> phase r = Finished"
    "linked r \<Longrightarrow> \<not> abandoned r \<and> phase r \<noteq> Finished"
    "ending r = Failed \<Longrightarrow> linked r \<Longrightarrow> over (phase r)"
    "Broken \<in> set (buffer r) \<Longrightarrow> over (phase r)" "Broken \<notin> set (received r)"
    "ending r = Complete \<Longrightarrow> received r = us \<and> phase r = Finished"
    "freed r = (case phase r of Released \<Rightarrow> 1 | Finished \<Rightarrow> 1 | _ \<Rightarrow> 0)"
    "length (buffer r) \<le> forward_channel_chunks"
  from assms(1) show ?thesis
  proof cases
    case (read_linked x xs)
    show ?thesis
      by (rule relay_okI [of us "seen @ [x]"])
        (use ok read_linked in \<open>auto simp: progress_def\<close>)
  next
    case (read_unlinked x xs)
    have "progress (seen @ [x]) xs (after_item x)"
      by (rule progress_after) (use ok read_unlinked in \<open>auto simp: progress_def\<close>)
    then show ?thesis
      by (intro relay_okI [of us "seen @ [x]"])
        (use ok read_unlinked in auto)
  next
    case upstream_done
    show ?thesis
      by (rule relay_okI [of us seen])
        (use ok upstream_done in \<open>auto simp: progress_def\<close>)
  next
    case (sent x)
    have "progress seen (upstream r) (after_item x)" using ok(2) sent by (intro progress_after) simp
    then show ?thesis
      by (intro relay_okI [of us seen])
        (use ok sent in auto)
  next
    case (hung_up x)
    have "progress seen (upstream r) (after_item x)" using ok(2) hung_up by (intro progress_after) simp
    then show ?thesis
      by (intro relay_okI [of us seen]) (use ok hung_up in auto)
  next
    case (stalled x)
    have "progress seen (upstream r) (after_item x)" using ok(2) stalled by (intro progress_after) simp
    then show ?thesis
      by (intro relay_okI [of us seen]) (use ok stalled in auto)
  next
    case drop_guard
    show ?thesis
      by (rule relay_okI [of us seen])
        (use ok drop_guard in \<open>auto simp: progress_def\<close>)
  next
    case drop_client
    show ?thesis
      by (rule relay_okI [of us seen])
        (use ok drop_client in \<open>auto simp: progress_def\<close>)
  qed
qed

lemma relay_ok_client:
  assumes "client_step r r'" and "relay_ok us r"
  shows "relay_ok us r'"
  using assms(2,1)
proof (elim relay_okE)
  fix seen
  assume ok: "us = seen @ upstream r" "progress seen (upstream r) (phase r)"
    "listening r \<Longrightarrow> \<not> abandoned r \<Longrightarrow> ending r \<noteq> Failed \<Longrightarrow>
      received r @ buffer r @ in_hand (phase r) = seen"
    "listening r \<Longrightarrow> \<not> linked r \<Longrightarrow> abandoned r \<or> phase r = Finished"
    "linked r \<Longrightarrow> \<not> abandoned r \<and> phase r \<noteq> Finished"
    "ending r = Failed \<Longrightarrow> linked r \<Longrightarrow> over (phase r)"
    "Broken \<in> set (buffer r) \<Longrightarrow> over (phase r)" "Broken \<notin> set (received r)"
    "ending r = Complete \<Longrightarrow> received r = us \<and> phase r = Finished"
    "freed r = (case phase r of Released \<Rightarrow> 1 | Finished \<Rightarrow> 1 | _ \<Rightarrow> 0)"
    "length (buffer r) \<le> forward_channel_chunks"
  from assms(1) show ?thesis
  proof cases
    case (got c xs)
    then show ?thesis
      by (intro relay_okI [of us seen]) (use ok got in auto)
  next
    case (got_error xs)
    then show ?thesis
      by (intro relay_okI [of us seen]) (use ok got_error in auto)
  next
    case body_end
    have "received r = us \<and> phase r = Finished" if "\<not> abandoned r"
    proof -
      from ok(4) body_end that have f: "phase r = Finished" by blast
      with ok(3) body_end that have "received r = seen" by simp
      with ok(2,8) f have "upstream r = []" by (auto simp: progress_def)
      with ok(1) \<open>received r = seen\<close> f show ?thesis by simp
    qed
    then show ?thesis
      by (intro relay_okI [of us seen]) (use ok body_end in \<open>auto split: if_splits\<close>)
  next
    case hang_up
    then show ?thesis
      by (intro relay_okI [of us seen]) (use ok hang_up in auto)
  qed
qed

lemma relay_reach_ok:
  assumes "relay_reach us r"
  shows "relay_ok us r"
proof -
  from assms obtain heard where "relay_step\<^sup>*\<^sup>* (relay_start us heard) r"
    by (auto simp: relay_reach_def)
  then show ?thesis
  proof (induction rule: rtranclp_induct)
    case base
    then show ?case by (rule relay_ok_start)
  next
    case (step r r')
    then show ?case by (auto simp: relay_step_def intro: relay_ok_task relay_ok_client)
  qed
qed

section \<open>Properties\<close>

text \<open>A complete run, used as a witness: one chunk, read and passed on.\<close>

lemma relay_reach_start: "relay_reach us (relay_start us heard)"
  by (auto simp: relay_reach_def)

lemma relay_reach_step:
  assumes "relay_step r r'" and "relay_reach us r"
  shows "relay_reach us r'"
  using assms unfolding relay_reach_def by (meson rtranclp.rtrancl_into_rtrancl)

lemma relay_reach_task: "task_step r r' \<Longrightarrow> relay_reach us r \<Longrightarrow> relay_reach us r'"
  by (rule relay_reach_step) (simp_all add: relay_step_def)

lemma relay_reach_client: "client_step r r' \<Longrightarrow> relay_reach us r \<Longrightarrow> relay_reach us r'"
  by (rule relay_reach_step) (simp_all add: relay_step_def)

definition demo_relay :: "nat relay" where
  "demo_relay =
     \<lparr>upstream = [], phase = Finished, linked = False, listening = True, buffer = [],
      abandoned = False, freed = 1, received = [Chunk 1], ending = Complete\<rparr>"

lemma demo_relay_reach: "relay_reach [Chunk 1] demo_relay"
proof -
  let ?s = "\<lambda>u p l b n g e. \<lparr>upstream = u, phase = p, linked = l, listening = True, buffer = b,
    abandoned = False, freed = n, received = g, ending = e\<rparr> :: nat relay"
  let ?c = "Chunk 1 :: nat item"
  have "relay_reach [?c] (?s [?c] Reading True [] 0 [] Open)"
    using relay_reach_start [of "[?c]" True] by (simp add: relay_start_def)
  then have "relay_reach [?c] (?s [] (Sending ?c) True [] 0 [] Open)"
    by (rule relay_reach_task [rotated]) (auto simp: task_step.simps)
  then have "relay_reach [?c] (?s [] Reading True [?c] 0 [] Open)"
    by (rule relay_reach_task [rotated])
      (auto simp: task_step.simps forward_channel_chunks_def after_item_def)
  then have "relay_reach [?c] (?s [] Drained True [?c] 0 [] Open)"
    by (rule relay_reach_task [rotated]) (auto simp: task_step.simps)
  then have "relay_reach [?c] (?s [] Released True [?c] 1 [] Open)"
    by (rule relay_reach_task [rotated]) (auto simp: task_step.simps)
  then have "relay_reach [?c] (?s [] Finished False [?c] 1 [] Open)"
    by (rule relay_reach_task [rotated]) (auto simp: task_step.simps)
  then have "relay_reach [?c] (?s [] Finished False [] 1 [?c] Open)"
    by (rule relay_reach_client [rotated]) (auto simp: client_step.simps)
  then have "relay_reach [?c] (?s [] Finished False [] 1 [?c] Complete)"
    by (rule relay_reach_client [rotated]) (auto simp: client_step.simps)
  then show ?thesis by (simp add: demo_relay_def)
qed

text \<open>
  The slot is given back once, and only when llama-server is done with it. However the
  client reads, stalls or hangs up, the guard is dropped at most once, and never before the
  whole upstream body has been read or its error has been seen.
\<close>

lemma slot_freed_after_upstream:
  assumes "relay_reach us r"
  shows "freed r \<le> 1 \<and>
    (freed r = 0 \<or> upstream r = [] \<or> (\<exists>s. us = s @ Broken # upstream r))"
proof -
  from relay_reach_ok [OF assms] show ?thesis
    by (elim relay_okE) (auto simp: progress_def split: phase.splits)
qed

lemma slot_freed_after_upstream_witness: "freed demo_relay \<le> 1"
  using slot_freed_after_upstream [OF demo_relay_reach] by simp

text \<open>
  C20: A truncated response never looks complete. If the client sees its body end normally, it
  has received every chunk of llama-server's response, in order, that response ended without
  an error, and the slot is already free, so that its next request does not queue behind
  itself. A client that was given up on, or whose upstream broke, sees the body fail.
\<close>

theorem no_silent_truncation:
  assumes "relay_reach us r" and "ending r = Complete"
  shows "received r = us \<and> Broken \<notin> set us \<and> freed r = 1"
  using relay_reach_ok [OF assms(1)] assms(2) by (elim relay_okE) auto

lemma no_silent_truncation_witness: "received demo_relay = [Chunk 1]"
proof -
  have "ending demo_relay = Complete" by (simp add: demo_relay_def)
  from no_silent_truncation [OF demo_relay_reach this] show ?thesis by simp
qed

text \<open>
  The steps the task still needs, at most: two for each item of the upstream body and three
  to finish.
\<close>

definition steps_left :: "'b relay \<Rightarrow> nat" where
  "steps_left r =
     2 * length (upstream r) +
     (case phase r of Reading \<Rightarrow> 3 | Sending _ \<Rightarrow> 4 | Drained \<Rightarrow> 2 | Released \<Rightarrow> 1 | Finished \<Rightarrow> 0)"

lemma steps_left_task:
  assumes "task_step r r'"
  shows "steps_left r' < steps_left r"
  using assms
proof cases
  case (read_unlinked x xs)
  then show ?thesis by (cases x) (simp_all add: steps_left_def after_item_def)
qed (auto simp: steps_left_def after_item_def split: item.splits)

lemma task_enabled:
  assumes "length (buffer r) \<le> forward_channel_chunks" and "phase r \<noteq> Finished"
  shows "\<exists>r'. task_step r r'"
proof (cases "phase r")
  case Reading
  then show ?thesis
    by (cases "upstream r"; cases "linked r")
      (blast intro: read_linked read_unlinked upstream_done)+
next
  case (Sending x)
  have "length (buffer r) < forward_channel_chunks \<or> length (buffer r) = forward_channel_chunks"
    using assms(1) by linarith
  with Sending show ?thesis by (blast intro: sent hung_up stalled)
qed (use assms(2) in \<open>auto intro: drop_guard drop_client\<close>)

text \<open>
  A slow or absent client cannot keep the slot. In every reachable state the task can move
  on by itself until it is finished, every move of it brings it nearer to that, no move of the
  client takes it further away, and by its own moves alone it always comes to free the slot.
\<close>

lemma slot_freed_without_client:
  assumes "relay_reach us r"
  shows "(phase r = Finished \<or> (\<exists>r'. task_step r r')) \<and>
    {r'. task_step r r'} \<subseteq> {r'. steps_left r' < steps_left r} \<and>
    {r'. client_step r r'} \<subseteq> {r'. steps_left r' = steps_left r} \<and>
    (\<exists>r'. task_step\<^sup>*\<^sup>* r r' \<and> freed r' = 1)"
proof (intro conjI)
  show "phase r = Finished \<or> (\<exists>r'. task_step r r')"
    using task_enabled [of r] relay_reach_ok [OF assms] by (auto simp: relay_ok_def)
  show "{r'. task_step r r'} \<subseteq> {r'. steps_left r' < steps_left r}"
    by (auto dest: steps_left_task)
  show "{r'. client_step r r'} \<subseteq> {r'. steps_left r' = steps_left r}"
    by (auto simp: steps_left_def elim!: client_step.cases)
  from relay_reach_ok [OF assms] show "\<exists>r'. task_step\<^sup>*\<^sup>* r r' \<and> freed r' = 1"
  proof (induction "steps_left r" arbitrary: r rule: less_induct)
    case less
    show ?case
    proof (cases "phase r = Finished")
      case True
      with less(2) show ?thesis by (auto simp: relay_ok_def)
    next
      case False
      then obtain r1 where r1: "task_step r r1"
        using task_enabled [of r] less(2) by (auto simp: relay_ok_def)
      with less(1) [OF steps_left_task [OF r1] relay_ok_task [OF r1 less(2)]]
      show ?thesis by (meson converse_rtranclp_into_rtranclp)
    qed
  qed
qed

lemma slot_freed_without_client_witness:
  "\<exists>r'. task_step\<^sup>*\<^sup>* (relay_start [Chunk 1, Chunk (2::nat)] True) r' \<and> freed r' = 1"
  using slot_freed_without_client [OF relay_reach_start] by blast

end
