(* ===== verification/Relay_Exec.thy ===== *)
theory Relay_Exec
  imports Relay
begin

text \<open>
  The relay of a response body as a function: what the forwarding task does next is determined
  by its state, and so is what a reading client gets. The functions are proved to be the step
  relation of Relay, and a client that reads to the end is proved to get what a plain reading
  of llama-server's response gives, whatever the interleaving.
\<close>

section \<open>The task and the client as functions\<close>

text \<open>
  The one move the task can make; \<open>None\<close> once it has finished. While its send waits on a full
  channel its own move is the timeout of the send.
\<close>

definition task_next :: "'b relay \<Rightarrow> 'b relay option" where
  "task_next r =
     (case phase r of
        Reading \<Rightarrow>
          (case upstream r of
             [] \<Rightarrow> Some (r\<lparr>phase := Drained\<rparr>)
           | x # us \<Rightarrow>
               Some (r\<lparr>upstream := us, phase := (if linked r then Sending x else after_item x)\<rparr>))
      | Sending x \<Rightarrow>
          (if \<not> listening r then Some (r\<lparr>linked := False, phase := after_item x\<rparr>)
           else if length (buffer r) < forward_channel_chunks
           then Some (r\<lparr>buffer := buffer r @ [x], phase := after_item x\<rparr>)
           else if length (buffer r) = forward_channel_chunks
           then Some (r\<lparr>abandoned := True, linked := False, phase := after_item x\<rparr>)
           else None)
      | Drained \<Rightarrow> Some (r\<lparr>freed := freed r + 1, phase := Released\<rparr>)
      | Released \<Rightarrow> Some (r\<lparr>linked := False, phase := Finished\<rparr>)
      | Finished \<Rightarrow> None)"

text \<open>One poll of the body by a client that reads; \<open>None\<close> if there is nothing yet, or no more.\<close>

definition client_read :: "'b relay \<Rightarrow> 'b relay option" where
  "client_read r =
     (if \<not> listening r \<or> ending r \<noteq> Open then None
      else
        (case buffer r of
           Chunk c # xs \<Rightarrow> Some (r\<lparr>buffer := xs, received := received r @ [Chunk c]\<rparr>)
         | Broken # xs \<Rightarrow> Some (r\<lparr>buffer := xs, ending := Failed\<rparr>)
         | [] \<Rightarrow>
             (if linked r then None
              else Some (r\<lparr>ending := (if abandoned r then Failed else Complete)\<rparr>))))"

definition client_leave :: "'b relay \<Rightarrow> 'b relay option" where
  "client_leave r = (if listening r then Some (r\<lparr>listening := False\<rparr>) else None)"

lemmas relay_exec_defs [eval_simps] =
  task_next_def client_read_def client_leave_def after_item_def forward_channel_chunks_def
  relay_start_def

lemma task_step_iff: "task_step r r' \<longleftrightarrow> task_next r = Some r'"
  by (auto simp: task_step.simps task_next_def split: phase.splits list.splits)

lemma client_step_iff:
  "client_step r r' \<longleftrightarrow> client_read r = Some r' \<or> client_leave r = Some r'"
  by (auto simp: client_step.simps client_read_def client_leave_def
      split: list.splits item.splits)


section \<open>A patient client\<close>

text \<open>What a plain reading of the upstream body gives: its chunks up to an error, if any.\<close>

definition read_body :: "'b item list \<Rightarrow> 'b item list \<times> body_end" where
  "read_body us =
     (takeWhile (\<lambda>x. x \<noteq> Broken) us, if Broken \<in> set us then Failed else Complete)"

text \<open>A body that failed although the client was not given up on broke upstream.\<close>

definition broke_upstream :: "'b item list \<Rightarrow> 'b relay \<Rightarrow> bool" where
  "broke_upstream us r \<longleftrightarrow>
     (ending r = Failed \<and> \<not> abandoned r \<longrightarrow> prefix (received r @ [Broken]) us)"

lemma broke_upstream_step:
  assumes "relay_step r r'" and "relay_ok us r" and "broke_upstream us r"
  shows "broke_upstream us r'"
  using assms(1) unfolding relay_step_def
proof
  assume "task_step r r'"
  then show ?thesis using assms(3) by cases (auto simp: broke_upstream_def)
next
  assume "client_step r r'"
  then show ?thesis
  proof cases
    case (got_error xs)
    show ?thesis
    proof (cases "abandoned r")
      case True
      with got_error show ?thesis by (simp add: broke_upstream_def)
    next
      case False
      with assms(2) obtain seen
        where "us = seen @ upstream r" and "received r @ buffer r @ in_hand (phase r) = seen"
        using got_error by (elim relay_okE) auto
      with got_error show ?thesis by (auto simp: broke_upstream_def prefix_def)
    qed
  qed (use assms(3) in \<open>auto simp: broke_upstream_def split: if_splits\<close>)
qed

lemma relay_reach_broke:
  assumes "relay_reach us r"
  shows "broke_upstream us r"
proof -
  from assms obtain heard where "relay_step\<^sup>*\<^sup>* (relay_start us heard) r"
    by (auto simp: relay_reach_def)
  then show ?thesis
  proof (induction rule: rtranclp_induct)
    case base
    then show ?case by (simp add: broke_upstream_def relay_start_def)
  next
    case (step r r')
    from step.hyps(1) have "relay_reach us r" by (auto simp: relay_reach_def)
    from broke_upstream_step [OF step.hyps(2) relay_reach_ok [OF this] step.IH] show ?case .
  qed
qed

lemma takeWhile_broken:
  assumes "prefix (xs @ [Broken]) us" and "Broken \<notin> set xs"
  shows "read_body us = (xs, Failed)"
proof -
  from assms(1) obtain zs where us: "us = xs @ Broken # zs" by (auto simp: prefix_def)
  have "takeWhile (\<lambda>x. x \<noteq> Broken) (xs @ Broken # zs) = xs"
    using assms(2) by (subst takeWhile_append2) auto
  with us show ?thesis by (simp add: read_body_def)
qed

lemma read_body_whole: "Broken \<notin> set us \<Longrightarrow> read_body us = (us, Complete)"
  by (auto simp: read_body_def takeWhile_eq_all_conv)

text \<open>
  C21: The relay is transparent. Once the task has nothing left to do and the client nothing left
  to read, a client that did not hang up and was not given up on has exactly what reading
  llama-server's response directly gives, chunks and kind of end, and the slot is free:
  buffering, the size of the channel and the interleaving make no difference.
\<close>

theorem relay_equals_reading:
  assumes "relay_reach us r" and "task_next r = None" and "client_read r = None"
    and "listening r" and "\<not> abandoned r"
  shows "(received r, ending r) = read_body us \<and> freed r = 1"
proof -
  note ok = relay_reach_ok [OF assms(1)]
  have fin: "phase r = Finished"
    using task_enabled [of r] ok assms(2) by (auto simp: relay_ok_def task_step_iff)
  with ok have free: "freed r = 1" and clean: "Broken \<notin> set (received r)"
    and cut: "\<not> linked r" by (auto simp: relay_ok_def)
  from assms(3,4) cut have "ending r \<noteq> Open"
    by (auto simp: client_read_def split: list.splits item.splits if_splits)
  then consider "ending r = Complete" | "ending r = Failed" by (cases "ending r") auto
  then show ?thesis
  proof cases
    case 1
    with ok have got: "received r = us" by (simp add: relay_ok_def)
    with clean have "read_body us = (us, Complete)" by (simp add: read_body_whole)
    with got 1 free show ?thesis by simp
  next
    case 2
    with relay_reach_broke [OF assms(1)] assms(5)
    have "prefix (received r @ [Broken]) us" by (simp add: broke_upstream_def)
    from takeWhile_broken [OF this clean] 2 free show ?thesis by simp
  qed
qed

lemma relay_equals_reading_witness: "read_body [Chunk (1::nat)] = ([Chunk 1], Complete)"
proof -
  have "task_next demo_relay = None" and "client_read demo_relay = None" and "listening demo_relay"
    and "\<not> abandoned demo_relay"
    by (simp_all add: demo_relay_def task_next_def client_read_def)
  from relay_equals_reading [OF demo_relay_reach this] show ?thesis by (simp add: demo_relay_def)
qed

end
