(* ===== verification/Relay_Time.thy ===== *)
theory Relay_Time
  imports Relay_Exec
begin

text \<open>
  The relay of a response body with a clock: how long a client that reads slowly, or not at all,
  can hold up the task that has its slot (\<^verbatim>\<open>CLIENT_SEND_TIMEOUT\<close> in src/src/server.rs).
\<close>

section \<open>The relay and the clock\<close>

text \<open>
  \<open>send_began\<close> is when the send in progress was started; \<open>held_up\<close> is the time the task has
  spent in sends so far.
\<close>

record 'b timed_relay =
  body :: "'b relay"
  clock_at :: instant
  send_began :: instant
  held_up :: duration

datatype relay_event = Task_Moves | Client_Reads | Client_Leaves | Time_Passes duration

definition sending :: "'b relay \<Rightarrow> bool" where
  "sending r \<longleftrightarrow> (case phase r of Sending _ \<Rightarrow> True | _ \<Rightarrow> False)"

text \<open>The send waits: the client is there and the channel is full.\<close>

definition client_blocks :: "'b relay \<Rightarrow> bool" where
  "client_blocks r \<longleftrightarrow> sending r \<and> listening r \<and> forward_channel_chunks \<le> length (buffer r)"

definition timed_start :: "'b item list \<Rightarrow> bool \<Rightarrow> 'b timed_relay" where
  "timed_start us heard =
     \<lparr>body = relay_start us heard, clock_at = 0, send_began = 0, held_up = 0\<rparr>"

text \<open>\<^verbatim>\<open>tokio::time::timeout(client_send_timeout, tx.send(chunk))\<close>: it gives up at the timeout, not before.\<close>

fun exec_timed :: "duration \<Rightarrow> relay_event \<Rightarrow> 'b timed_relay \<Rightarrow> 'b timed_relay option" where
  "exec_timed timeout Task_Moves t =
     (if client_blocks (body t) \<and> clock_at t < send_began t + timeout then None
      else map_option (\<lambda>r. t\<lparr>body := r, send_began := (if sending r then clock_at t else send_began t)\<rparr>)
        (task_next (body t)))"
| "exec_timed timeout Client_Reads t = map_option (\<lambda>r. t\<lparr>body := r\<rparr>) (client_read (body t))"
| "exec_timed timeout Client_Leaves t = map_option (\<lambda>r. t\<lparr>body := r\<rparr>) (client_leave (body t))"
| "exec_timed timeout (Time_Passes d) t =
     Some (t\<lparr>clock_at := clock_at t + d,
             held_up := held_up t + (if sending (body t) then d else 0)\<rparr>)"

text \<open>
  On time: a send that can end ends at once, and one that waits is given up within \<open>slack\<close> of its
  timeout.
\<close>

fun on_schedule :: "duration \<Rightarrow> duration \<Rightarrow> relay_event \<Rightarrow> 'b timed_relay \<Rightarrow> bool" where
  "on_schedule timeout slack (Time_Passes d) t \<longleftrightarrow>
     (sending (body t) \<longrightarrow>
        client_blocks (body t) \<and> clock_at t + d \<le> send_began t + timeout + slack)"
| "on_schedule timeout slack e t \<longleftrightarrow> True"

inductive timed_reach :: "duration \<Rightarrow> duration \<Rightarrow> 'b timed_relay \<Rightarrow> 'b timed_relay \<Rightarrow> bool"
  for timeout slack t0 where
  timed_reach_start: "timed_reach timeout slack t0 t0"
| timed_reach_event: "timed_reach timeout slack t0 t \<Longrightarrow> on_schedule timeout slack e t \<Longrightarrow>
     exec_timed timeout e t = Some t' \<Longrightarrow> timed_reach timeout slack t0 t'"

fun run_timed :: "duration \<Rightarrow> relay_event list \<Rightarrow> 'b timed_relay \<Rightarrow> 'b timed_relay option" where
  "run_timed timeout [] t = Some t"
| "run_timed timeout (e # es) t =
     (case exec_timed timeout e t of None \<Rightarrow> None | Some t' \<Rightarrow> run_timed timeout es t')"

fun scheduled_run :: "duration \<Rightarrow> duration \<Rightarrow> relay_event list \<Rightarrow> 'b timed_relay \<Rightarrow> bool" where
  "scheduled_run timeout slack [] t \<longleftrightarrow> True"
| "scheduled_run timeout slack (e # es) t \<longleftrightarrow>
     on_schedule timeout slack e t \<and>
     (case exec_timed timeout e t of None \<Rightarrow> True | Some t' \<Rightarrow> scheduled_run timeout slack es t')"

lemma timed_reach_run:
  "run_timed timeout es t = Some t' \<Longrightarrow> scheduled_run timeout slack es t \<Longrightarrow>
     timed_reach timeout slack t0 t \<Longrightarrow> timed_reach timeout slack t0 t'"
  by (induction es arbitrary: t)
    (auto split: option.splits intro: timed_reach_event simp del: exec_timed.simps)

lemmas timed_defs [eval_simps] = sending_def client_blocks_def timed_start_def

section \<open>What a client can cost\<close>

text \<open>
  Each chunk the client takes pays for one wait of the task; one more wait is open, or was the
  last.
\<close>

definition allowance :: "duration \<Rightarrow> 'b timed_relay \<Rightarrow> duration" where
  "allowance W t =
     length (received (body t)) * W +
     (if \<not> linked (body t) then W
      else if sending (body t) \<and> (listening (body t) \<longrightarrow> client_blocks (body t))
      then clock_at t - send_began t
      else 0)"

definition timed_ok :: "duration \<Rightarrow> duration \<Rightarrow> 'b timed_relay \<Rightarrow> bool" where
  "timed_ok timeout W t \<longleftrightarrow>
     send_began t \<le> clock_at t \<and>
     (sending (body t) \<longrightarrow>
        linked (body t) \<and> clock_at t - send_began t \<le> W \<and> clock_at t - send_began t \<le> held_up t) \<and>
     held_up t \<le> allowance W t \<and>
     (abandoned (body t) \<longrightarrow> timeout \<le> held_up t)"

lemma sending_simps [simp]:
  "sending (r\<lparr>phase := p\<rparr>) = (case p of Sending _ \<Rightarrow> True | _ \<Rightarrow> False)"
  "sending (r\<lparr>buffer := b\<rparr>) = sending r" "sending (r\<lparr>received := g\<rparr>) = sending r"
  "sending (r\<lparr>ending := e\<rparr>) = sending r" "sending (r\<lparr>listening := l\<rparr>) = sending r"
  "phase r = Sending x \<Longrightarrow> sending r" "phase r = Reading \<Longrightarrow> \<not> sending r"
  "phase r = Drained \<Longrightarrow> \<not> sending r" "phase r = Released \<Longrightarrow> \<not> sending r"
  by (simp_all add: sending_def)

lemma sending_after_item [simp]: "\<not> sending (r\<lparr>phase := after_item x\<rparr>)"
  by (cases x) (simp_all add: after_item_def)

lemma timed_ok_task:
  assumes ok: "timed_ok timeout W t" and r: "task_step (body t) r"
    and wait: "client_blocks (body t) \<Longrightarrow> send_began t + timeout \<le> clock_at t"
  shows "timed_ok timeout W
    (t\<lparr>body := r, send_began := (if sending r then clock_at t else send_began t)\<rparr>)"
  using r
proof cases
  case (read_linked x us)
  with ok show ?thesis by (simp add: timed_ok_def allowance_def)
next
  case (read_unlinked x us)
  with ok show ?thesis by (cases x) (simp_all add: timed_ok_def allowance_def after_item_def split: if_splits)
next
  case upstream_done
  with ok show ?thesis by (simp add: timed_ok_def allowance_def split: if_splits)
next
  case (sent x)
  then have "\<not> client_blocks (body t)" by (simp add: client_blocks_def)
  with sent ok show ?thesis by (cases x) (simp_all add: timed_ok_def allowance_def after_item_def split: if_splits)
next
  case (hung_up x)
  with ok show ?thesis by (cases x) (simp_all add: timed_ok_def allowance_def after_item_def split: if_splits)
next
  case (stalled x)
  then have blocks: "client_blocks (body t)" by (simp add: client_blocks_def)
  with wait have "send_began t + timeout \<le> clock_at t" by simp
  moreover from ok stalled(2) blocks have "clock_at t - send_began t \<le> W"
    and "clock_at t - send_began t \<le> held_up t"
    and "held_up t \<le> length (received (body t)) * W + W" and "send_began t \<le> clock_at t"
    by (simp_all add: timed_ok_def allowance_def split: if_splits)
  moreover have "\<not> sending r" using stalled(1) by (cases x) (simp_all add: after_item_def)
  ultimately show ?thesis using stalled(1) by (simp add: timed_ok_def allowance_def)
next
  case drop_guard
  with ok show ?thesis by (simp add: timed_ok_def allowance_def split: if_splits)
next
  case drop_client
  with ok show ?thesis by (simp add: timed_ok_def allowance_def split: if_splits)
qed

lemma timed_ok_read:
  assumes ok: "timed_ok timeout W t" and r: "client_read (body t) = Some r"
    and quiet: "Broken \<in> set (buffer (body t)) \<Longrightarrow> \<not> sending (body t)"
  shows "timed_ok timeout W (t\<lparr>body := r\<rparr>)"
proof (cases "buffer (body t)")
  case Nil
  with r ok show ?thesis
    by (auto simp: client_read_def timed_ok_def allowance_def client_blocks_def split: if_splits)
next
  case (Cons x xs)
  show ?thesis
  proof (cases x)
    case (Chunk c)
    with Cons r have r': "r = (body t)\<lparr>buffer := xs, received := received (body t) @ [Chunk c]\<rparr>"
      by (simp add: client_read_def split: if_splits)
    from ok have "held_up t \<le> length (received (body t)) * W + W" if "sending (body t)"
      using that by (simp add: timed_ok_def allowance_def split: if_splits)
    moreover from ok have "held_up t \<le> length (received (body t)) * W + W" if "\<not> sending (body t)"
      using that by (simp add: timed_ok_def allowance_def split: if_splits)
    ultimately have "held_up t \<le> length (received (body t)) * W + W" by blast
    with ok show ?thesis unfolding r' by (simp add: timed_ok_def allowance_def)
  next
    case Broken
    with Cons r have r': "r = (body t)\<lparr>buffer := xs, ending := Failed\<rparr>"
      by (simp add: client_read_def split: if_splits)
    from quiet Cons Broken ok show ?thesis unfolding r' by (simp add: timed_ok_def allowance_def split: if_splits)
  qed
qed

lemma timed_ok_event:
  assumes ok: "timed_ok timeout (timeout + slack) t" and sound: "relay_ok us (body t)"
    and sched: "on_schedule timeout slack e t" and step: "exec_timed timeout e t = Some t'"
  shows "timed_ok timeout (timeout + slack) t'"
proof (cases e)
  case Task_Moves
  with step obtain r where "task_step (body t) r"
    and "client_blocks (body t) \<Longrightarrow> send_began t + timeout \<le> clock_at t"
    and "t' = t\<lparr>body := r, send_began := (if sending r then clock_at t else send_began t)\<rparr>"
    by (auto simp: task_step_iff split: if_splits)
  with timed_ok_task [OF ok] show ?thesis by blast
next
  case Client_Reads
  have "Broken \<in> set (buffer (body t)) \<Longrightarrow> \<not> sending (body t)"
    using sound by (auto simp: relay_ok_def sending_def split: phase.splits)
  with Client_Reads step timed_ok_read [OF ok] show ?thesis by auto
next
  case Client_Leaves
  with step ok show ?thesis
    by (auto simp: client_leave_def timed_ok_def allowance_def client_blocks_def split: if_splits)
next
  case (Time_Passes d)
  show ?thesis
  proof (cases "sending (body t)")
    case True
    with Time_Passes step sched ok show ?thesis
      by (auto simp: timed_ok_def allowance_def client_blocks_def split: if_splits)
  next
    case False
    with Time_Passes step ok show ?thesis by (auto simp: timed_ok_def allowance_def)
  qed
qed

lemma exec_timed_relay_step:
  "exec_timed timeout e t = Some t' \<Longrightarrow> body t' = body t \<or> relay_step (body t) (body t')"
  by (cases e) (auto simp: relay_step_def task_step_iff client_step_iff split: if_splits)

lemma timed_reach_ok:
  assumes "timed_reach timeout slack (timed_start us heard) t"
  shows "timed_ok timeout (timeout + slack) t \<and> relay_reach us (body t)"
  using assms
proof induction
  case timed_reach_start
  have "timed_ok timeout (timeout + slack) (timed_start us heard :: 'a timed_relay)"
    by (simp add: timed_ok_def timed_start_def relay_start_def sending_def allowance_def)
  then show ?case by (simp add: timed_start_def relay_reach_start)
next
  case (timed_reach_event t e t')
  then have "relay_ok us (body t)" by (simp add: relay_reach_ok)
  with timed_reach_event timed_ok_event have "timed_ok timeout (timeout + slack) t'" by blast
  moreover have "relay_reach us (body t')"
    using exec_timed_relay_step [OF timed_reach_event.hyps(3)] timed_reach_event.IH
    by (auto intro: relay_reach_step)
  ultimately show ?case by simp
qed

text \<open>
  C8: A client holds up the task that has its slot for at most one send timeout for each chunk it
  takes and one more, and the task gives up on a client only after it has waited out the timeout.
\<close>

theorem client_cost_is_bounded:
  assumes "timed_reach timeout slack (timed_start us heard) t"
  shows "held_up t \<le> (length (received (body t)) + 1) * (timeout + slack) \<and>
    (abandoned (body t) \<longrightarrow> timeout \<le> held_up t)"
  using timed_reach_ok [OF assms] by (auto simp: timed_ok_def allowance_def split: if_splits)

text \<open>
  A client that never reads a body of twenty chunks, with a clock in seconds: sixteen fit the
  channel, the send of the seventeenth waits, and after thirty seconds the task gives up and reads on without it.
\<close>

definition silent_client :: "relay_event list" where
  "silent_client = replicate 33 Task_Moves @ [Time_Passes 30] @ replicate 6 Task_Moves"

definition twenty_chunks :: "nat item list" where
  "twenty_chunks = map Chunk [0..<20]"

lemma client_cost_is_bounded_witness:
  "\<exists>t. timed_reach 30 1 (timed_start twenty_chunks True) t \<and> abandoned (body t) \<and>
     freed (body t) = 1 \<and> held_up t = 30 \<and>
     held_up t \<le> (length (received (body t)) + 1) * (30 + 1)"
proof -
  have "case run_timed 30 silent_client (timed_start twenty_chunks True) of
      Some t \<Rightarrow> abandoned (body t) \<and> freed (body t) = 1 \<and> held_up t = 30 | None \<Rightarrow> False"
    by code_simp
  then obtain t where "run_timed 30 silent_client (timed_start twenty_chunks True) = Some t"
    and facts: "abandoned (body t)" "freed (body t) = 1" "held_up t = 30"
    by (auto split: option.splits)
  moreover have "scheduled_run 30 1 silent_client (timed_start twenty_chunks True)"
    by code_simp
  ultimately have "timed_reach 30 1 (timed_start twenty_chunks True) t"
    using timed_reach_run timed_reach_start by blast
  with client_cost_is_bounded [OF this] facts show ?thesis by blast
qed

end
