(* ===== verification/Server.thy ===== *)
theory Server
  imports Sched_Safety Gpu_Lock_System Host_Guard Forward Relay Vram_Cache
begin

text \<open>
  The HTTP handlers (src/src/server.rs): what they read from a request, what they answer, and
  the router with its guard. The asynchronous parts are modelled where they belong: waiting
  for a slot in Sched_System, the GPU lock in Gpu_Lock_System, preparing and posting in
  Forward, the response body in Relay, the GPU probe in Vram_Cache.
\<close>

section \<open>The slot hint of a request\<close>

text \<open>
  \<^verbatim>\<open>serde_json::from_value::<SlotHint>\<close>: from an object, whose other fields are ignored, or
  from an array of exactly the two fields on the wire. The model is not on the wire.
\<close>

fun optional_u32 :: "json \<Rightarrow> u32 option option" where
  "optional_u32 Null = Some None"
| "optional_u32 (Unsigned n) = (if n \<le> 0xFFFFFFFF then Some (Some (ucast n)) else None)"
| "optional_u32 _ = None"

definition wire_hint :: "json option \<Rightarrow> json option \<Rightarrow> slot_hint option" where
  "wire_hint hash preferred =
     (case hash of
        Some (Str p) \<Rightarrow>
          (case (case preferred of None \<Rightarrow> Some None | Some v \<Rightarrow> optional_u32 v) of
             None \<Rightarrow> None
           | Some k \<Rightarrow> Some \<lparr>prefix_hash = p, preferred_slot = k, hint_model = None\<rparr>)
      | _ \<Rightarrow> None)"

fun slot_hint_of :: "json \<Rightarrow> slot_hint option" where
  "slot_hint_of (Obj es) = wire_hint (map_of es ''prefix_hash'') (map_of es ''preferred_slot'')"
| "slot_hint_of (Arr [p, k]) = wire_hint (Some p) (Some k)"
| "slot_hint_of _ = None"

text \<open>The start of \<^verbatim>\<open>chat_completions\<close>: the hint, and the body without it.\<close>

definition split_request :: "json \<Rightarrow> slot_hint option \<times> json" where
  "split_request body =
     (let model = Option.bind (json_get ''model'' body) as_str;
          (removed, rest) = json_remove ''aivyx_slot_hint'' body
      in (map_option (\<lambda>h. h\<lparr>hint_model := model\<rparr>) (Option.bind removed slot_hint_of), rest))"

section \<open>The answer to a chat request\<close>

text \<open>
  What the forwarding task sends back first; \<open>No_Head\<close> if it ended without. \<open>'b\<close> is the rest of
  llama-server's response, its headers and body, which nothing here looks into. A response
  built from the status and headers of another is valid, so the handler's fallback for one
  that is not is never reached.
\<close>

datatype 'b head_result = Head nat "'b option" | Head_Error upstream_error | No_Head

datatype 'b chat_answer = Own response | Relayed nat "'b option"

definition forward_head :: "upstream_error + nat \<times> 'b option \<Rightarrow> 'b head_result" where
  "forward_head r = (case r of Inl e \<Rightarrow> Head_Error e | Inr (code, b) \<Rightarrow> Head code b)"

text \<open>The forwarding task up to the head: preparing the slot and posting the request.\<close>

definition chat_job :: "'b answers \<Rightarrow> json \<Rightarrow> admission \<Rightarrow> 'b head_result \<times> action list" where
  "chat_job ans body a =
     (let (hint, rest) = split_request body;
          (r, acts) = send_upstream ans rest hint a
      in (forward_head r, acts))"

text \<open>
  \<open>None\<close>: admission timed out. \<open>describe\<close> is the text of an error of the HTTP client.
\<close>

definition chat_answer :: "(upstream_error \<Rightarrow> string) \<Rightarrow> 'b head_result option \<Rightarrow> 'b chat_answer" where
  "chat_answer describe outcome =
     (case outcome of
        None \<Rightarrow> Own \<lparr>resp_status = 503, resp_body = error_body ''timed out waiting for a free slot''\<rparr>
      | Some (Head code b) \<Rightarrow> Relayed code b
      | Some (Head_Error e) \<Rightarrow> Own \<lparr>resp_status = 502, resp_body = error_body (describe e)\<rparr>
      | Some No_Head \<Rightarrow>
          Own \<lparr>resp_status = 502, resp_body = error_body ''forwarding task ended without a response''\<rparr>)"

section \<open>Status, slots and residency\<close>

definition status_handler :: "string \<Rightarrow> response" where
  "status_handler url =
     \<lparr>resp_status = 200,
      resp_body = Obj [(''llama_server_url'', Str url), (''queue_depth'', Unsigned 0)]\<rparr>"

definition optional_json :: "string option \<Rightarrow> json" where
  "optional_json s = (case s of None \<Rightarrow> Null | Some x \<Rightarrow> Str x)"

definition snapshot_json :: "slot_snapshot \<Rightarrow> json" where
  "snapshot_json s =
     Obj [(''slot_id'', slot_json (snap_slot_id s)), (''busy'', Bool (snap_busy s)),
          (''resident_prefix'', optional_json (snap_resident_prefix s)),
          (''resident_model'', optional_json (snap_resident_model s))]"

definition slots_handler :: "inner \<Rightarrow> response" where
  "slots_handler st =
     \<lparr>resp_status = 200, resp_body = Arr (map snapshot_json (snapshot st))\<rparr>"

definition vram_json :: "vram option \<Rightarrow> json" where
  "vram_json v =
     (case v of
        None \<Rightarrow> Null
      | Some x \<Rightarrow> Obj [(''total_bytes'', Unsigned (total_bytes x)), (''used_bytes'', Unsigned (used_bytes x))])"

definition model_json :: "loaded_model \<Rightarrow> json" where
  "model_json m = Obj [(''id'', Str (model_name m)), (''loaded'', Bool (loaded m))]"

definition busy_count :: "inner \<Rightarrow> nat" where
  "busy_count st = length (filter snap_busy (snapshot st))"

definition residency_handler :: "json reply \<Rightarrow> vram option \<Rightarrow> inner \<Rightarrow> response" where
  "residency_handler models_reply v st =
     \<lparr>resp_status = 200,
      resp_body =
        Obj [(''models'',
               Arr (map model_json (case fetch_models models_reply of Inl _ \<Rightarrow> [] | Inr ms \<Rightarrow> ms))),
             (''vram'', vram_json v),
             (''slots'',
               Obj [(''busy'', slot_json (of_nat (busy_count st))),
                    (''total'', slot_json (of_nat (length (snapshot st))))])]\<rparr>"

section \<open>The GPU lock over HTTP\<close>

text \<open>
  \<open>show_uuid\<close> and \<open>parse_uuid\<close> are those of the UUID library. The acquire handler answers when
  its call of \<^verbatim>\<open>acquire\<close> has returned.
\<close>

definition gpu_lock_acquire_answer ::
  "(lease_id \<Rightarrow> string) \<Rightarrow> (unit, lease_id) task \<Rightarrow> response option" where
  "gpu_lock_acquire_answer show_uuid t =
     (case t of
        Holding l \<Rightarrow> Some \<lparr>resp_status = 200, resp_body = Obj [(''lease_id'', Str (show_uuid l))]\<rparr>
      | TimedOut \<Rightarrow>
          Some \<lparr>resp_status = 503, resp_body = error_body ''timed out waiting for the GPU lock''\<rparr>
      | _ \<Rightarrow> None)"

definition gpu_lock_release_handler ::
  "(string \<Rightarrow> lease_id option) \<Rightarrow> (chan \<Rightarrow> bool) \<Rightarrow> string \<Rightarrow> lock_inner \<Rightarrow>
     response \<times> lock_inner \<times> chan list" where
  "gpu_lock_release_handler parse_uuid live lease_text s =
     (case parse_uuid lease_text of
        None \<Rightarrow>
          (\<lparr>resp_status = 400, resp_body = error_body ''lease_id is not a valid UUID''\<rparr>, s, [])
      | Some l \<Rightarrow>
          (case release_lease live l s of
             (Inr _, s', sent) \<Rightarrow> (\<lparr>resp_status = 200, resp_body = Null\<rparr>, s', sent)
           | (Inl _, s', sent) \<Rightarrow>
               (\<lparr>resp_status = 404,
                 resp_body = error_body ''lease not found, already released, or expired''\<rparr>, s', sent)))"

section \<open>The router\<close>

datatype endpoint =
    Chat_Completions | Status | Slots | Residency | Gpu_Acquire | Gpu_Release
  | Not_Found | Method_Not_Allowed

definition get_route :: "string \<Rightarrow> endpoint \<Rightarrow> endpoint" where
  "get_route meth e = (if meth = ''GET'' \<or> meth = ''HEAD'' then e else Method_Not_Allowed)"

definition post_route :: "string \<Rightarrow> endpoint \<Rightarrow> endpoint" where
  "post_route meth e = (if meth = ''POST'' then e else Method_Not_Allowed)"

definition route :: "string \<Rightarrow> string \<Rightarrow> endpoint" where
  "route meth path =
     (if path = ''/v1/chat/completions'' then post_route meth Chat_Completions
      else if path = ''/status'' then get_route meth Status
      else if path = ''/slots'' then get_route meth Slots
      else if path = ''/v1/aivyx/residency'' then get_route meth Residency
      else if path = ''/gpu-lock/acquire'' then post_route meth Gpu_Acquire
      else if path = ''/gpu-lock/release'' then post_route meth Gpu_Release
      else Not_Found)"

text \<open>\<open>handler e\<close> is the endpoint's effect on the state of the service and what it answers;
  \<open>into_response\<close> makes an answer of a plain response.\<close>

definition build_router ::
  "(response \<Rightarrow> 'r) \<Rightarrow> string list \<Rightarrow> (endpoint \<Rightarrow> 's \<Rightarrow> 'r \<times> 's) \<Rightarrow> string \<Rightarrow> string \<Rightarrow>
     string option \<Rightarrow> 's \<Rightarrow> 'r \<times> 's" where
  "build_router into_response allowed_hosts handler meth path host s =
     enforce_allowed_host into_response allowed_hosts host (handler (route meth path)) s"

lemmas server_defs [eval_simps] =
  wire_hint_def split_request_def forward_head_def chat_job_def chat_answer_def status_handler_def
  optional_json_def snapshot_json_def slots_handler_def vram_json_def model_json_def busy_count_def
  residency_handler_def gpu_lock_acquire_answer_def gpu_lock_release_handler_def get_route_def
  post_route_def route_def build_router_def

section \<open>What reaches llama-server\<close>

lemma split_request_rest: "snd (split_request body) = snd (json_remove ''aivyx_slot_hint'' body)"
  by (simp add: split_request_def case_prod_unfold Let_def)

lemma remove_object: "snd (json_remove k (Obj es)) = Obj (AList.delete k es)"
  by simp

lemma send_upstream_posts:
  assumes "Post b \<in> set (snd (send_upstream ans body hint a))"
  shows "b = post_body body (slot_id a)"
proof (cases hint)
  case (Some h)
  with assms show ?thesis
    by (cases rule: warm_or_restore_cases [of ans body h "slot_id a"])
      (auto simp: send_upstream_def send_post_def split: if_splits)
qed (use assms in \<open>auto simp: send_upstream_def send_post_def\<close>)

text \<open>
  C33: End to end, what llama-server is asked is what the client asked. Whatever the hint and
  the preparation of the slot, if a request is posted then it is the client's object with
  exactly two differences: the broker's own hint field is gone, and the slot is the admitted
  one.
\<close>

theorem posted_is_clients_request:
  assumes "Post b \<in> set (snd (chat_job ans (Obj es) a))"
  shows "json_get f b =
    (if f = ''id_slot'' then Some (slot_json (slot_id a))
     else if f = ''aivyx_slot_hint'' then None
     else json_get f (Obj es))"
proof -
  obtain hint rest where s: "split_request (Obj es) = (hint, rest)" by fastforce
  then have rest: "rest = Obj (AList.delete ''aivyx_slot_hint'' es)"
    using split_request_rest [of "Obj es"] by simp
  from assms s have "Post b \<in> set (snd (send_upstream ans rest hint a))"
    by (simp add: chat_job_def case_prod_unfold Let_def)
  then have "b = post_body rest (slot_id a)" by (rule send_upstream_posts)
  then show ?thesis by (simp add: rest post_body_def update_conv' delete_conv')
qed

definition demo_request :: "(string \<times> json) list" where
  "demo_request =
     [(''model'', Str ''m''), (''messages'', Arr []), (''id_slot'', Unsigned 7),
      (''aivyx_slot_hint'', Obj [(''prefix_hash'', Str ''p''), (''preferred_slot'', Unsigned 1)])]"

lemma posted_is_clients_request_witness:
  "json_get ''id_slot''
     (post_body (Obj (AList.delete ''aivyx_slot_hint'' demo_request)) 1) = Some (Unsigned 1)"
proof -
  let ?a = "\<lparr>slot_id = 1, cache_ready = True\<rparr>"
  have "Post (post_body (Obj (AList.delete ''aivyx_slot_hint'' demo_request)) 1) \<in>
      set (snd (chat_job failing_answers (Obj demo_request) ?a))"
    by (simp add: chat_job_def demo_request_def split_request_def wire_hint_def send_upstream_def
        send_post_def Let_def)
  from posted_is_clients_request [OF this, of "''id_slot''"] show ?thesis
    by (simp add: slot_json_def)
qed

text \<open>
  Hints are optional. The hint of a request carries the prefix of the hint field, its slot
  if it names one that fits in 32 bits, and the model the request is for, never one from the
  field itself; a field that is missing or malformed counts as no hint, and is removed all the
  same.
\<close>

lemma hint_of_request:
  "split_request (Obj es) =
     (case map_of es ''aivyx_slot_hint'' of
        Some (Obj hs) \<Rightarrow>
          (case (map_of hs ''prefix_hash'', map_of hs ''preferred_slot'') of
             (Some (Str p), None) \<Rightarrow>
               Some (demo_hint p None (Option.bind (map_of es ''model'') as_str))
           | (Some (Str p), Some Null) \<Rightarrow>
               Some (demo_hint p None (Option.bind (map_of es ''model'') as_str))
           | (Some (Str p), Some (Unsigned n)) \<Rightarrow>
               if unat n < 2 ^ 32
               then Some (demo_hint p (Some (of_nat (unat n))) (Option.bind (map_of es ''model'') as_str))
               else None
           | _ \<Rightarrow> None)
      | Some v \<Rightarrow> map_option (\<lambda>h. h\<lparr>hint_model := Option.bind (map_of es ''model'') as_str\<rparr>) (slot_hint_of v)
      | None \<Rightarrow> None,
      Obj (AList.delete ''aivyx_slot_hint'' es))"
proof -
  have fits: "n \<le> 0xFFFFFFFF \<longleftrightarrow> unat n < 2 ^ 32" for n :: u64
    by (simp add: word_le_nat_alt less_Suc_eq_le [symmetric])
  have "ucast n = (of_nat (unat n) :: u32)" for n :: u64 by simp
  then show ?thesis
    by (auto simp: split_request_def wire_hint_def demo_hint_def fits Let_def
        split: option.splits json.splits)
qed

section \<open>Reported pressure\<close>

text \<open>The requests that hold a slot.\<close>

definition holders :: "sched_world \<Rightarrow> nat set" where
  "holders w = {i. \<exists>a. tasks w i = Holding a}"

lemma busy_count_pool: "busy_count st = length (filter (\<lambda>s. s \<noteq> Free) (pool st))"
proof -
  have "snap_busy (snapshot st ! k) \<longleftrightarrow> pool st ! k \<noteq> Free" if "k < length (slots st)" for k
    using that by (simp add: snapshot_def nth_enumerate_eq pool_def status_of_def)
  moreover have "length (snapshot st) = length (slots st)" by (simp add: snapshot_def)
  ultimately show ?thesis
    by (simp add: busy_count_def length_filter_conv_card) (metis (lifting))
qed

lemma card_owned:
  assumes "owned_by ps T"
  shows "length (filter (\<lambda>s. s = Owned) ps) = card {i. \<exists>a. T i = Holding a}"
proof -
  let ?f = "\<lambda>i. case T i of Holding a \<Rightarrow> unat (slot_id a) | _ \<Rightarrow> 0"
  let ?H = "{i. \<exists>a. T i = Holding a}"
  have inj: "inj_on ?f ?H"
    using assms by (auto simp: inj_on_def owned_by_def word_unat_eq_iff)
  have img: "?f ` ?H = {k. k < length ps \<and> ps ! k = Owned}"
  proof
    show "?f ` ?H \<subseteq> {k. k < length ps \<and> ps ! k = Owned}"
      using assms by (auto simp: owned_by_def)
    show "{k. k < length ps \<and> ps ! k = Owned} \<subseteq> ?f ` ?H"
    proof
      fix k assume "k \<in> {k. k < length ps \<and> ps ! k = Owned}"
      with assms obtain i a where "T i = Holding a" "unat (slot_id a) = k"
        by (auto simp: owned_by_def)
      then show "k \<in> ?f ` ?H" by (intro image_eqI [of _ _ i]) auto
    qed
  qed
  show ?thesis
    unfolding length_filter_conv_card img [symmetric] card_image [OF inj] ..
qed

lemma length_not_free:
  "length (filter (\<lambda>s. s \<noteq> Free) ps) =
     length (filter (\<lambda>s. s = Owned) ps) + length (filter (\<lambda>s. s = Seeded) ps)"
  by (induction ps) (auto intro: slot_status.exhaust)

text \<open>
  C34: The reported pressure is exact. In every reachable state the number of busy slots in the
  residency answer is the number of requests that hold a slot plus the number of slots still
  occupied from before the start, and the total is the number of slots llama-server listed.
\<close>

theorem residency_counts_exact:
  assumes "sched_reach n ks w"
  shows "json_get ''slots'' (resp_body (residency_handler models v (shared w))) =
    Some (Obj [(''busy'', slot_json (of_nat
                  (card (holders w) + length (filter (\<lambda>s. s = Seeded) (pool (shared w)))))),
               (''total'', slot_json n)]) \<and>
    card (holders w) + length (filter (\<lambda>s. s = Seeded) (pool (shared w))) \<le> unat n"
proof -
  from sched_reach_owns [OF assms] have len: "length (slots (shared w)) = unat n"
    and own: "owned_by (pool (shared w)) (tasks w)" by (simp_all add: owns_ok_def)
  have count: "busy_count (shared w) =
      card (holders w) + length (filter (\<lambda>s. s = Seeded) (pool (shared w)))"
    by (simp add: busy_count_pool length_not_free card_owned [OF own] holders_def)
  moreover have "busy_count (shared w) \<le> unat n"
    using len length_filter_le [of "\<lambda>s. s \<noteq> Free" "pool (shared w)"] by (simp add: busy_count_pool)
  ultimately show ?thesis
    using len by (simp add: residency_handler_def snapshot_def)
qed

lemma residency_counts_exact_witness:
  "\<exists>w. sched_reach 2 [] w \<and>
     card (holders w) + length (filter (\<lambda>s. s = Seeded) (pool (shared w))) \<le> 2"
proof -
  obtain w where w: "sched_reach 2 [] w" using demo_reach by blast
  with residency_counts_exact [OF w, of Unreachable None] show ?thesis by auto
qed

section \<open>The lock handlers\<close>

text \<open>
  A lease granted over HTTP can be given back over HTTP, once. If the UUID library reads back
  what it prints, then releasing with the id of the acquire answer is answered 200 while that
  lease holds the lock, and frees it; the same request again is answered 404. Any answer but
  200 leaves the lock as it is, and an id that is not a UUID is answered 400.
\<close>

lemma lease_round_trip:
  assumes "\<And>l. parse_uuid (show_uuid l) = Some l"
    and "held_by s = Some h"
  shows "let answer = gpu_lock_acquire_answer show_uuid (Holding (lease h));
      text = show_uuid (lease h);
      (first, s1, sent) = gpu_lock_release_handler parse_uuid live text s;
      (again, s2, _) = gpu_lock_release_handler parse_uuid live text s1;
      (bad, s3, _) = gpu_lock_release_handler parse_uuid live other s
    in answer = Some \<lparr>resp_status = 200, resp_body = Obj [(''lease_id'', Str text)]\<rparr> \<and>
       resp_status first = 200 \<and> held_by s1 = None \<and> sent = filter live (lock_waiters s) \<and>
       resp_status again = 404 \<and> s2 = s1 \<and>
       (if parse_uuid other = None then resp_status bad = 400 \<and> s3 = s
        else if parse_uuid other = Some (lease h) then resp_status bad = 200
        else resp_status bad = 404 \<and> s3 = s)"
  using assms(2)
  by (simp add: gpu_lock_release_handler_def gpu_lock_acquire_answer_def release_lease_def
      wake_all_def assms(1) split: option.splits)

definition decimal_uuid :: "string \<Rightarrow> lease_id option" where
  "decimal_uuid s = map_option of_nat (parse_unsigned (2 ^ 128 - 1) s)"

lemma decimal_uuid_show: "decimal_uuid (decimal (unat l)) = Some l"
proof -
  have "unat l < 2 ^ 128" using unsigned_less [of l] by simp
  then have "parse_unsigned (2 ^ 128 - 1) (decimal (unat l)) = Some (unat l)"
    by (intro parse_unsigned_decimal) linarith
  then show ?thesis by (simp add: decimal_uuid_def)
qed

lemma lease_round_trip_witness:
  "resp_status (fst (gpu_lock_release_handler decimal_uuid (\<lambda>_. True) (decimal (unat (7 :: lease_id)))
     \<lparr>held_by = Some \<lparr>lease = 7, acquired_at = 0\<rparr>, lock_waiters = []\<rparr>)) = 200"
proof -
  let ?s = "\<lparr>held_by = Some \<lparr>lease = 7, acquired_at = 0\<rparr>, lock_waiters = []\<rparr>"
  have h: "held_by ?s = Some \<lparr>lease = 7, acquired_at = 0\<rparr>" by simp
  from lease_round_trip [of decimal_uuid "\<lambda>l. decimal (unat l)", OF decimal_uuid_show h,
      of "\<lambda>_. True" "''x''"]
  show ?thesis by (simp add: Let_def case_prod_unfold)
qed

section \<open>The guard\<close>

text \<open>
  The host check covers every route. A request whose \<^verbatim>\<open>Host\<close> is missing, unreadable or not
  allowed is answered 421 and leaves the state of the service unchanged, whatever its method
  and path, unknown ones included; any other request reaches its endpoint with nothing lost.
\<close>

lemma guard_covers_every_route:
  "build_router into_response allowed handler meth path host s =
     (if (case host of None \<Rightarrow> False | Some h \<Rightarrow> host_is_allowed h allowed)
      then handler (route meth path) s
      else (into_response
              \<lparr>resp_status = 421,
               resp_body = error_body ''Host header not allowed: this broker only serves loopback requests''\<rparr>, s))"
  by (simp add: build_router_def enforce_allowed_host_def misdirected_def split: option.splits)

end
