(* ===== verification/Chat_Service.thy ===== *)
theory Chat_Service
  imports Sched_Safety Server Relay_Exec
begin

text \<open>
  Chat requests from beginning to end (\<^verbatim>\<open>chat_completions\<close>, \<^verbatim>\<open>forward\<close> and \<^verbatim>\<open>ReleaseGuard\<close> of
  src/src/server.rs): any number of requests, each waiting for a slot in the scheduler of
  Sched_System, then running the calls of Forward and the relay of Relay in a task of its
  own, while clients read, stall or hang up and the reconciliation runs. Every interleaving of
  their steps is a list of events.
\<close>

section \<open>State\<close>

text \<open>
  A forwarding task before the response: the calls it has still to make, what they will
  amount to (the answers of llama-server are fixed when the task starts, and looked at one by
  one), and whether the client still waits for the head.
\<close>

record 'c calls =
  grant :: admission
  call_hint :: "slot_hint option"
  call_answers :: "'c item list answers"
  todo :: "action list"
  outcome :: "upstream_error + nat \<times> 'c item list option"
  head_wanted :: bool

datatype 'c job =
    No_Job
  | Calling "'c calls"
  | Streaming nat "'c relay"
  | Ended

text \<open>
  \<open>content k\<close> is not known to the broker: it is the key of the prefix that slot \<open>k\<close> of
  llama-server really holds.
\<close>

record 'c service =
  net :: sched_world
  jobs :: "nat \<Rightarrow> 'c job"
  bodies :: "nat \<Rightarrow> json"
  content :: "u32 \<Rightarrow> cache_key option"

definition service_start :: "u32 \<Rightarrow> u32 list \<Rightarrow> 'c service" where
  "service_start n ks =
     \<lparr>net = broker_start n ks, jobs = (\<lambda>_. No_Job), bodies = (\<lambda>_. Null), content = (\<lambda>_. None)\<rparr>"

section \<open>The task\<close>

definition start_calls :: "json \<Rightarrow> 'c item list answers \<Rightarrow> admission \<Rightarrow> 'c calls" where
  "start_calls body ans a =
     (let (hint, rest) = split_request body;
          (r, acts) = send_upstream ans rest hint a
      in \<lparr>grant = a, call_hint = hint, call_answers = ans, todo = acts, outcome = r,
          head_wanted = True\<rparr>)"

text \<open>The calls that are operations of the scheduler, and those that reach llama-server.\<close>

fun sched_call :: "action \<Rightarrow> sched_op option" where
  "sched_call (Mark k m p) = Some (Mark_Resident k m p)"
| "sched_call (Clear k) = Some (Clear_Resident k)"
| "sched_call _ = None"

definition perform_call :: "action \<Rightarrow> sched_world \<Rightarrow> sched_world" where
  "perform_call act w = (case sched_call act of None \<Rightarrow> w | Some f \<Rightarrow> perform sched_admit f w)"

definition body_items :: "'c item list option \<Rightarrow> 'c item list" where
  "body_items b = (case b of None \<Rightarrow> [] | Some us \<Rightarrow> us)"

definition set_job :: "nat \<Rightarrow> 'c job \<Rightarrow> 'c service \<Rightarrow> 'c service" where
  "set_job i j s = s\<lparr>jobs := (jobs s)(i := j)\<rparr>"

text \<open>The guard is dropped: the slot is given back.\<close>

definition drop_slot :: "nat \<Rightarrow> 'c service \<Rightarrow> 'c service option" where
  "drop_slot i s = map_option (\<lambda>w. s\<lparr>net := w\<rparr>) (exec_event sched_admit (Finish i) (net s))"

text \<open>
  The task's next step. \<open>c\<close> is what the slot holds after a call to llama-server. A failure
  drops the guard at the early return; otherwise the head is offered to the client, and the
  guard is dropped by the relay's own step.
\<close>

definition work_calls :: "nat \<Rightarrow> cache_key option \<Rightarrow> 'c calls \<Rightarrow> 'c service \<Rightarrow> 'c service option" where
  "work_calls i c j s =
     (case todo j of
        act # acts \<Rightarrow>
          Some (set_job i (Calling (j\<lparr>todo := acts\<rparr>))
            (s\<lparr>net := perform_call act (net s),
               content :=
                 (if sched_call act = None then (content s)(slot_id (grant j) := c) else content s)\<rparr>))
      | [] \<Rightarrow>
          (case outcome j of
             Inl e \<Rightarrow> drop_slot i (set_job i Ended s)
           | Inr (code, b) \<Rightarrow>
               Some (set_job i (Streaming code (relay_start (body_items b) (head_wanted j))) s)))"

definition work_stream :: "nat \<Rightarrow> nat \<Rightarrow> 'c relay \<Rightarrow> 'c service \<Rightarrow> 'c service option" where
  "work_stream i code r s =
     (case task_next r of
        None \<Rightarrow> None
      | Some r' \<Rightarrow>
          (let s' = set_job i (Streaming code r') s
           in if freed r < freed r' then drop_slot i s' else Some s'))"

section \<open>Events\<close>

datatype 'c service_event =
    Arrive nat json
  | Admit nat "'c item list answers"
  | Give_Up nat
  | Leave nat
  | Work nat "cache_key option"
  | Read nat
  | Reconcile_Slot u32
  | Pass duration

definition on_net :: "sched_event \<Rightarrow> 'c service \<Rightarrow> 'c service option" where
  "on_net e s = map_option (\<lambda>w. s\<lparr>net := w\<rparr>) (exec_event sched_admit e (net s))"

text \<open>
  \<open>Admit\<close>: a poll of \<^verbatim>\<open>admit\<close>; if it is granted, the handler goes on to spawn the task without
  another suspension. \<open>Leave\<close>: the client hangs up, which drops the handler and nothing else.
\<close>

fun exec_service :: "duration \<Rightarrow> 'c service_event \<Rightarrow> 'c service \<Rightarrow> 'c service option" where
  "exec_service timeout (Arrive i body) s =
     on_net (Spawn i (fst (split_request body)) timeout) (s\<lparr>bodies := (bodies s)(i := body)\<rparr>)"
| "exec_service timeout (Admit i ans) s =
     (case on_net (Poll i ()) s of
        None \<Rightarrow> None
      | Some s' \<Rightarrow>
          (case tasks (net s') i of
             Holding a \<Rightarrow> Some (set_job i (Calling (start_calls (bodies s i) ans a)) s')
           | _ \<Rightarrow> Some s'))"
| "exec_service timeout (Give_Up i) s = on_net (Expire i) s"
| "exec_service timeout (Leave i) s =
     (case jobs s i of
        No_Job \<Rightarrow> on_net (Abandon i) s
      | Calling j \<Rightarrow>
          (if head_wanted j then Some (set_job i (Calling (j\<lparr>head_wanted := False\<rparr>)) s) else None)
      | Streaming code r \<Rightarrow> map_option (\<lambda>r'. set_job i (Streaming code r') s) (client_leave r)
      | Ended \<Rightarrow> None)"
| "exec_service timeout (Work i c) s =
     (case jobs s i of
        Calling j \<Rightarrow> work_calls i c j s
      | Streaming code r \<Rightarrow> work_stream i code r s
      | _ \<Rightarrow> None)"
| "exec_service timeout (Read i) s =
     (case jobs s i of
        Streaming code r \<Rightarrow> map_option (\<lambda>r'. set_job i (Streaming code r') s) (client_read r)
      | _ \<Rightarrow> None)"
| "exec_service timeout (Reconcile_Slot k) s = on_net (Operate (Reconcile k)) s"
| "exec_service timeout (Pass d) s = on_net (Tick d) s"

lemmas service_defs [eval_simps] =
  service_start_def start_calls_def perform_call_def body_items_def set_job_def drop_slot_def
  work_calls_def work_stream_def on_net_def

inductive service_reach ::
  "duration \<Rightarrow> ('c service \<Rightarrow> 'c service_event \<Rightarrow> bool) \<Rightarrow> 'c service \<Rightarrow> 'c service \<Rightarrow> bool"
  for timeout allowed s0 where
  service_reach_start: "service_reach timeout allowed s0 s0"
| service_reach_event: "service_reach timeout allowed s0 s \<Longrightarrow> allowed s e \<Longrightarrow>
     exec_service timeout e s = Some s' \<Longrightarrow> service_reach timeout allowed s0 s'"

definition serviced :: "duration \<Rightarrow> u32 \<Rightarrow> u32 list \<Rightarrow> 'c service \<Rightarrow> bool" where
  "serviced timeout n ks s \<longleftrightarrow> service_reach timeout (\<lambda>_ _. True) (service_start n ks) s"


section \<open>The service refines the scheduler's system\<close>

text \<open>
  A system whose every event is, seen through \<open>view\<close>, an allowed event of a resource and its
  waiting loop, or none at all.
\<close>

locale projection =
  fixes step :: "'e \<Rightarrow> 'w \<Rightarrow> 'w option"
    and R :: "('s, 'q, 'g, 'x, 'f) resource"
    and ok :: "('s, 'q, 'g) world \<Rightarrow> ('q, 'x, 'f) event \<Rightarrow> bool"
    and view :: "'w \<Rightarrow> ('s, 'q, 'g) world"
  assumes step_view: "step e s = Some s' \<Longrightarrow>
    view s' = view s \<or> (\<exists>e'. ok (view s) e' \<and> exec_event R e' (view s) = Some (view s'))"
begin

lemma step_reach:
  "step e s = Some s' \<Longrightarrow> reach R ok w0 (view s) \<Longrightarrow> reach R ok w0 (view s')"
  by (drule step_view) (auto intro: reach_event)

end

lemma set_job_simps [simp]:
  "net (set_job i j s) = net s" "jobs (set_job i j s) = (jobs s)(i := j)"
  "bodies (set_job i j s) = bodies s" "content (set_job i j s) = content s"
  by (simp_all add: set_job_def)

lemma on_net_Some:
  "on_net e s = Some s' \<longleftrightarrow> (\<exists>w. exec_event sched_admit e (net s) = Some w \<and> s' = s\<lparr>net := w\<rparr>)"
  by (auto simp: on_net_def)

lemma drop_slot_Some:
  "drop_slot i s = Some s' \<longleftrightarrow>
     (\<exists>w. exec_event sched_admit (Finish i) (net s) = Some w \<and> s' = s\<lparr>net := w\<rparr>)"
  by (auto simp: drop_slot_def)

text \<open>The moves a service event can make; every property is proved along these cases.\<close>

lemma exec_service_cases [consumes 1, case_names arrive granted waits gave_up left_waiting left_calling
    left_stream call failed head relayed freed read reconciled passed]:
  assumes "exec_service timeout e s = Some s'"
  obtains (arrive) i body w where "e = Arrive i body"
      and "exec_event sched_admit (Spawn i (fst (split_request body)) timeout) (net s) = Some w"
      and "s' = s\<lparr>bodies := (bodies s)(i := body), net := w\<rparr>"
  | (granted) i ans a w where "e = Admit i ans"
      and "exec_event sched_admit (Poll i ()) (net s) = Some w" and "tasks w i = Holding a"
      and "s' = set_job i (Calling (start_calls (bodies s i) ans a)) (s\<lparr>net := w\<rparr>)"
  | (waits) i ans w where "e = Admit i ans"
      and "exec_event sched_admit (Poll i ()) (net s) = Some w" and "\<And>a. tasks w i \<noteq> Holding a"
      and "s' = s\<lparr>net := w\<rparr>"
  | (gave_up) i w where "e = Give_Up i"
      and "exec_event sched_admit (Expire i) (net s) = Some w" and "s' = s\<lparr>net := w\<rparr>"
  | (left_waiting) i w where "e = Leave i" and "jobs s i = No_Job"
      and "exec_event sched_admit (Abandon i) (net s) = Some w" and "s' = s\<lparr>net := w\<rparr>"
  | (left_calling) i j where "e = Leave i" and "jobs s i = Calling j"
      and "s' = set_job i (Calling (j\<lparr>head_wanted := False\<rparr>)) s"
  | (left_stream) i code r r' where "e = Leave i" and "jobs s i = Streaming code r"
      and "client_leave r = Some r'" and "s' = set_job i (Streaming code r') s"
  | (call) i c j act acts where "e = Work i c" and "jobs s i = Calling j" and "todo j = act # acts"
      and "s' = set_job i (Calling (j\<lparr>todo := acts\<rparr>))
        (s\<lparr>net := perform_call act (net s),
           content :=
             (if sched_call act = None then (content s)(slot_id (grant j) := c) else content s)\<rparr>)"
  | (failed) i c j err w where "e = Work i c" and "jobs s i = Calling j" and "todo j = []"
      and "outcome j = Inl err" and "exec_event sched_admit (Finish i) (net s) = Some w"
      and "s' = (set_job i Ended s)\<lparr>net := w\<rparr>"
  | (head) i c j code b where "e = Work i c" and "jobs s i = Calling j" and "todo j = []"
      and "outcome j = Inr (code, b)"
      and "s' = set_job i (Streaming code (relay_start (body_items b) (head_wanted j))) s"
  | (relayed) i c code r r' where "e = Work i c" and "jobs s i = Streaming code r"
      and "task_next r = Some r'" and "\<not> freed r < freed r'"
      and "s' = set_job i (Streaming code r') s"
  | (freed) i c code r r' w where "e = Work i c" and "jobs s i = Streaming code r"
      and "task_next r = Some r'" and "freed r < freed r'"
      and "exec_event sched_admit (Finish i) (net s) = Some w"
      and "s' = (set_job i (Streaming code r') s)\<lparr>net := w\<rparr>"
  | (read) i code r r' where "e = Read i" and "jobs s i = Streaming code r"
      and "client_read r = Some r'" and "s' = set_job i (Streaming code r') s"
  | (reconciled) k w where "e = Reconcile_Slot k"
      and "exec_event sched_admit (Operate (Reconcile k)) (net s) = Some w" and "s' = s\<lparr>net := w\<rparr>"
  | (passed) d w where "e = Pass d" and "exec_event sched_admit (Tick d) (net s) = Some w"
      and "s' = s\<lparr>net := w\<rparr>"
proof (cases e)
  case (Arrive i body)
  with assms show ?thesis by (auto simp: on_net_Some intro: arrive)
next
  case (Admit i ans)
  with assms obtain w where w: "exec_event sched_admit (Poll i ()) (net s) = Some w"
    by (auto simp: on_net_def split: option.splits simp del: exec_event.simps)
  with assms Admit show ?thesis
    by (cases "tasks w i") (auto simp: on_net_def simp del: exec_event.simps intro: waits granted)
next
  case (Give_Up i)
  with assms show ?thesis by (auto simp: on_net_Some simp del: exec_event.simps intro: gave_up)
next
  case (Leave i)
  with assms show ?thesis
    by (cases "jobs s i")
      (auto simp: on_net_Some simp del: exec_event.simps split: if_splits
        intro: left_waiting left_calling left_stream)
next
  case (Work i c)
  show ?thesis
  proof (cases "jobs s i")
    case (Calling j)
    with assms Work show ?thesis
      by (cases "todo j"; cases "outcome j")
        (auto simp: work_calls_def drop_slot_Some simp del: exec_event.simps
          intro: call failed head)
  next
    case (Streaming code r)
    with assms Work show ?thesis
      by (auto simp: work_stream_def drop_slot_Some Let_def simp del: exec_event.simps
          split: option.splits if_splits intro: relayed freed)
  qed (use assms Work in auto)
next
  case (Read i)
  with assms show ?thesis by (cases "jobs s i") (auto intro: read)
next
  case (Reconcile_Slot k)
  with assms show ?thesis by (auto simp: on_net_Some simp del: exec_event.simps intro: reconciled)
next
  case (Pass d)
  with assms show ?thesis by (auto simp: on_net_Some simp del: exec_event.simps intro: passed)
qed

lemma perform_call_event:
  "perform_call act w = w \<or>
     (\<exists>f. broker_event w (Operate f) \<and>
        exec_event sched_admit (Operate f) w = Some (perform_call act w))"
proof (cases "sched_call act")
  case (Some f)
  then have "broker_event w (Operate f)" by (cases act) auto
  with Some show ?thesis by (auto simp: perform_call_def intro!: exI [of _ f])
qed (simp add: perform_call_def)

lemma service_view:
  assumes "exec_service timeout e s = Some s'"
  shows "net s' = net s \<or>
    (\<exists>e'. broker_event (net s) e' \<and> exec_event sched_admit e' (net s) = Some (net s'))"
  using assms
proof (cases rule: exec_service_cases)
  case (call i c j act acts)
  then have "net s' = perform_call act (net s)" by simp
  with perform_call_event [of act "net s"] show ?thesis by metis
qed (auto simp del: exec_event.simps intro!: exI)

interpretation service: projection "exec_service timeout" sched_admit broker_event net for timeout
  by unfold_locales (rule service_view)

lemma service_refines_scheduler_reach:
  assumes "serviced timeout n ks s"
  shows "sched_reach n ks (net s)"
  using assms unfolding serviced_def
proof (induction rule: service_reach.induct)
  case service_reach_start
  show ?case by (simp add: sched_reach_def service_start_def reach_start)
next
  case (service_reach_event s e s')
  then show ?case unfolding sched_reach_def by (blast intro: service.step_reach)
qed

text \<open>
  The service refines the scheduler's system. Seen through the scheduler, the service with its
  handlers, tasks, clients and reconciliation is one of the runs of Sched_System: nothing
  else ever claims or releases a slot. So what holds in every state reachable there holds of
  the scheduler of the running service.
\<close>

lemma service_refines_scheduler:
  assumes "serviced timeout n ks s"
  shows "sched_reach n ks (net s)"
  using assms by (rule service_refines_scheduler_reach)


section \<open>Tasks and slots\<close>

text \<open>An event of the waiting loop moves at most one task.\<close>

fun subject :: "('q, 'x, 'f) event \<Rightarrow> nat option" where
  "subject (Spawn i q t) = Some i"
| "subject (Poll i x) = Some i"
| "subject (Expire i) = Some i"
| "subject (Abandon i) = Some i"
| "subject (Finish i) = Some i"
| "subject (Operate f) = None"
| "subject (Tick d) = None"

lemma other_task:
  assumes "exec_event R e w = Some w'" and "subject e \<noteq> Some i"
  shows "tasks w' i = tasks w i"
  using assms(1)
proof (cases rule: exec_event_cases)
  case (aside j t)
  with assms(2) show ?thesis by (auto simp: tasks_settled)
next
  case (tried j x q d)
  with assms(2) show ?thesis
    by (auto simp: try_once_def tasks_settled split: option.splits prod.splits)
qed (use assms(2) in auto)

lemma perform_call_tasks [simp]: "tasks (perform_call act w) = tasks w"
  by (simp add: perform_call_def split: option.splits)

lemma exec_event_length:
  assumes "exec_event sched_admit e w = Some w'"
  shows "length (slots (shared w')) = length (slots (shared w))"
  using assms
proof (cases rule: exec_event_cases)
  case (tried i x hint d)
  then show ?thesis
    by (cases rule: try_once_cases [of hint "settled i w" x i d])
      (auto simp: frame_simps dest: try_admit_claims)
qed (auto simp: frame_simps simp del: sched_operate.simps)

text \<open>
  A task that has not freed its slot holds it, from the admission to the drop of its guard;
  one that has never gets another.
\<close>

fun job_ok :: "'c job \<Rightarrow> (slot_hint option, admission) task \<Rightarrow> bool" where
  "job_ok No_Job t \<longleftrightarrow> (\<forall>a. t \<noteq> Holding a)"
| "job_ok (Calling j) t \<longleftrightarrow> t = Holding (grant j)"
| "job_ok (Streaming code r) t \<longleftrightarrow>
     (\<exists>us. relay_ok us r) \<and> (if freed r = 0 then \<exists>a. t = Holding a else t = Gone)"
| "job_ok Ended t \<longleftrightarrow> t = Gone"

definition jobs_ok :: "'c service \<Rightarrow> bool" where
  "jobs_ok s \<longleftrightarrow> (\<forall>i. job_ok (jobs s i) (tasks (net s) i))"

lemma jobs_okD: "jobs_ok s \<Longrightarrow> job_ok (jobs s i) (tasks (net s) i)"
  by (simp add: jobs_ok_def)

text \<open>It is enough to look at the request that moves.\<close>

lemma jobs_ok_move:
  assumes "jobs_ok s" and "\<And>k. k \<noteq> i \<Longrightarrow> jobs s' k = jobs s k"
    and "\<And>k. k \<noteq> i \<Longrightarrow> tasks (net s') k = tasks (net s) k"
    and "job_ok (jobs s' i) (tasks (net s') i)"
  shows "jobs_ok s'"
  using assms unfolding jobs_ok_def by metis

lemma task_next_freed:
  assumes "task_next r = Some r'"
  shows "freed r' = freed r \<or> freed r' = Suc (freed r)"
  using assms by (auto simp: task_next_def split: phase.splits list.splits if_splits)

lemma client_freed:
  "client_read r = Some r' \<or> client_leave r = Some r' \<Longrightarrow> freed r' = freed r"
  by (auto simp: client_read_def client_leave_def split: if_splits list.splits item.splits)

lemma relay_ok_freed: "relay_ok us r \<Longrightarrow> freed r \<le> 1"
  by (auto simp: relay_ok_def split: phase.splits)

lemma idle_moves:
  assumes "job_ok (jobs s i) (tasks (net s) i)" and "subject e = Some i"
    and "\<And>x. e \<noteq> Poll i x" and "e \<noteq> Finish i" and "exec_event sched_admit e (net s) = Some w"
  shows "jobs s i = No_Job \<and> (\<forall>a. tasks w i \<noteq> Holding a)"
  using assms
  by (cases "jobs s i"; cases e) (auto split: task.splits if_splits)

lemma poll_moves:
  assumes "job_ok (jobs s i) (tasks (net s) i)" and "exec_event sched_admit (Poll i x) (net s) = Some w"
  shows "jobs s i = No_Job"
  using assms by (cases "jobs s i") (auto split: task.splits if_splits)

lemma jobs_ok_step:
  assumes ok: "jobs_ok s" and step: "exec_service timeout e s = Some s'"
  shows "jobs_ok s'"
  using step
proof (cases rule: exec_service_cases)
  case (arrive i body w)
  have "jobs s i = No_Job \<and> (\<forall>a. tasks w i \<noteq> Holding a)"
    by (rule idle_moves [OF jobs_okD [OF ok] _ _ _ arrive(2)]) simp_all
  then show ?thesis
    by (intro jobs_ok_move [OF ok, of i]) (simp_all add: arrive(3) other_task [OF arrive(2)])
next
  case (granted i ans a w)
  with ok show ?thesis
    by (intro jobs_ok_move [OF ok, of i])
      (auto simp: other_task [OF granted(2)] start_calls_def case_prod_unfold Let_def
        simp del: exec_event.simps)
next
  case (waits i ans w)
  with ok poll_moves [OF jobs_okD [OF ok] waits(2)] show ?thesis
    by (intro jobs_ok_move [OF ok, of i]) (auto simp: other_task [OF waits(2)] simp del: exec_event.simps)
next
  case (gave_up i w)
  have "jobs s i = No_Job \<and> (\<forall>a. tasks w i \<noteq> Holding a)"
    by (rule idle_moves [OF jobs_okD [OF ok] _ _ _ gave_up(2)]) simp_all
  with gave_up ok show ?thesis
    by (intro jobs_ok_move [OF ok, of i]) (auto simp: other_task [OF gave_up(2)] simp del: exec_event.simps)
next
  case (left_waiting i w)
  have "jobs s i = No_Job \<and> (\<forall>a. tasks w i \<noteq> Holding a)"
    by (rule idle_moves [OF jobs_okD [OF ok] _ _ _ left_waiting(3)]) simp_all
  with left_waiting ok show ?thesis
    by (intro jobs_ok_move [OF ok, of i])
      (auto simp: other_task [OF left_waiting(3)] simp del: exec_event.simps)
next
  case (left_calling i j)
  with ok jobs_okD [OF ok, of i] show ?thesis by (intro jobs_ok_move [OF ok, of i]) auto
next
  case (left_stream i code r r')
  then have "client_step r r'" by (simp add: client_step_iff)
  with left_stream ok jobs_okD [OF ok, of i] client_freed [of r r'] show ?thesis
    by (intro jobs_ok_move [OF ok, of i]) (auto intro: relay_ok_client)
next
  case (call i c j act acts)
  with ok jobs_okD [OF ok, of i] show ?thesis by (intro jobs_ok_move [OF ok, of i]) auto
next
  case (failed i c j err w)
  with ok show ?thesis
    by (intro jobs_ok_move [OF ok, of i])
      (auto simp: other_task [OF failed(5)] simp del: exec_event.simps, auto split: task.splits)
next
  case (head i c j code b)
  moreover have "\<exists>us. relay_ok us (relay_start (body_items b) (head_wanted j))"
    using relay_ok_start by blast
  moreover have "freed (relay_start (body_items b) (head_wanted j)) = 0"
    by (simp add: relay_start_def)
  ultimately show ?thesis
    using jobs_okD [OF ok, of i] by (intro jobs_ok_move [OF ok, of i]) auto
next
  case (relayed i c code r r')
  from relayed have "task_step r r'" and "freed r' = freed r"
    using task_next_freed [of r r'] by (auto simp: task_step_iff)
  with relayed ok jobs_okD [OF ok, of i] show ?thesis
    by (intro jobs_ok_move [OF ok, of i]) (auto intro: relay_ok_task)
next
  case (freed i c code r r' w)
  from freed have "task_step r r'" by (simp add: task_step_iff)
  with freed ok jobs_okD [OF ok, of i] show ?thesis
    by (intro jobs_ok_move [OF ok, of i])
      (auto simp: other_task [OF freed(5)] intro: relay_ok_task simp del: exec_event.simps,
        auto split: task.splits)
next
  case (read i code r r')
  then have "client_step r r'" by (simp add: client_step_iff)
  with read ok jobs_okD [OF ok, of i] client_freed [of r r'] show ?thesis
    by (intro jobs_ok_move [OF ok, of i]) (auto intro: relay_ok_client)
next
  case (reconciled k w)
  with ok show ?thesis by (auto simp: jobs_ok_def)
next
  case (passed d w)
  with ok show ?thesis by (auto simp: jobs_ok_def)
qed

lemma service_reach_jobs:
  assumes "service_reach timeout allowed (service_start n ks) s"
  shows "jobs_ok s"
  using assms
proof (induction rule: service_reach.induct)
  case service_reach_start
  show ?case by (simp add: jobs_ok_def service_start_def broker_start_def start_world_def)
next
  case (service_reach_event s e s')
  then show ?case by (blast intro: jobs_ok_step)
qed


section \<open>Slots stay with their tasks\<close>

text \<open>
  The task of request \<open>i\<close> is not done with llama-server: it has calls to make, or a response to
  read to its end. This is the broker's view; what llama-server itself is at work on, and what an
  error means for it, is the subject of Upstream_Work.
\<close>

definition working :: "'c service \<Rightarrow> nat \<Rightarrow> bool" where
  "working s i \<longleftrightarrow>
     (case jobs s i of
        Calling j \<Rightarrow> todo j \<noteq> [] \<or> (\<exists>h. outcome j = Inr h)
      | Streaming code r \<Rightarrow> \<not> over (phase r)
      | _ \<Rightarrow> False)"

text \<open>
  C4: A slot is given back by its own task only, and only when the task has nothing more to ask
  of llama-server. If an event ends a request's hold of its slot, that event is a step of the
  request's task, and the task had failed, or had read the whole response; no move of any
  client, of another request or of the reconciliation does it.
\<close>

theorem released_only_when_done:
  assumes "serviced timeout n ks s" and "exec_service timeout e s = Some s'"
    and "tasks (net s) i = Holding a" and "tasks (net s') i \<noteq> Holding a"
  shows "(\<exists>c. e = Work i c) \<and> \<not> working s i"
proof -
  from assms(1) have ok: "jobs_ok s" unfolding serviced_def by (rule service_reach_jobs)
  note held = assms(3,4)
  have same: "subject f = Some i" if "exec_event sched_admit f (net s) = Some (net s')" for f
    using other_task [OF that, of i] held by auto
  have no_poll: "tasks w i \<noteq> Holding b" if "exec_event sched_admit f w = Some w'"
    and "subject f = Some i" and "f \<noteq> Finish i" for f w w' b
    using that by (cases f) (auto split: task.splits)
  have fin: "e' = Finish i" if "exec_event sched_admit e' (net s) = Some (net s')" for e'
    using no_poll [OF that same [OF that]] held(1) by blast
  from assms(2) show ?thesis
  proof (cases rule: exec_service_cases)
    case (failed k c j err w)
    then have "k = i" using fin [of "Finish k"] by simp
    with failed show ?thesis by (simp add: working_def)
  next
    case (freed k c code r r' w)
    then have ki: "k = i" using fin [of "Finish k"] by simp
    have "over (phase r)"
      using freed(3,4) by (auto simp: task_next_def split: phase.splits list.splits if_splits)
    with freed ki show ?thesis by (simp add: working_def)
  qed (use held fin in \<open>force simp del: exec_event.simps\<close>)+
qed


section \<open>Every task comes to its end\<close>

fun run_service :: "duration \<Rightarrow> 'c service_event list \<Rightarrow> 'c service \<Rightarrow> 'c service option" where
  "run_service timeout [] s = Some s"
| "run_service timeout (e # es) s =
     (case exec_service timeout e s of None \<Rightarrow> None | Some s' \<Rightarrow> run_service timeout es s')"

lemma serviced_start: "serviced timeout n ks (service_start n ks)"
  by (simp add: serviced_def service_reach_start)

lemma serviced_step: "serviced timeout n ks s \<Longrightarrow> exec_service timeout e s = Some s' \<Longrightarrow> serviced timeout n ks s'"
  unfolding serviced_def by (erule service_reach_event) simp

lemma serviced_run:
  "run_service timeout es s = Some s' \<Longrightarrow> serviced timeout n ks s \<Longrightarrow> serviced timeout n ks s'"
  by (induction es arbitrary: s) (auto split: option.splits dest: serviced_step simp del: exec_service.simps)

text \<open>The steps a task still needs, at most, until it has given its slot back and ended.\<close>

definition work_left :: "'c service \<Rightarrow> nat \<Rightarrow> nat" where
  "work_left s i =
     (case jobs s i of
        Calling j \<Rightarrow>
          length (todo j) +
          (case outcome j of Inl e \<Rightarrow> 1 | Inr (code, b) \<Rightarrow> 2 * length (body_items b) + 4)
      | Streaming code r \<Rightarrow> steps_left r
      | _ \<Rightarrow> 0)"

lemma work_decreases:
  assumes "jobs_ok s" and "tasks (net s) i = Holding a"
  obtains s' where "exec_service timeout (Work i c) s = Some s'"
    and "work_left s' i < work_left s i"
    and "tasks (net s') i = Holding a \<or>
      tasks (net s') i = Gone \<and> shared (net s') = fst (release (\<lambda>c. c \<notin> closed (net s)) (slot_id a) (shared (net s)))"
proof (cases "jobs s i")
  case (Calling j)
  then show ?thesis
    using assms(2) that
    by (cases "todo j"; cases "outcome j")
      (auto simp: work_calls_def drop_slot_def work_left_def relay_start_def steps_left_def
        split: sum.splits)
next
  case (Streaming code r)
  with jobs_okD [OF assms(1), of i] assms(2) obtain us
    where ok: "relay_ok us r" and open0: "freed r = 0" by (auto split: if_splits)
  then have "phase r \<noteq> Finished" and "length (buffer r) \<le> forward_channel_chunks"
    by (auto simp: relay_ok_def)
  then obtain r' where r': "task_next r = Some r'"
    using task_enabled [of r] by (auto simp: task_step_iff)
  then have "steps_left r' < steps_left r" by (simp add: steps_left_task task_step_iff)
  with Streaming r' assms(2) open0 task_next_freed [OF r'] show ?thesis
    using that by (auto simp: work_stream_def drop_slot_def work_left_def)
qed (use jobs_okD [OF assms(1), of i] assms(2) in auto)

lemma released_idle:
  "unat k < length (slots st) \<Longrightarrow> \<not> busy (slots (fst (release live k st)) ! unat k)"
  by (simp add: release_slots nth_update_slot)

lemma task_runs_out:
  assumes "jobs_ok s" and "tasks (net s) i = Holding a"
    and "unat (slot_id a) < length (slots (shared (net s)))"
  shows "\<exists>m s'. m \<le> work_left s i \<and> run_service timeout (replicate m (Work i c)) s = Some s' \<and>
    tasks (net s') i = Gone \<and> \<not> busy (slots (shared (net s')) ! unat (slot_id a))"
  using assms
proof (induction "work_left s i" arbitrary: s rule: less_induct)
  case less
  from work_decreases [OF less.prems(1,2), of timeout c] obtain s'
    where s': "exec_service timeout (Work i c) s = Some s'" and lt: "work_left s' i < work_left s i"
      and holds: "tasks (net s') i = Holding a \<or> tasks (net s') i = Gone \<and>
        shared (net s') = fst (release (\<lambda>c. c \<notin> closed (net s)) (slot_id a) (shared (net s)))" .
  from jobs_ok_step [OF less.prems(1) s'] have ok: "jobs_ok s'" .
  from holds show ?case
  proof
    assume h: "tasks (net s') i = Holding a"
    have "length (slots (shared (net s'))) = length (slots (shared (net s)))"
      using service_view [OF s'] exec_event_length by metis
    with less.prems(3) less.hyps [OF lt ok h] obtain m s''
      where "m \<le> work_left s' i" and "run_service timeout (replicate m (Work i c)) s' = Some s''"
        and "tasks (net s'') i = Gone \<and> \<not> busy (slots (shared (net s'')) ! unat (slot_id a))"
      by auto
    with s' lt show ?thesis by (intro exI [of _ "Suc m"] exI [of _ s'']) simp
  next
    assume "tasks (net s') i = Gone \<and>
      shared (net s') = fst (release (\<lambda>c. c \<notin> closed (net s)) (slot_id a) (shared (net s)))"
    with s' lt less.prems(3) show ?thesis
      by (intro exI [of _ 1] exI [of _ s']) (simp add: released_idle)
  qed
qed

lemma steps_left_client:
  "client_read r = Some r' \<or> client_leave r = Some r' \<Longrightarrow> steps_left r' = steps_left r"
  by (auto simp: client_read_def client_leave_def steps_left_def
      split: if_splits list.splits item.splits)

lemma work_never_grows:
  assumes ok: "jobs_ok s" and held: "tasks (net s) i = Holding a"
    and step: "exec_service timeout e s = Some s'"
  shows "work_left s' i \<le> work_left s i"
proof (cases "\<exists>c. e = Work i c")
  case True
  then obtain c where e: "e = Work i c" ..
  from work_decreases [OF ok held, of timeout c] step e show ?thesis by (metis less_imp_le option.inject)
next
  case False
  from step show ?thesis
  proof (cases rule: exec_service_cases)
    case (granted k ans b w)
    from poll_moves [OF jobs_okD [OF ok] granted(2)] have "jobs s k = No_Job" .
    with jobs_okD [OF ok, of k] held have "k \<noteq> i" by auto
    with granted(4) show ?thesis by (simp add: work_left_def)
  next
    case (left_calling k j)
    then show ?thesis by (cases "k = i") (auto simp: work_left_def)
  next
    case (left_stream k code r r')
    then show ?thesis
      using steps_left_client [of r r'] by (cases "k = i") (auto simp: work_left_def)
  next
    case (read k code r r')
    then show ?thesis
      using steps_left_client [of r r'] by (cases "k = i") (auto simp: work_left_def)
  qed (use False in \<open>auto simp: work_left_def\<close>)
qed

text \<open>
  C5: Every request's slot comes back. Whatever its client does, from any reachable state a
  request that holds a slot gives it back after a bounded number of steps of its own task, and
  nothing else that happens in the meantime, its client's moves included, adds to that number.
\<close>

theorem every_job_finishes:
  assumes "serviced timeout n ks s" and "tasks (net s) i = Holding a"
  shows "(\<exists>m s'. m \<le> work_left s i \<and> run_service timeout (replicate m (Work i c)) s = Some s' \<and>
      tasks (net s') i = Gone \<and> \<not> busy (slots (shared (net s')) ! unat (slot_id a))) \<and>
    (\<forall>e s'. exec_service timeout e s = Some s' \<longrightarrow> work_left s' i \<le> work_left s i)"
proof
  from assms(1) have ok: "jobs_ok s" unfolding serviced_def by (rule service_reach_jobs)
  from sched_reach_owns [OF service_refines_scheduler_reach [OF assms(1)]] assms(2)
  have "unat (slot_id a) < length (slots (shared (net s)))"
    unfolding owns_ok_def owned_by_def by auto
  with ok assms(2) show "\<exists>m s'. m \<le> work_left s i \<and>
      run_service timeout (replicate m (Work i c)) s = Some s' \<and>
      tasks (net s') i = Gone \<and> \<not> busy (slots (shared (net s')) ! unat (slot_id a))"
    by (rule task_runs_out)
  show "\<forall>e s'. exec_service timeout e s = Some s' \<longrightarrow> work_left s' i \<le> work_left s i"
    using ok assms(2) by (blast intro: work_never_grows)
qed

section \<open>A run as a witness\<close>

text \<open>One slot; the request's client leaves while the broker prepares the slot.\<close>

definition demo_answers :: "nat item list reply \<Rightarrow> nat item list answers" where
  "demo_answers r =
     \<lparr>restore_answer = Some False, warm_answer = Reply 200 None, save_answer = Some (), post_answer = r\<rparr>"

definition demo_events :: "nat item list reply \<Rightarrow> nat service_event list" where
  "demo_events r = [Arrive 0 (Obj []), Admit 0 (demo_answers r), Work 0 None, Leave 0]"

definition demo_grant :: admission where
  "demo_grant = \<lparr>slot_id = 0, cache_ready = False\<rparr>"

lemma demo_start:
  "start_calls (Obj []) (demo_answers r) demo_grant =
     \<lparr>grant = demo_grant, call_hint = None, call_answers = demo_answers r,
      todo = [Clear 0, Post (post_body (Obj []) 0)],
      outcome = (case r of Unreachable \<Rightarrow> Inl Send_Failed | Reply code b \<Rightarrow> Inr (code, b)),
      head_wanted = True\<rparr>"
  by (simp add: start_calls_def split_request_def send_upstream_def send_post_def demo_answers_def
      demo_grant_def Let_def)

lemma demo_admitted:
  obtains w0 w where "exec_event sched_admit (Spawn 0 None 5) (broker_start 1 []) = Some w0"
    and "exec_event sched_admit (Poll 0 ()) w0 = Some w" and "tasks w 0 = Holding demo_grant"
proof -
  have "\<exists>w. run_events sched_admit [Spawn 0 None 5, Poll 0 ()] (broker_start 1 []) = Some w \<and>
     tasks w 0 = Holding demo_grant"
    by (simp add: demo_grant_def eval_simps)
  then show ?thesis using that by (auto simp del: exec_event.simps split: option.splits)
qed

lemma demo_service:
  "\<exists>s. serviced 5 1 [] s \<and> tasks (net s) 0 = Holding demo_grant \<and>
     jobs s 0 = Calling
       \<lparr>grant = demo_grant, call_hint = None, call_answers = demo_answers r,
        todo = [Post (post_body (Obj []) 0)],
        outcome = (case r of Unreachable \<Rightarrow> Inl Send_Failed | Reply code b \<Rightarrow> Inr (code, b)),
        head_wanted = False\<rparr>"
proof -
  obtain w0 w where "exec_event sched_admit (Spawn 0 None 5) (broker_start 1 []) = Some w0"
    and "exec_event sched_admit (Poll 0 ()) w0 = Some w" and "tasks w 0 = Holding demo_grant"
    by (rule demo_admitted)
  moreover have "fst (split_request (Obj [])) = None" by (simp add: split_request_def)
  ultimately have "\<exists>s. run_service 5 (demo_events r) (service_start 1 []) = Some s \<and>
     tasks (net s) 0 = Holding demo_grant \<and>
     jobs s 0 = Calling
       \<lparr>grant = demo_grant, call_hint = None, call_answers = demo_answers r,
        todo = [Post (post_body (Obj []) 0)],
        outcome = (case r of Unreachable \<Rightarrow> Inl Send_Failed | Reply code b \<Rightarrow> Inr (code, b)),
        head_wanted = False\<rparr>"
    by (simp add: demo_events_def on_net_def service_start_def demo_start work_calls_def
        perform_call_def del: exec_event.simps)
  then show ?thesis by (meson serviced_run serviced_start)
qed

lemma every_job_finishes_witness:
  "\<exists>(s :: nat service) m s'. serviced 5 1 [] s \<and> run_service 5 (replicate m (Work 0 None)) s = Some s' \<and>
     \<not> busy (slots (shared (net s')) ! 0)"
proof -
  obtain s :: "nat service" where s: "serviced 5 1 [] s" and h: "tasks (net s) 0 = Holding demo_grant"
    using demo_service [of "Reply 200 (Some [Chunk 1, Broken])"] by auto
  from every_job_finishes [OF s h, of None] s show ?thesis
    by (auto simp: demo_grant_def)
qed

lemma released_only_when_done_witness:
  "\<exists>(s :: nat service) s'. serviced 5 1 [] s \<and> exec_service 5 (Work 0 None) s = Some s' \<and>
     tasks (net s') 0 = Gone \<and> \<not> working s 0"
proof -
  obtain s :: "nat service" where s: "serviced 5 1 [] s" and h: "tasks (net s) 0 = Holding demo_grant"
    and j: "jobs s 0 = Calling
       \<lparr>grant = demo_grant, call_hint = None, call_answers = demo_answers Unreachable,
        todo = [Post (post_body (Obj []) 0)], outcome = Inl Send_Failed, head_wanted = False\<rparr>"
    using demo_service [of Unreachable] by auto
  then obtain s1 where s1: "exec_service 5 (Work 0 None) s = Some s1"
      "tasks (net s1) 0 = Holding demo_grant"
    and j1: "jobs s1 0 = Calling
       \<lparr>grant = demo_grant, call_hint = None, call_answers = demo_answers Unreachable,
        todo = [], outcome = Inl Send_Failed, head_wanted = False\<rparr>"
    by (simp add: work_calls_def)
  from serviced_step [OF s s1(1)] have r1: "serviced 5 1 [] s1" .
  from s1(2) j1 obtain s2 where s2: "exec_service 5 (Work 0 None) s1 = Some s2" "tasks (net s2) 0 = Gone"
    by (simp add: work_calls_def drop_slot_def)
  then have "tasks (net s2) 0 \<noteq> Holding demo_grant" by simp
  from released_only_when_done [OF r1 s2(1) s1(2) this] r1 s2 show ?thesis by blast
qed

lemma service_refines_scheduler_witness:
  "\<exists>s :: nat service. serviced 5 1 [] s \<and> sched_reach 1 [] (net s) \<and> tasks (net s) 0 = Holding demo_grant"
proof -
  obtain s :: "nat service" where "serviced 5 1 [] s" and "tasks (net s) 0 = Holding demo_grant"
    using demo_service [of Unreachable] by auto
  with service_refines_scheduler show ?thesis by blast
qed

end
