(* ===== verification/Chat_Residency.thy ===== *)
theory Chat_Residency
  imports Chat_Service
begin

text \<open>
  What the residency table is for, over all interleavings of the service: a request with a hint
  is posted to a slot that holds its prefix. The slots' real contents are those of \<open>content\<close>
  in Chat_Service; llama-server and the store are relied on to do what they report.
\<close>

section \<open>What is relied on\<close>

text \<open>
  A restore that reports success and a warm-up that is answered leave the slot with the
  prefix of the key; a save leaves it alone, and so does the request itself, whose prompt
  starts with the prefix. A request without a hint, and a restore that does not succeed, may
  leave anything. No warm-up fails; what follows one that does is the subject of
  \<open>failed_warm_up_keeps_record\<close> in Forward.
\<close>

fun dependable_call ::
  "'c item list answers \<Rightarrow> slot_hint \<Rightarrow> action \<Rightarrow> cache_key option \<Rightarrow> cache_key option \<Rightarrow> bool" where
  "dependable_call ans h (Restore key k) c c' = (restore_answer ans = Some True \<longrightarrow> c' = Some key)"
| "dependable_call ans h (Warm_Up b) c c' = (c' = Some (hint_key h))"
| "dependable_call ans h (Save key k) c c' = (c' = c)"
| "dependable_call ans h (Post b) c c' = (c' = c)"
| "dependable_call ans h _ c c' = True"

fun dependable_event :: "'c service \<Rightarrow> 'c service_event \<Rightarrow> bool" where
  "dependable_event s (Admit i ans) =
     (restore_answer ans = Some True \<or> checked_status (warm_answer ans) = Inr ())"
| "dependable_event s (Work i c) =
     (case jobs s i of
        Calling j \<Rightarrow>
          (case (call_hint j, todo j) of
             (Some h, act # acts) \<Rightarrow>
               dependable_call (call_answers j) h act (content s (slot_id (grant j))) c
           | _ \<Rightarrow> True)
      | _ \<Rightarrow> True)"
| "dependable_event s e = True"

text \<open>At the start the slots may hold anything.\<close>

definition start_with :: "(u32 \<Rightarrow> cache_key option) \<Rightarrow> u32 \<Rightarrow> u32 list \<Rightarrow> 'c service" where
  "start_with c0 n ks = (service_start n ks)\<lparr>content := c0\<rparr>"

definition served_well ::
  "duration \<Rightarrow> (u32 \<Rightarrow> cache_key option) \<Rightarrow> u32 \<Rightarrow> u32 list \<Rightarrow> 'c service \<Rightarrow> bool" where
  "served_well timeout c0 n ks s \<longleftrightarrow> service_reach timeout dependable_event (start_with c0 n ks) s"

section \<open>The invariant\<close>

definition record_at :: "u32 \<Rightarrow> inner \<Rightarrow> cache_key option" where
  "record_at k st = record_key (slots st ! unat k)"

text \<open>A record says nothing, or the truth.\<close>

definition true_record :: "cache_key option \<Rightarrow> cache_key option \<Rightarrow> bool" where
  "true_record rec c \<longleftrightarrow> rec = None \<or> rec = c"

text \<open>
  How far a task is with its calls, with what its slot then holds and what the table says
  of it: between the first call and the record the table may be wrong, but only of a slot that
  nobody else can be admitted to.
\<close>

definition plan_ok :: "'c calls \<Rightarrow> cache_key option \<Rightarrow> cache_key option \<Rightarrow> bool" where
  "plan_ok j rec c \<longleftrightarrow>
     (let k = slot_id (grant j) in
      case call_hint j of
        None \<Rightarrow>
          (\<exists>b. todo j = [Clear k, Post b]) \<or>
          (\<exists>b. todo j = [Post b] \<or> todo j = []) \<and> rec = None
      | Some h \<Rightarrow>
          (let key = hint_key h; mark = Mark k (hint_model h) (prefix_hash h) in
           (\<exists>b. todo j = [Restore key k, mark, Post b]) \<and> restore_answer (call_answers j) = Some True \<or>
           (\<exists>w b. todo j = [Restore key k, Warm_Up w, Save key k, mark, Post b]) \<or>
           (\<exists>w b. todo j = [Warm_Up w, Save key k, mark, Post b]) \<or>
           (\<exists>b. todo j = [Save key k, mark, Post b] \<or> todo j = [mark, Post b]) \<and> c = Some key \<or>
           (\<exists>b. todo j = [Post b] \<or> todo j = []) \<and> c = Some key \<and> true_record rec c))"

definition residency_ok :: "'c service \<Rightarrow> bool" where
  "residency_ok s \<longleftrightarrow>
     (\<forall>i j. jobs s i = Calling j \<longrightarrow>
        plan_ok j (record_at (slot_id (grant j)) (shared (net s))) (content s (slot_id (grant j)))) \<and>
     (\<forall>k. unat k < length (slots (shared (net s))) \<and>
        (\<forall>i j. jobs s i = Calling j \<longrightarrow> slot_id (grant j) \<noteq> k) \<longrightarrow>
        true_record (record_at k (shared (net s))) (content s k))"

text \<open>The scheduler remembers each waiting request's own hint.\<close>

fun asked :: "('q, 'g) task \<Rightarrow> 'q option" where
  "asked (Fresh q t) = Some q"
| "asked (Waiting q d c) = Some q"
| "asked _ = None"

definition hints_ok :: "'c service \<Rightarrow> bool" where
  "hints_ok s \<longleftrightarrow>
     (\<forall>i. (\<forall>q. asked (tasks (net s) i) = Some q \<longrightarrow> q = fst (split_request (bodies s i))) \<and>
          (\<forall>j. jobs s i = Calling j \<longrightarrow> call_hint j = fst (split_request (bodies s i))))"

lemma plan_started:
  assumes "restore_answer ans = Some True \<or> checked_status (warm_answer ans) = Inr ()"
    and "true_record rec c"
    and "\<And>h. fst (split_request body) = Some h \<Longrightarrow> cache_ready a \<Longrightarrow> c = Some (hint_key h)"
  shows "plan_ok (start_calls body ans a) rec c"
proof -
  obtain hint rest where sp: "split_request body = (hint, rest)" by fastforce
  show ?thesis
  proof (cases hint)
    case None
    with sp show ?thesis
      by (simp add: plan_ok_def start_calls_def send_upstream_def send_post_def)
  next
    case (Some h)
    show ?thesis
    proof (cases "cache_ready a")
      case True
      with assms(2,3) sp Some show ?thesis
        by (simp add: plan_ok_def start_calls_def send_upstream_def send_post_def Let_def)
    next
      case False
      with assms(1) sp Some show ?thesis
        by (cases rule: warm_or_restore_cases [of ans rest h "slot_id a"])
          (simp_all add: plan_ok_def start_calls_def send_upstream_def send_post_def Let_def)
    qed
  qed
qed

text \<open>A task's next call leads from one stage to the next.\<close>

definition record_after :: "action \<Rightarrow> cache_key option \<Rightarrow> cache_key option" where
  "record_after act rec =
     (case act of
        Mark k m p \<Rightarrow> Some (hint_key \<lparr>prefix_hash = p, preferred_slot = None, hint_model = m\<rparr>)
      | Clear k \<Rightarrow> None
      | _ \<Rightarrow> rec)"

definition content_next :: "action \<Rightarrow> cache_key option \<Rightarrow> cache_key option \<Rightarrow> cache_key option" where
  "content_next act c c' = (if sched_call act = None then c' else c)"

lemma plan_advances:
  assumes "plan_ok j rec c" and "todo j = act # acts"
    and "\<And>h. call_hint j = Some h \<Longrightarrow> dependable_call (call_answers j) h act c c'"
  shows "plan_ok (j\<lparr>todo := acts\<rparr>) (record_after act rec) (content_next act c c')"
proof (cases "call_hint j")
  case None
  with assms(1,2) show ?thesis
    by (auto simp: plan_ok_def record_after_def Let_def)
next
  case (Some h)
  have key: "hint_key \<lparr>prefix_hash = prefix_hash h, preferred_slot = None, hint_model = hint_model h\<rparr> =
      hint_key h"
    by (simp add: hint_key_def)
  from assms(3) [OF Some] assms(1,2) Some show ?thesis
    by (auto simp: plan_ok_def record_after_def content_next_def key true_record_def Let_def)
qed


section \<open>Who changes the table\<close>

lemma record_key_fields [simp]:
  "record_key (s\<lparr>busy := b\<rparr>) = record_key s"
  "record_key (s\<lparr>busy := b, seeded_unowned := u\<rparr>) = record_key s"
  "record_key (s\<lparr>busy := b, seeded_unowned := u, last_used := t\<rparr>) = record_key s"
  by (simp_all add: record_key_def split: option.splits)

lemma record_at_claim:
  "unat k < length (slots st) \<Longrightarrow> record_at k (claim_slot i st) = record_at k st"
  by (cases "i < length (slots st)") (simp_all add: record_at_def nth_claim_slot, simp add: claim_slot_def)

lemma record_at_enqueue: "record_at k (enqueue_waiter hint c st) = record_at k st"
  by (simp add: record_at_def frame_simps)

lemma record_at_release: "record_at k (fst (release live l st)) = record_at k st"
  by (simp add: record_at_def release_slots nth_update_slot)

lemma record_at_reconcile: "record_at k (fst (reconcile_seeded_idle live l st)) = record_at k st"
  by (simp add: record_at_def reconcile_slots nth_update_slot)

lemmas record_at_simps = record_at_enqueue record_at_release record_at_reconcile

text \<open>Only the two bookkeeping operations touch a record.\<close>

lemma records_kept:
  assumes "exec_event sched_admit e w = Some w'" and "unat k < length (slots (shared w))"
    and "\<And>l m p. e \<noteq> Operate (Mark_Resident l m p)" and "\<And>l. e \<noteq> Operate (Clear_Resident l)"
  shows "record_at k (shared w') = record_at k (shared w)"
  using assms(1)
proof (cases rule: exec_event_cases)
  case (tried i x hint d)
  then show ?thesis
    using assms(2)
    by (cases rule: try_once_cases [of hint "settled i w" x i d])
      (auto simp: record_at_simps record_at_claim dest!: try_admit_claims)
next
  case (other f)
  with assms(3,4) show ?thesis by (cases f) (auto simp: record_at_simps)
qed (auto simp: record_at_simps)

fun call_slot :: "action \<Rightarrow> u32 option" where
  "call_slot (Mark k m p) = Some k"
| "call_slot (Clear k) = Some k"
| "call_slot _ = None"

lemma record_at_call:
  assumes "unat k < length (slots (shared w))"
  shows "record_at k (shared (perform_call act w)) =
    (if call_slot act = Some k then record_after act (record_at k (shared w))
     else record_at k (shared w))"
  using assms
  by (cases act)
    (auto simp: perform_call_def record_at_def mark_resident_def clear_resident_def nth_update_slot
      record_after_def record_key_def word_unat_eq_iff)

lemma record_after_other: "call_slot act = None \<Longrightarrow> record_after act rec = rec"
  by (cases act) (auto simp: record_after_def)

lemma length_perform_call [simp]:
  "length (slots (shared (perform_call act w))) = length (slots (shared w))"
  by (cases act) (simp_all add: perform_call_def mark_resident_def clear_resident_def frame_simps)

text \<open>A task records its own slot only.\<close>

lemma plan_call_slot:
  assumes "plan_ok j rec c" and "todo j = act # acts"
  shows "call_slot act = None \<or> call_slot act = Some (slot_id (grant j))"
  using assms by (auto simp: plan_ok_def Let_def split: option.splits)


section \<open>The invariant is kept\<close>

lemma asked_kept:
  assumes "exec_event R e w = Some w'" and "asked (tasks w' i) = Some q"
  shows "asked (tasks w i) = Some q \<or> (\<exists>t. e = Spawn i q t)"
proof (cases "subject e = Some i")
  case False
  with assms other_task [OF assms(1) False] show ?thesis by simp
next
  case True
  with assms show ?thesis
    by (cases e) (auto simp: try_once_def split: task.splits option.splits prod.splits if_splits)
qed

text \<open>Two summaries of an event: what it does to the waiting loop, and where calling tasks come from.\<close>

lemma loop_moves:
  assumes "exec_service timeout e s = Some s'"
  shows "(\<exists>i body. e = Arrive i body \<and> jobs s' = jobs s \<and> bodies s' = (bodies s)(i := body) \<and>
      exec_event sched_admit (Spawn i (fst (split_request body)) timeout) (net s) = Some (net s')) \<or>
    bodies s' = bodies s \<and>
      (net s' = net s \<or>
       (\<exists>e'. (\<forall>i q t. e' \<noteq> Spawn i q t) \<and> exec_event sched_admit e' (net s) = Some (net s')))"
  using assms
proof (cases rule: exec_service_cases)
  case (call i c j act acts)
  then have "net s' = perform_call act (net s)" and b: "bodies s' = bodies s" by simp_all
  with perform_call_event [of act "net s"]
  have "net s' = net s \<or> (\<exists>f. exec_event sched_admit (Operate f) (net s) = Some (net s'))"
    by metis
  with b show ?thesis by (metis event.distinct(9))
qed (auto simp del: exec_event.simps)

lemma calling_from:
  assumes "exec_service timeout e s = Some s'" and "jobs s' i = Calling j'"
  shows "(\<exists>j. jobs s i = Calling j \<and> call_hint j' = call_hint j \<and> grant j' = grant j) \<or>
    (\<exists>ans a. e = Admit i ans \<and> j' = start_calls (bodies s i) ans a)"
  using assms(1)
  by (cases rule: exec_service_cases) (use assms(2) in \<open>auto split: if_splits\<close>)

lemma call_hint_start: "call_hint (start_calls body ans a) = fst (split_request body)"
  by (simp add: start_calls_def case_prod_unfold Let_def)

lemma grant_start: "grant (start_calls body ans a) = a"
  by (simp add: start_calls_def case_prod_unfold Let_def)

lemma hints_okI:
  assumes "\<And>i q. asked (tasks (net s) i) = Some q \<Longrightarrow> q = fst (split_request (bodies s i))"
    and "\<And>i j. jobs s i = Calling j \<Longrightarrow> call_hint j = fst (split_request (bodies s i))"
  shows "hints_ok s"
  using assms by (simp add: hints_ok_def)

lemma hints_ok_kept:
  assumes "hints_ok s" and "exec_service timeout e s = Some s'" and "bodies s' = bodies s"
    and "\<And>i q. asked (tasks (net s') i) = Some q \<Longrightarrow> asked (tasks (net s) i) = Some q"
  shows "hints_ok s'"
proof (rule hints_okI)
  show "asked (tasks (net s') i) = Some q \<Longrightarrow> q = fst (split_request (bodies s' i))" for i q
    using assms(1,3,4) by (simp add: hints_ok_def)
  show "jobs s' i = Calling j' \<Longrightarrow> call_hint j' = fst (split_request (bodies s' i))" for i j'
    using calling_from [OF assms(2), of i j'] assms(1,3)
    by (auto simp: hints_ok_def call_hint_start)
qed

lemma hints_ok_step:
  assumes ok: "hints_ok s" and jobs: "jobs_ok s" and step: "exec_service timeout e s = Some s'"
  shows "hints_ok s'"
proof -
  from loop_moves [OF step] consider
    (arrive) i body where "e = Arrive i body" and "jobs s' = jobs s" and "bodies s' = (bodies s)(i := body)"
      and "exec_event sched_admit (Spawn i (fst (split_request body)) timeout) (net s) = Some (net s')"
  | (still) "bodies s' = bodies s" and "net s' = net s"
  | (moved) e' where "bodies s' = bodies s" and "\<And>i q t. e' \<noteq> Spawn i q t"
      and "exec_event sched_admit e' (net s) = Some (net s')"
    by blast
  then show ?thesis
  proof cases
    case (arrive i body)
    have idle: "jobs s i = No_Job \<and> (\<forall>a. tasks (net s') i \<noteq> Holding a)"
      by (rule idle_moves [OF jobs_okD [OF jobs] _ _ _ arrive(4)]) simp_all
    from arrive(4) have "net s' = set_task i (Fresh (fst (split_request body)) timeout) (net s)"
      by (simp split: task.splits)
    then have own: "asked (tasks (net s') i) = Some q \<Longrightarrow> q = fst (split_request body)" for q
      by simp
    show ?thesis
    proof (rule hints_okI)
      fix k q assume a: "asked (tasks (net s') k) = Some q"
      show "q = fst (split_request (bodies s' k))"
      proof (cases "k = i")
        case False
        with a other_task [OF arrive(4), of k] ok arrive(3) show ?thesis
          by (simp add: hints_ok_def)
      qed (use a own arrive(3) in simp)
    next
      fix k j assume "jobs s' k = Calling j"
      with arrive(2,3) idle ok show "call_hint j = fst (split_request (bodies s' k))"
        by (cases "k = i") (simp_all add: hints_ok_def)
    qed
  next
    case still
    with hints_ok_kept [OF ok step] show ?thesis by simp
  next
    case moved
    with hints_ok_kept [OF ok step moved(1)] asked_kept [OF moved(3)] show ?thesis by blast
  qed
qed


text \<open>A calling task has a slot of the table, which no other calling task has.\<close>

definition slots_apart :: "'c service \<Rightarrow> bool" where
  "slots_apart s \<longleftrightarrow>
     well_sized (shared (net s)) \<and>
     (\<forall>i j. jobs s i = Calling j \<longrightarrow>
        unat (slot_id (grant j)) < length (slots (shared (net s))) \<and>
        busy (slots (shared (net s)) ! unat (slot_id (grant j)))) \<and>
     (\<forall>i l j m. jobs s i = Calling j \<and> jobs s l = Calling m \<and> slot_id (grant j) = slot_id (grant m) \<longrightarrow>
        i = l)"

lemma slots_apartI:
  assumes "owns_ok n (net s)" and "jobs_ok s"
  shows "slots_apart s"
proof -
  have held: "tasks (net s) i = Holding (grant j)" if "jobs s i = Calling j" for i j
    using jobs_okD [OF assms(2), of i] that by simp
  from assms(1) have own: "owned_by (pool (shared (net s))) (tasks (net s))"
    and len: "length (slots (shared (net s))) = unat n" by (simp_all add: owns_ok_def)
  have busy: "unat (slot_id (grant j)) < length (slots (shared (net s))) \<and>
      busy (slots (shared (net s)) ! unat (slot_id (grant j)))" if "jobs s i = Calling j" for i j
  proof -
    from own held [OF that] have k: "unat (slot_id (grant j)) < length (slots (shared (net s)))"
      and "pool (shared (net s)) ! unat (slot_id (grant j)) = Owned"
      unfolding owned_by_def by auto
    then show ?thesis by (auto simp: nth_pool status_of_def split: if_splits)
  qed
  moreover have "i = l" if "jobs s i = Calling j" "jobs s l = Calling m"
      "slot_id (grant j) = slot_id (grant m)" for i l j m
    using own held [OF that(1)] held [OF that(2)] that(3) unfolding owned_by_def by blast
  ultimately show ?thesis
    using len unsigned_less [of n] unfolding slots_apart_def well_sized_def by auto
qed

lemma plan_done: "plan_ok j rec c \<Longrightarrow> todo j = [] \<Longrightarrow> true_record rec c"
  by (auto simp: plan_ok_def true_record_def Let_def split: option.splits)

lemma plan_ok_cong:
  "grant j' = grant j \<Longrightarrow> call_hint j' = call_hint j \<Longrightarrow> call_answers j' = call_answers j \<Longrightarrow>
     todo j' = todo j \<Longrightarrow> plan_ok j' rec c = plan_ok j rec c"
  by (cases "call_hint j") (simp_all add: plan_ok_def Let_def)

text \<open>Events that touch neither records nor contents, and at most retire a task.\<close>

lemma residency_frame:
  assumes res: "residency_ok s" and apart: "slots_apart s"
    and len: "length (slots (shared (net s'))) = length (slots (shared (net s)))"
    and rec: "\<And>k. unat k < length (slots (shared (net s))) \<Longrightarrow>
      record_at k (shared (net s')) = record_at k (shared (net s))"
    and con: "content s' = content s"
    and from_old: "\<And>i j'. jobs s' i = Calling j' \<Longrightarrow> \<exists>j. jobs s i = Calling j \<and> grant j' = grant j \<and>
      call_hint j' = call_hint j \<and> call_answers j' = call_answers j \<and> todo j' = todo j"
    and retired: "\<And>i j. jobs s i = Calling j \<Longrightarrow>
      (\<exists>j'. jobs s' i = Calling j' \<and> grant j' = grant j) \<or> todo j = []"
  shows "residency_ok s'"
  unfolding residency_ok_def
proof (intro conjI allI impI)
  fix i j' assume j': "jobs s' i = Calling j'"
  from from_old [OF j'] obtain j where j: "jobs s i = Calling j" "grant j' = grant j"
    and "plan_ok j' rec c = plan_ok j rec c" for rec c
    using plan_ok_cong by metis
  moreover from res j(1) have "plan_ok j (record_at (slot_id (grant j)) (shared (net s)))
      (content s (slot_id (grant j)))" by (simp add: residency_ok_def)
  moreover from apart j(1) have "unat (slot_id (grant j)) < length (slots (shared (net s)))"
    by (simp add: slots_apart_def)
  ultimately show "plan_ok j' (record_at (slot_id (grant j')) (shared (net s')))
      (content s' (slot_id (grant j')))" by (simp add: rec con)
next
  fix k assume k: "unat k < length (slots (shared (net s'))) \<and>
    (\<forall>i j. jobs s' i = Calling j \<longrightarrow> slot_id (grant j) \<noteq> k)"
  show "true_record (record_at k (shared (net s'))) (content s' k)"
  proof (cases "\<exists>i j. jobs s i = Calling j \<and> slot_id (grant j) = k")
    case False
    with res k len show ?thesis by (auto simp: residency_ok_def rec con)
  next
    case True
    then obtain i j where j: "jobs s i = Calling j" "slot_id (grant j) = k" by blast
    with retired [OF j(1)] k have "todo j = []" by metis
    moreover from res j have "plan_ok j (record_at k (shared (net s))) (content s k)"
      by (auto simp: residency_ok_def)
    ultimately show ?thesis using k len by (simp add: rec con plan_done)
  qed
qed


text \<open>A call of a task, on its own slot.\<close>

lemma residency_call:
  assumes res: "residency_ok s" and apart: "slots_apart s"
    and i: "jobs s i = Calling j" "todo j = act # acts"
    and dep: "dependable_event s (Work i c)"
    and s': "s' = set_job i (Calling (j\<lparr>todo := acts\<rparr>))
        (s\<lparr>net := perform_call act (net s),
           content :=
             (if sched_call act = None then (content s)(slot_id (grant j) := c) else content s)\<rparr>)"
  shows "residency_ok s'"
proof -
  let ?k = "slot_id (grant j)" and ?st = "shared (net s)"
  from apart i(1) have k: "unat ?k < length (slots ?st)" by (simp add: slots_apart_def)
  from res i(1) have plan: "plan_ok j (record_at ?k ?st) (content s ?k)" by (simp add: residency_ok_def)
  from dep i have "call_hint j = Some h \<Longrightarrow> dependable_call (call_answers j) h act (content s ?k) c" for h
    by simp
  from plan_advances [OF plan i(2) this]
  have next_plan: "plan_ok (j\<lparr>todo := acts\<rparr>) (record_after act (record_at ?k ?st))
      (content_next act (content s ?k) c)" .
  have rec: "record_at l (shared (net s')) =
      (if l = ?k then record_after act (record_at ?k ?st) else record_at l ?st)"
    if "unat l < length (slots ?st)" for l
    using plan_call_slot [OF plan i(2)] record_at_call [OF that, of act]
    by (auto simp: s' record_after_other)
  have con: "content s' l = (if l = ?k then content_next act (content s ?k) c else content s l)" for l
    by (simp add: s' content_next_def)
  have others: "jobs s' l = Calling m \<Longrightarrow> l \<noteq> i \<Longrightarrow> jobs s l = Calling m \<and> slot_id (grant m) \<noteq> ?k" for l m
    using apart i(1) by (auto simp: s' slots_apart_def)
  show ?thesis
    unfolding residency_ok_def
  proof (intro conjI allI impI)
    fix l m assume m: "jobs s' l = Calling m"
    show "plan_ok m (record_at (slot_id (grant m)) (shared (net s'))) (content s' (slot_id (grant m)))"
    proof (cases "l = i")
      case True
      with m have "m = j\<lparr>todo := acts\<rparr>" by (simp add: s')
      with next_plan rec [OF k] con [of ?k] show ?thesis by simp
    next
      case False
      from others [OF m False] have l: "jobs s l = Calling m" "slot_id (grant m) \<noteq> ?k" by auto
      with apart have "unat (slot_id (grant m)) < length (slots ?st)" by (simp add: slots_apart_def)
      with l rec con res show ?thesis by (simp add: residency_ok_def)
    qed
  next
    fix l assume l: "unat l < length (slots (shared (net s'))) \<and>
      (\<forall>i j. jobs s' i = Calling j \<longrightarrow> slot_id (grant j) \<noteq> l)"
    have here: "jobs s' i = Calling (j\<lparr>todo := acts\<rparr>)" and elsewhere: "m \<noteq> i \<Longrightarrow> jobs s' m = jobs s m" for m
      by (simp_all add: s')
    from l here have lk: "l \<noteq> ?k" by fastforce
    moreover have "slot_id (grant m') \<noteq> l" if "jobs s m = Calling m'" for m m'
      using l lk elsewhere [of m] i(1) that by (cases "m = i") auto
    moreover have "unat l < length (slots ?st)" using l by (simp add: s')
    ultimately show "true_record (record_at l (shared (net s'))) (content s' l)"
      using res rec con by (simp add: residency_ok_def)
  qed
qed

text \<open>An admission, to a slot that nobody is calling for.\<close>

lemma granted_slot:
  assumes "exec_event sched_admit (Poll i ()) w = Some w'" and "tasks w' i = Holding a"
    and "well_sized (shared w)"
  obtains q where "asked (tasks w i) = Some q" and "unat (slot_id a) < length (slots (shared w))"
    and "\<not> busy (slots (shared w) ! unat (slot_id a))"
    and "cache_ready a = resident_for q (slots (shared w) ! unat (slot_id a))"
  using assms(1)
proof (cases rule: exec_event_cases)
  case (tried k x q d)
  then have ki: "k = i" by simp
  show ?thesis
  proof (cases rule: try_once_cases [of q "settled i w" x i d])
    case (claimed b st')
    with tried ki assms(2) have "b = a" by simp
    with claimed(1) assms(3) obtain m where "unat (slot_id a) = m" and "m < length (slots (shared w))"
      and "\<not> busy (slots (shared w) ! m)" and "cache_ready a = resident_for q (slots (shared w) ! m)"
      by (auto elim!: try_admit_SomeE)
    with that tried(4) ki show ?thesis by (metis asked.simps(1,2))
  next
    case queued
    with tried ki assms(2) show ?thesis by simp
  qed
qed (use assms in auto)

lemma resident_record: "resident_for (Some h) s \<Longrightarrow> record_key s = Some (hint_key h)"
  by (auto simp: resident_for_def is_resident_in_def record_key_def hint_key_def)


lemma residency_granted:
  assumes res: "residency_ok s" and hints: "hints_ok s" and apart: "slots_apart s"
    and poll: "exec_event sched_admit (Poll i ()) (net s) = Some w" and held: "tasks w i = Holding a"
    and ans: "restore_answer ans = Some True \<or> checked_status (warm_answer ans) = Inr ()"
    and idle: "jobs s i = No_Job"
    and s': "s' = set_job i (Calling (start_calls (bodies s i) ans a)) (s\<lparr>net := w\<rparr>)"
  shows "residency_ok s'"
proof -
  let ?st = "shared (net s)" and ?k = "slot_id a"
  from apart have sized: "well_sized ?st" by (simp add: slots_apart_def)
  from granted_slot [OF poll held sized] obtain q where q: "asked (tasks (net s) i) = Some q"
    and k: "unat ?k < length (slots ?st)" and free: "\<not> busy (slots ?st ! unat ?k)"
    and ready: "cache_ready a = resident_for q (slots ?st ! unat ?k)" .
  from q hints have hint: "q = fst (split_request (bodies s i))" by (simp add: hints_ok_def)
  have none: "slot_id (grant j) \<noteq> ?k" if "jobs s l = Calling j" for l j
    using apart free that unfolding slots_apart_def by metis
  have len: "length (slots (shared w)) = length (slots ?st)" by (rule exec_event_length [OF poll])
  have rec: "record_at l (shared w) = record_at l ?st" if "unat l < length (slots ?st)" for l
    by (rule records_kept [OF poll that]) simp_all
  have truth: "true_record (record_at ?k ?st) (content s ?k)"
    using res k none by (simp add: residency_ok_def)
  have plan: "plan_ok (start_calls (bodies s i) ans a) (record_at ?k ?st) (content s ?k)"
  proof (rule plan_started [OF ans truth])
    fix h assume "fst (split_request (bodies s i)) = Some h" and "cache_ready a"
    with ready hint have "record_at ?k ?st = Some (hint_key h)"
      by (simp add: record_at_def resident_record)
    with truth show "content s ?k = Some (hint_key h)" by (simp add: true_record_def)
  qed
  show ?thesis
    unfolding residency_ok_def
  proof (intro conjI allI impI)
    fix l j assume j: "jobs s' l = Calling j"
    show "plan_ok j (record_at (slot_id (grant j)) (shared (net s'))) (content s' (slot_id (grant j)))"
    proof (cases "l = i")
      case True
      with j plan k show ?thesis by (auto simp: s' grant_start rec)
    next
      case False
      with j have l: "jobs s l = Calling j" by (simp add: s')
      with apart have "unat (slot_id (grant j)) < length (slots ?st)" by (simp add: slots_apart_def)
      with res l show ?thesis by (simp add: residency_ok_def s' rec)
    qed
  next
    fix l assume l: "unat l < length (slots (shared (net s'))) \<and>
      (\<forall>i j. jobs s' i = Calling j \<longrightarrow> slot_id (grant j) \<noteq> l)"
    have "slot_id (grant j) \<noteq> l" if "jobs s m = Calling j" for m j
      using l [THEN conjunct2, rule_format, of m j] that idle by (cases "m = i") (auto simp: s')
    moreover have "unat l < length (slots ?st)" using l len by (simp add: s')
    ultimately show "true_record (record_at l (shared (net s'))) (content s' l)"
      using res by (simp add: residency_ok_def s' rec)
  qed
qed

lemma residency_quiet:
  assumes "residency_ok s" and "slots_apart s"
    and move: "exec_event sched_admit e' (net s) = Some (net s') \<or> net s' = net s"
    and kind: "\<And>l m p. e' \<noteq> Operate (Mark_Resident l m p)" "\<And>l. e' \<noteq> Operate (Clear_Resident l)"
    and "content s' = content s"
    and "\<And>i j'. jobs s' i = Calling j' \<Longrightarrow> \<exists>j. jobs s i = Calling j \<and> grant j' = grant j \<and>
      call_hint j' = call_hint j \<and> call_answers j' = call_answers j \<and> todo j' = todo j"
    and "\<And>i j. jobs s i = Calling j \<Longrightarrow>
      (\<exists>j'. jobs s' i = Calling j' \<and> grant j' = grant j) \<or> todo j = []"
  shows "residency_ok s'"
  using assms(1,2) _ _ assms(6-8)
proof (rule residency_frame)
  show "length (slots (shared (net s'))) = length (slots (shared (net s)))"
    using move exec_event_length by metis
  show "record_at k (shared (net s')) = record_at k (shared (net s))"
    if "unat k < length (slots (shared (net s)))" for k
    using move records_kept [OF _ that kind] by metis
qed

lemma residency_ok_step:
  assumes res: "residency_ok s" and hints: "hints_ok s" and apart: "slots_apart s" and jobs: "jobs_ok s"
    and dep: "dependable_event s e" and step: "exec_service timeout e s = Some s'"
  shows "residency_ok s'"
  using step
proof (cases rule: exec_service_cases)
  case (granted i ans a w)
  with dep residency_granted [OF res hints apart granted(2,3) _ _ granted(4)]
    poll_moves [OF jobs_okD [OF jobs] granted(2)] show ?thesis by simp
next
  case (call i c j act acts)
  with dep residency_call [OF res apart call(2,3) _ call(4)] show ?thesis by simp
next
  case (arrive i body w)
  then show ?thesis by (intro residency_quiet [OF res apart, of "Spawn i (fst (split_request body)) timeout"]) (auto simp del: exec_event.simps)
next
  case (waits i ans w)
  then show ?thesis by (intro residency_quiet [OF res apart, of "Poll i ()"]) (auto simp del: exec_event.simps)
next
  case (gave_up i w)
  then show ?thesis by (intro residency_quiet [OF res apart, of "Expire i"]) (auto simp del: exec_event.simps)
next
  case (left_waiting i w)
  then show ?thesis by (intro residency_quiet [OF res apart, of "Abandon i"]) (auto simp del: exec_event.simps)
next
  case (failed i c j err w)
  then show ?thesis
    by (intro residency_quiet [OF res apart, of "Finish i"]) (auto simp del: exec_event.simps split: if_splits)
next
  case (freed i c code r r' w)
  then show ?thesis
    by (intro residency_quiet [OF res apart, of "Finish i"]) (auto simp del: exec_event.simps split: if_splits)
next
  case (reconciled k w)
  then show ?thesis by (intro residency_quiet [OF res apart, of "Operate (Reconcile k)"]) (auto simp del: exec_event.simps)
next
  case (passed d w)
  then show ?thesis by (intro residency_quiet [OF res apart, of "Tick d"]) (auto simp del: exec_event.simps)
qed (intro residency_quiet [OF res apart, of "Tick 0"]; auto split: if_splits)+


section \<open>Requests find their prefix\<close>

lemma residency_ok_start: "residency_ok (start_with c0 n ks)"
proof -
  have kept: "record_key (slots (seed_busy l st) ! m) = record_key (slots st ! m)"
    if "m < length (slots st)" for l m st
    using that by (simp add: seed_busy_def nth_update_slot)
  have same: "length (slots (fold seed_busy ks st)) = length (slots st) \<and>
      (\<forall>m<length (slots st). record_key (slots (fold seed_busy ks st) ! m) = record_key (slots st ! m))"
    for st
  proof (induction ks arbitrary: st)
    case (Cons l ks)
    have "length (slots (seed_busy l st)) = length (slots st)" by (simp add: seed_busy_def frame_simps)
    with Cons [of "seed_busy l st"] kept [of _ st l] show ?case by simp
  qed simp
  have "record_key (slots (seeded_scheduler n ks) ! m) = None" if "m < unat n" for m
    using same [of "new_scheduler n"] that
    by (simp add: seeded_scheduler_def new_scheduler_def default_slot_def record_key_def)
  then show ?thesis
    by (simp add: residency_ok_def start_with_def service_start_def broker_start_def start_world_def
        record_at_def seeded_length true_record_def)
qed

lemma served_well_ok:
  assumes "served_well timeout c0 n ks s"
  shows "sched_reach n ks (net s) \<and> jobs_ok s \<and> hints_ok s \<and> residency_ok s"
  using assms unfolding served_well_def
proof (induction rule: service_reach.induct)
  case service_reach_start
  have "sched_reach n ks (net (start_with c0 n ks))"
    by (simp add: start_with_def service_start_def sched_reach_def reach_start)
  moreover have "jobs_ok (start_with c0 n ks)" and "hints_ok (start_with c0 n ks)"
    by (simp_all add: start_with_def jobs_ok_def hints_ok_def service_start_def broker_start_def
        start_world_def)
  ultimately show ?case using residency_ok_start by blast
next
  case (service_reach_event s e s')
  then have reach: "sched_reach n ks (net s)" and jobs: "jobs_ok s" and hints: "hints_ok s"
    and res: "residency_ok s" by simp_all
  have apart: "slots_apart s" by (rule slots_apartI [OF sched_reach_owns [OF reach] jobs])
  note ev = service_reach_event.hyps(2,3)
  from reach have "sched_reach n ks (net s')"
    unfolding sched_reach_def by (rule service.step_reach [OF ev(2)])
  with jobs_ok_step [OF jobs ev(2)] hints_ok_step [OF hints jobs ev(2)]
    residency_ok_step [OF res hints apart jobs ev]
  show ?case by blast
qed

text \<open>
  C2: A request with a hint is served from its own prefix. With a dependable llama-server and
  store, and no failing warm-up, whenever a task is about to post a request that came with a
  hint, the slot holds the prefix of that very hint, for the request's model, whether the
  broker restored it, warmed it up, or found it resident and did nothing; and every record of
  a slot that is not being prepared is true. This holds over all interleavings with other
  requests, with clients that hang up, and with the reconciliation.
\<close>

theorem hinted_requests_find_their_prefix:
  assumes "served_well timeout c0 n ks s"
  shows "(\<forall>i j h b. jobs s i = Calling j \<and> call_hint j = Some h \<and> todo j = [Post b] \<longrightarrow>
      fst (split_request (bodies s i)) = Some h \<and> content s (slot_id (grant j)) = Some (hint_key h)) \<and>
    (\<forall>k key. unat k < unat n \<and> (\<forall>i j. jobs s i = Calling j \<longrightarrow> slot_id (grant j) \<noteq> k) \<and>
      record_key (slots (shared (net s)) ! unat k) = Some key \<longrightarrow> content s k = Some key)"
proof -
  from served_well_ok [OF assms] have reach: "sched_reach n ks (net s)" and hints: "hints_ok s"
    and res: "residency_ok s" by simp_all
  from sched_reach_owns [OF reach] have len: "length (slots (shared (net s))) = unat n"
    by (simp add: owns_ok_def)
  have "fst (split_request (bodies s i)) = Some h \<and> content s (slot_id (grant j)) = Some (hint_key h)"
    if "jobs s i = Calling j" "call_hint j = Some h" "todo j = [Post b]" for i j h b
  proof -
    from res that(1) have "plan_ok j (record_at (slot_id (grant j)) (shared (net s)))
        (content s (slot_id (grant j)))" by (simp add: residency_ok_def)
    moreover from hints that(1,2) have "fst (split_request (bodies s i)) = Some h"
      by (auto simp: hints_ok_def)
    ultimately show ?thesis using that(2,3) by (simp add: plan_ok_def Let_def)
  qed
  moreover have "content s k = Some key" if "unat k < unat n"
      "\<forall>i j. jobs s i = Calling j \<longrightarrow> slot_id (grant j) \<noteq> k"
      "record_key (slots (shared (net s)) ! unat k) = Some key" for k key
    using res that len by (auto simp: residency_ok_def record_at_def true_record_def)
  ultimately show ?thesis by blast
qed


section \<open>A run as a witness\<close>

fun dependable_run :: "duration \<Rightarrow> 'c service_event list \<Rightarrow> 'c service \<Rightarrow> bool" where
  "dependable_run timeout [] s \<longleftrightarrow> True"
| "dependable_run timeout (e # es) s \<longleftrightarrow>
     dependable_event s e \<and>
     (case exec_service timeout e s of None \<Rightarrow> True | Some s' \<Rightarrow> dependable_run timeout es s')"

lemma served_well_run:
  "run_service timeout es s = Some s' \<Longrightarrow> dependable_run timeout es s \<Longrightarrow>
     served_well timeout c0 n ks s \<Longrightarrow> served_well timeout c0 n ks s'"
  unfolding served_well_def
  by (induction es arbitrary: s)
    (auto split: option.splits dest: service_reach_event simp del: exec_service.simps dependable_event.simps)

text \<open>A cold request: the restore fails, the slot is warmed up, saved and recorded.\<close>

definition hinted_body :: json where
  "hinted_body = Obj [(''aivyx_slot_hint'', Obj [(''prefix_hash'', Str ''p'')])]"

abbreviation (input) demo_slot_hint :: slot_hint where
  "demo_slot_hint \<equiv> demo_hint ''p'' None None"

definition hinted_events :: "nat service_event list" where
  "hinted_events =
     [Arrive 0 hinted_body, Admit 0 (demo_answers Unreachable), Work 0 None,
      Work 0 (Some (hint_key demo_slot_hint)), Work 0 (Some (hint_key demo_slot_hint)), Work 0 None]"

lemma split_hinted_body: "split_request hinted_body = (Some demo_slot_hint, Obj [])"
  by (simp add: hinted_body_def split_request_def wire_hint_def demo_hint_def)

lemma hinted_start:
  "start_calls hinted_body (demo_answers Unreachable) demo_grant =
     \<lparr>grant = demo_grant, call_hint = Some demo_slot_hint, call_answers = demo_answers Unreachable,
      todo = [Restore (hint_key demo_slot_hint) 0, Warm_Up (warm_up_body (Obj []) demo_slot_hint 0),
              Save (hint_key demo_slot_hint) 0, Mark 0 None ''p'', Post (post_body (Obj []) 0)],
      outcome = Inl Send_Failed, head_wanted = True\<rparr>"
  by (simp add: start_calls_def split_hinted_body send_upstream_def send_post_def warm_or_restore_def
      demo_answers_def demo_grant_def demo_hint_def Let_def)

lemma hinted_admitted:
  obtains w0 w where
    "exec_event sched_admit (Spawn 0 (Some demo_slot_hint) 5) (broker_start 1 []) = Some w0"
    and "exec_event sched_admit (Poll 0 ()) w0 = Some w" and "tasks w 0 = Holding demo_grant"
proof -
  have "\<exists>w. run_events sched_admit [Spawn 0 (Some demo_slot_hint) 5, Poll 0 ()] (broker_start 1 []) =
      Some w \<and> tasks w 0 = Holding demo_grant"
    by (simp add: demo_grant_def eval_simps)
  then show ?thesis using that by (auto simp del: exec_event.simps split: option.splits)
qed

lemma hinted_requests_find_their_prefix_witness:
  "\<exists>(s :: nat service) j b. served_well 5 (\<lambda>_. None) 1 [] s \<and> jobs s 0 = Calling j \<and> todo j = [Post b] \<and>
     content s 0 = Some (hint_key demo_slot_hint)"
proof -
  obtain w0 w where
    w: "exec_event sched_admit (Spawn 0 (Some demo_slot_hint) 5) (broker_start 1 []) = Some w0"
      "exec_event sched_admit (Poll 0 ()) w0 = Some w" "tasks w 0 = Holding demo_grant"
    by (rule hinted_admitted)
  have "\<exists>s. run_service 5 hinted_events (start_with (\<lambda>_. None) 1 []) = Some s \<and>
      dependable_run 5 hinted_events (start_with (\<lambda>_. None) 1 []) \<and>
      (\<exists>j. jobs s 0 = Calling j \<and> call_hint j = Some demo_slot_hint \<and> grant j = demo_grant \<and>
         todo j = [Post (post_body (Obj []) 0)])"
    using w
    by (simp add: hinted_events_def on_net_def start_with_def service_start_def split_hinted_body
        hinted_start work_calls_def del: exec_event.simps)
      (simp add: demo_answers_def)
  then obtain s :: "nat service" and j where s: "served_well 5 (\<lambda>_. None) 1 [] s"
    and j: "jobs s 0 = Calling j" "call_hint j = Some demo_slot_hint" "grant j = demo_grant"
      "todo j = [Post (post_body (Obj []) 0)]"
    using served_well_run service_reach_start unfolding served_well_def by metis
  from hinted_requests_find_their_prefix [OF s, THEN conjunct1, rule_format, of 0 j demo_slot_hint] j
  have "content s 0 = Some (hint_key demo_slot_hint)" by (simp add: demo_grant_def)
  with s j show ?thesis by blast
qed

end
