(* ===== verification/Upstream_Work.thy ===== *)
theory Upstream_Work
  imports Chat_Service
begin

text \<open>
  The chat service together with llama-server: what llama-server is at work on, which the broker does
  not see, and what the broker hears of it. Chat_Service says when a slot is given back; here is
  what that is good for.
\<close>

section \<open>llama-server at work\<close>

text \<open>
  \<open>at_work i\<close> is the slot llama-server works on for request \<open>i\<close>, as the call it was sent
  names it. \<open>unsure\<close> are the requests one of whose calls failed in transit, or whose response
  broke off, so that the broker cannot know what llama-server does about them.
\<close>

record 'c joint =
  svc :: "'c service"
  at_work :: "nat \<Rightarrow> u32 option"
  unsure :: "nat set"

definition joint_start :: "u32 \<Rightarrow> u32 list \<Rightarrow> 'c joint" where
  "joint_start n ks = \<lparr>svc = service_start n ks, at_work = (\<lambda>_. None), unsure = {}\<rparr>"

text \<open>The slot a call names: that of a saved state, or the \<^verbatim>\<open>id_slot\<close> of the body that is sent.\<close>

definition body_slot :: "json \<Rightarrow> u32 option" where
  "body_slot b = map_option ucast (Option.bind (json_get ''id_slot'' b) as_u64)"

fun named_slot :: "action \<Rightarrow> u32 option" where
  "named_slot (Restore key k) = Some k"
| "named_slot (Save key k) = Some k"
| "named_slot (Warm_Up b) = body_slot b"
| "named_slot (Post b) = body_slot b"
| "named_slot (Mark k m p) = None"
| "named_slot (Clear k) = None"

text \<open>Does a call come to an answer of llama-server, or does it fail in transit?\<close>

fun answered :: "'c item list answers \<Rightarrow> action \<Rightarrow> bool" where
  "answered ans (Restore key k) \<longleftrightarrow> restore_answer ans \<noteq> None"
| "answered ans (Save key k) \<longleftrightarrow> save_answer ans \<noteq> None"
| "answered ans (Warm_Up b) \<longleftrightarrow> warm_answer ans \<noteq> Unreachable"
| "answered ans (Post b) \<longleftrightarrow> post_answer ans \<noteq> Unreachable"
| "answered ans _ \<longleftrightarrow> True"

text \<open>The task's next call, if that is what it does next.\<close>

definition next_call :: "'c job \<Rightarrow> ('c item list answers \<times> action) option" where
  "next_call jb =
     (case jb of
        Calling j \<Rightarrow> (case todo j of [] \<Rightarrow> None | act # acts \<Rightarrow> Some (call_answers j, act))
      | _ \<Rightarrow> None)"

text \<open>The task's next step is that it sees the response break off.\<close>

definition sees_break :: "'c job \<Rightarrow> bool" where
  "sees_break jb \<longleftrightarrow>
     (case jb of
        Streaming code r \<Rightarrow> phase r = Reading \<and> upstream r \<noteq> [] \<and> hd (upstream r) = Broken
      | _ \<Rightarrow> False)"

text \<open>
  The task takes its next step because it was told that llama-server is done: by the answer to
  the last call, unless that is the head of the response, or by the normal end of the body.
\<close>

definition told_done :: "'c job \<Rightarrow> bool" where
  "told_done jb \<longleftrightarrow>
     (case jb of
        Calling j \<Rightarrow> todo j \<noteq> [] \<or> (\<exists>e. outcome j = Inl e)
      | Streaming code r \<Rightarrow> phase r = Reading \<and> upstream r = []
      | _ \<Rightarrow> False)"

section \<open>Steps\<close>

datatype 'c joint_event = Broker "'c service_event" | Server_Done nat

text \<open>What is relied on: llama-server does not say that it is done while it is at work.\<close>

definition truthful_answer :: "'c joint \<Rightarrow> 'c service_event \<Rightarrow> bool" where
  "truthful_answer u e \<longleftrightarrow>
     (case e of
        Work i c \<Rightarrow> told_done (jobs (svc u) i) \<longrightarrow> i \<in> unsure u \<or> at_work u i = None
      | _ \<Rightarrow> True)"

definition begins :: "'c joint \<Rightarrow> 'c service_event \<Rightarrow> nat \<Rightarrow> u32 option" where
  "begins u e =
     (case e of
        Work i c \<Rightarrow>
          (case next_call (jobs (svc u) i) of
             Some (ans, act) \<Rightarrow>
               (case named_slot act of
                  None \<Rightarrow> at_work u | Some k \<Rightarrow> (at_work u)(i := Some k))
           | None \<Rightarrow> at_work u)
      | _ \<Rightarrow> at_work u)"

definition loses :: "'c joint \<Rightarrow> 'c service_event \<Rightarrow> nat set" where
  "loses u e =
     (case e of
        Work i c \<Rightarrow>
          (if (case next_call (jobs (svc u) i) of
                 Some (ans, act) \<Rightarrow> \<not> answered ans act | None \<Rightarrow> sees_break (jobs (svc u) i))
           then insert i (unsure u) else unsure u)
      | _ \<Rightarrow> unsure u)"

fun exec_joint :: "duration \<Rightarrow> 'c joint_event \<Rightarrow> 'c joint \<Rightarrow> 'c joint option" where
  "exec_joint timeout (Broker e) u =
     (if truthful_answer u e
      then map_option (\<lambda>s. \<lparr>svc = s, at_work = begins u e, unsure = loses u e\<rparr>)
        (exec_service timeout e (svc u))
      else None)"
| "exec_joint timeout (Server_Done i) u =
     (if at_work u i = None then None else Some (u\<lparr>at_work := (at_work u)(i := None)\<rparr>))"

inductive joint_reach :: "duration \<Rightarrow> u32 \<Rightarrow> u32 list \<Rightarrow> 'c joint \<Rightarrow> bool" for timeout n ks where
  joint_reach_start: "joint_reach timeout n ks (joint_start n ks)"
| joint_reach_event: "joint_reach timeout n ks u \<Longrightarrow> exec_joint timeout e u = Some u' \<Longrightarrow>
     joint_reach timeout n ks u'"

fun run_joint :: "duration \<Rightarrow> 'c joint_event list \<Rightarrow> 'c joint \<Rightarrow> 'c joint option" where
  "run_joint timeout [] u = Some u"
| "run_joint timeout (e # es) u =
     (case exec_joint timeout e u of None \<Rightarrow> None | Some u' \<Rightarrow> run_joint timeout es u')"

lemma joint_reach_run:
  "run_joint timeout es u = Some u' \<Longrightarrow> joint_reach timeout n ks u \<Longrightarrow> joint_reach timeout n ks u'"
  by (induction es arbitrary: u) (auto split: option.splits intro: joint_reach_event
      simp del: exec_joint.simps)

section \<open>Every call names the slot of its request\<close>

lemma slot_json_word: "as_u64 (slot_json k) = Some (ucast k)"
  by (simp add: slot_json_def)

lemma ucast_back: "ucast (ucast k :: u64) = (k :: u32)"
  by transfer simp

lemma posted_slot: "body_slot (post_body body k) = Some l \<Longrightarrow> l = k"
proof -
  have "json_get ''id_slot'' (post_body body k) =
      (case body of Obj es \<Rightarrow> Some (slot_json k) | _ \<Rightarrow> None)"
    by (simp add: post_body_def json_get_insert split: json.split)
  then show "body_slot (post_body body k) = Some l \<Longrightarrow> l = k"
    by (auto simp: body_slot_def slot_json_word ucast_back split: json.splits)
qed

lemma warm_up_slot: "body_slot (warm_up_body body h k) = Some k"
  by (simp add: body_slot_def posted_body slot_json_word ucast_back)

lemma upstream_names:
  assumes "act \<in> set (snd (send_upstream ans body hint a))" and "named_slot act = Some l"
  shows "l = slot_id a"
proof (cases hint)
  case None
  with assms show ?thesis
    by (auto simp: send_upstream_def send_post_def dest: posted_slot)
next
  case (Some h)
  show ?thesis
  proof (cases "cache_ready a")
    case True
    with Some assms show ?thesis by (auto simp: send_upstream_def send_post_def dest: posted_slot)
  next
    case False
    with Some assms show ?thesis
      by (cases rule: warm_or_restore_cases [of ans body h "slot_id a"])
        (auto simp: send_upstream_def send_post_def warm_up_slot dest: posted_slot)
  qed
qed

lemma calls_name:
  assumes "act \<in> set (todo (start_calls body ans a))" and "named_slot act = Some l"
  shows "l = slot_id a"
proof -
  obtain hint rest where sp: "split_request body = (hint, rest)" by fastforce
  from assms(1) sp have "act \<in> set (snd (send_upstream ans rest hint a))"
    by (simp add: start_calls_def case_prod_unfold Let_def)
  from upstream_names [OF this assms(2)] show ?thesis .
qed

lemma start_calls_grant: "grant (start_calls body ans a) = a"
  by (simp add: start_calls_def case_prod_unfold Let_def)

section \<open>The invariant\<close>

text \<open>
  What llama-server is at work on, for a request it is not unsure of: a call or the
  response of a task that has still to hear of its end.
\<close>

definition line_ok :: "'c job \<Rightarrow> (slot_hint option, admission) task \<Rightarrow> u32 option \<Rightarrow> bool \<Rightarrow> bool" where
  "line_ok jb t w lost \<longleftrightarrow>
     (case jb of
        Calling j \<Rightarrow>
          (\<forall>act\<in>set (todo j). \<forall>l. named_slot act = Some l \<longrightarrow> l = slot_id (grant j)) \<and>
          (w \<noteq> None \<and> \<not> lost \<longrightarrow> w = Some (slot_id (grant j)))
      | Streaming code r \<Rightarrow>
          (phase r = Sending Broken \<longrightarrow> lost) \<and>
          (w \<noteq> None \<and> \<not> lost \<longrightarrow>
             \<not> over (phase r) \<and> (\<exists>a. t = Holding a \<and> w = Some (slot_id a)))
      | _ \<Rightarrow> w \<noteq> None \<longrightarrow> lost)"

definition joint_ok :: "'c joint \<Rightarrow> bool" where
  "joint_ok u \<longleftrightarrow>
     (\<forall>i. line_ok (jobs (svc u) i) (tasks (net (svc u)) i) (at_work u i) (i \<in> unsure u))"

lemma joint_okD:
  "joint_ok u \<Longrightarrow> line_ok (jobs (svc u) i) (tasks (net (svc u)) i) (at_work u i) (i \<in> unsure u)"
  by (simp add: joint_ok_def)

lemma joint_ok_move:
  assumes "joint_ok u" and "\<And>k. k \<noteq> i \<Longrightarrow> jobs s k = jobs (svc u) k"
    and "\<And>k. k \<noteq> i \<Longrightarrow> tasks (net s) k = tasks (net (svc u)) k"
    and "\<And>k. k \<noteq> i \<Longrightarrow> w k = at_work u k" and "\<And>k. k \<noteq> i \<Longrightarrow> k \<in> l \<longleftrightarrow> k \<in> unsure u"
    and "line_ok (jobs s i) (tasks (net s) i) (w i) (i \<in> l)"
  shows "joint_ok \<lparr>svc = s, at_work = w, unsure = l\<rparr>"
  unfolding joint_ok_def
proof
  fix k
  show "line_ok (jobs (svc \<lparr>svc = s, at_work = w, unsure = l\<rparr>) k)
      (tasks (net (svc \<lparr>svc = s, at_work = w, unsure = l\<rparr>)) k)
      (at_work \<lparr>svc = s, at_work = w, unsure = l\<rparr> k) (k \<in> unsure \<lparr>svc = s, at_work = w, unsure = l\<rparr>)"
    using joint_okD [OF assms(1), of k] assms(2-6) by (cases "k = i") simp_all
qed

lemma quiet_event:
  assumes "\<And>i c. e \<noteq> Work i c"
  shows "begins u e = at_work u" "loses u e = unsure u"
  using assms by (cases e; simp add: begins_def loses_def)+

text \<open>A move of the waiting loop for a request that has no job.\<close>

lemma joint_ok_net:
  assumes ok: "joint_ok u" and jobs: "jobs_ok (svc u)" and "subject e = Some i"
    and "exec_event sched_admit e (net (svc u)) = Some w" and "jobs (svc u) i = No_Job"
    and "jobs s = jobs (svc u)" and "net s = w"
  shows "joint_ok \<lparr>svc = s, at_work = at_work u, unsure = unsure u\<rparr>"
  using joint_okD [OF ok, of i] assms other_task [OF assms(4)]
  by (intro joint_ok_move [OF ok, of i]) (auto simp: line_ok_def)

text \<open>A step of the relay.\<close>

lemma line_ok_relay:
  assumes "line_ok (Streaming code r) t w lost" and "task_next r = Some r'"
    and "told_done (Streaming code r) \<Longrightarrow> lost \<or> w = None"
  shows "line_ok (Streaming code r') t w (lost \<or> sees_break (Streaming code r))"
proof (cases "phase r")
  case Reading
  with assms show ?thesis
    by (cases "upstream r"; cases "hd (upstream r)")
      (auto simp: task_next_def line_ok_def told_done_def sees_break_def after_item_def
          split: if_splits)
next
  case (Sending x)
  with assms(1,2) show ?thesis
    by (cases x) (auto simp: task_next_def line_ok_def after_item_def split: if_splits)
qed (use assms(1,2) in \<open>auto simp: task_next_def line_ok_def\<close>)

lemma line_ok_drained:
  "line_ok (Streaming code r) t w lost \<Longrightarrow> over (phase r) \<Longrightarrow> over (phase r') \<Longrightarrow>
     line_ok (Streaming code r') t' w lost"
  by (auto simp: line_ok_def)

lemma joint_ok_broker:
  assumes ok: "joint_ok u" and jobs: "jobs_ok (svc u)" and true: "truthful_answer u e"
    and step: "exec_service timeout e (svc u) = Some s"
  shows "joint_ok \<lparr>svc = s, at_work = begins u e, unsure = loses u e\<rparr>"
  using step
proof (cases rule: exec_service_cases)
  case (arrive i body w)
  then have q: "begins u e = at_work u" "loses u e = unsure u" by (simp_all add: quiet_event)
  have "jobs (svc u) i = No_Job"
    using idle_moves [OF jobs_okD [OF jobs] _ _ _ arrive(2)] by simp
  from joint_ok_net [OF ok jobs _ arrive(2) this, of s] arrive(3) show ?thesis by (simp add: q)
next
  case (granted i ans a w)
  then have q: "begins u e = at_work u" "loses u e = unsure u" by (simp_all add: quiet_event)
  have "jobs (svc u) i = No_Job" using poll_moves [OF jobs_okD [OF jobs] granted(2)] .
  with joint_okD [OF ok, of i] granted(3,4) show ?thesis
    unfolding q
    by (intro joint_ok_move [OF ok, of i])
      (auto simp: other_task [OF granted(2)] line_ok_def start_calls_grant dest: calls_name)
next
  case (waits i ans w)
  then have q: "begins u e = at_work u" "loses u e = unsure u" by (simp_all add: quiet_event)
  have "jobs (svc u) i = No_Job" using poll_moves [OF jobs_okD [OF jobs] waits(2)] .
  from joint_ok_net [OF ok jobs _ waits(2) this, of s] waits(4) show ?thesis by (simp add: q)
next
  case (gave_up i w)
  then have q: "begins u e = at_work u" "loses u e = unsure u" by (simp_all add: quiet_event)
  have "jobs (svc u) i = No_Job"
    using idle_moves [OF jobs_okD [OF jobs] _ _ _ gave_up(2)] by simp
  from joint_ok_net [OF ok jobs _ gave_up(2) this, of s] gave_up(3) show ?thesis by (simp add: q)
next
  case (left_waiting i w)
  then have q: "begins u e = at_work u" "loses u e = unsure u" by (simp_all add: quiet_event)
  from joint_ok_net [OF ok jobs _ left_waiting(3,2), of s] left_waiting(4) show ?thesis by (simp add: q)
next
  case (left_calling i j)
  then have q: "begins u e = at_work u" "loses u e = unsure u" by (simp_all add: quiet_event)
  from joint_okD [OF ok, of i] left_calling show ?thesis
    unfolding q by (intro joint_ok_move [OF ok, of i]) (auto simp: line_ok_def)
next
  case (left_stream i code r r')
  then have q: "begins u e = at_work u" "loses u e = unsure u" by (simp_all add: quiet_event)
  from left_stream(3) have "phase r' = phase r" by (auto simp: client_leave_def split: if_splits)
  with joint_okD [OF ok, of i] left_stream show ?thesis
    unfolding q by (intro joint_ok_move [OF ok, of i]) (auto simp: line_ok_def)
next
  case (read i code r r')
  then have q: "begins u e = at_work u" "loses u e = unsure u" by (simp_all add: quiet_event)
  from read(3) have "phase r' = phase r"
    by (auto simp: client_read_def split: if_splits list.splits item.splits)
  with joint_okD [OF ok, of i] read show ?thesis
    unfolding q by (intro joint_ok_move [OF ok, of i]) (auto simp: line_ok_def)
next
  case (reconciled k w)
  then have q: "begins u e = at_work u" "loses u e = unsure u" by (simp_all add: quiet_event)
  from reconciled ok show ?thesis unfolding q by (auto simp: joint_ok_def)
next
  case (passed d w)
  then have q: "begins u e = at_work u" "loses u e = unsure u" by (simp_all add: quiet_event)
  from passed ok show ?thesis unfolding q by (auto simp: joint_ok_def)
next
  case (call i c j act acts)
  then have nxt: "next_call (Calling j) = Some (call_answers j, act)" by (simp add: next_call_def)
  from joint_okD [OF ok, of i] call show ?thesis
    by (intro joint_ok_move [OF ok, of i])
      (auto simp: line_ok_def begins_def loses_def nxt split: option.splits)
next
  case (failed i c j err w)
  then have nxt: "next_call (Calling j) = None" "\<not> sees_break (Calling j)"
    by (simp_all add: next_call_def sees_break_def)
  from failed true have "i \<in> unsure u \<or> at_work u i = None"
    by (simp add: truthful_answer_def told_done_def)
  with joint_okD [OF ok, of i] failed other_task [OF failed(5)] show ?thesis
    by (intro joint_ok_move [OF ok, of i])
      (auto simp: line_ok_def begins_def loses_def nxt)
next
  case (head i c j code b)
  then have nxt: "next_call (Calling j) = None" "\<not> sees_break (Calling j)"
    by (simp_all add: next_call_def sees_break_def)
  from head jobs_okD [OF jobs, of i] have "tasks (net (svc u)) i = Holding (grant j)" by simp
  with joint_okD [OF ok, of i] head show ?thesis
    by (intro joint_ok_move [OF ok, of i])
      (auto simp: line_ok_def begins_def loses_def nxt relay_start_def)
next
  case (relayed i c code r r')
  then have nxt: "next_call (Streaming code r) = None" by (simp add: next_call_def)
  from relayed true have "told_done (Streaming code r) \<Longrightarrow> i \<in> unsure u \<or> at_work u i = None"
    by (auto simp: truthful_answer_def)
  from line_ok_relay [OF _ relayed(3) this] joint_okD [OF ok, of i] relayed
  have "line_ok (Streaming code r') (tasks (net (svc u)) i) (at_work u i)
      (i \<in> unsure u \<or> sees_break (Streaming code r))" by simp
  with relayed show ?thesis
    by (intro joint_ok_move [OF ok, of i]) (auto simp: begins_def loses_def nxt)
next
  case (freed i c code r r' w)
  then have nxt: "next_call (Streaming code r) = None" by (simp add: next_call_def)
  have "phase r = Drained" "phase r' = Released"
    using freed(3,4) by (auto simp: task_next_def split: phase.splits list.splits if_splits)
  then have "over (phase r)" "over (phase r')" "\<not> sees_break (Streaming code r)"
    by (simp_all add: sees_break_def)
  with line_ok_drained joint_okD [OF ok, of i] freed
  have "line_ok (Streaming code r') t (at_work u i) (i \<in> unsure u)" for t by metis
  with freed \<open>\<not> sees_break (Streaming code r)\<close> other_task [OF freed(5)] show ?thesis
    by (intro joint_ok_move [OF ok, of i]) (auto simp: begins_def loses_def nxt)
qed

lemma joint_ok_done:
  "joint_ok u \<Longrightarrow> joint_ok (u\<lparr>at_work := (at_work u)(i := None)\<rparr>)"
  by (auto simp: joint_ok_def line_ok_def split: job.splits)

lemma joint_reach_ok:
  assumes "joint_reach timeout n ks u"
  shows "joint_ok u \<and> serviced timeout n ks (svc u)"
  using assms
proof induction
  case joint_reach_start
  show ?case
    by (simp add: joint_ok_def joint_start_def line_ok_def serviced_start) (simp add: service_start_def)
next
  case (joint_reach_event u e u')
  then have jobs: "jobs_ok (svc u)" unfolding serviced_def by (blast intro: service_reach_jobs)
  show ?case
  proof (cases e)
    case (Broker f)
    with joint_reach_event.hyps obtain s where "truthful_answer u f"
      and s: "exec_service timeout f (svc u) = Some s"
      and "u' = \<lparr>svc = s, at_work = begins u f, unsure = loses u f\<rparr>"
      by (auto split: if_splits simp del: exec_service.simps)
    with joint_ok_broker [OF _ jobs] joint_reach_event.IH serviced_step show ?thesis by fastforce
  next
    case (Server_Done i)
    with joint_reach_event show ?thesis by (auto simp: joint_ok_done split: if_splits)
  qed
qed

section \<open>One slot, one request\<close>

text \<open>
  C3: llama-server never works for two requests on one slot, as far as the broker can know. Let
  the broker hear from llama-server nothing that is not so: the answer to a call, and the normal
  end of a response, only come when llama-server is done. Then at every moment, over all interleavings of requests, clients,
  tasks and llama-server, a request that llama-server is at work for, and no call of which has failed in transit, holds in the scheduler's table the
  very slot that llama-server was told to use; and llama-server is at work on that slot for no other such request.
  What its client does, leaving included, does not matter. The proviso is needed: see
  \<open>error_frees_early\<close>.
\<close>

theorem upstream_work_exclusive:
  assumes "joint_reach timeout n ks u" and "at_work u i = Some k" and "i \<notin> unsure u"
  shows "(\<exists>a. tasks (net (svc u)) i = Holding a \<and> slot_id a = k) \<and> unat k < unat n \<and>
    busy (slots (shared (net (svc u))) ! unat k) \<and>
    (\<forall>j. at_work u j = Some k \<and> j \<notin> unsure u \<longrightarrow> j = i)"
proof -
  from joint_reach_ok [OF assms(1)] have ok: "joint_ok u" and s: "serviced timeout n ks (svc u)"
    by simp_all
  from s have jobs: "jobs_ok (svc u)" unfolding serviced_def by (rule service_reach_jobs)
  have holds: "\<exists>a. tasks (net (svc u)) j = Holding a \<and> slot_id a = k"
    if "at_work u j = Some k" "j \<notin> unsure u" for j
    using joint_okD [OF ok, of j] jobs_okD [OF jobs, of j] that
    by (cases "jobs (svc u) j") (auto simp: line_ok_def)
  from service_refines_scheduler_reach [OF s] have own: "owns_ok n (net (svc u))"
    by (rule sched_reach_owns)
  from holds [OF assms(2,3)] obtain a where a: "tasks (net (svc u)) i = Holding a" "slot_id a = k"
    by blast
  with own have k: "unat k < unat n" and "pool (shared (net (svc u))) ! unat k = Owned"
    unfolding owns_ok_def owned_by_def by auto
  with own have "busy (slots (shared (net (svc u))) ! unat k)"
    by (auto simp: owns_ok_def nth_pool status_of_def split: if_splits)
  moreover have "j = i" if "at_work u j = Some k" "j \<notin> unsure u" for j
    using holds [OF that] a own unfolding owns_ok_def owned_by_def by blast
  ultimately show ?thesis using a k by blast
qed

section \<open>After an error\<close>

lemma run_service_length:
  "run_service timeout es s = Some s' \<Longrightarrow>
     length (slots (shared (net s'))) = length (slots (shared (net s)))"
proof (induction es arbitrary: s)
  case (Cons e es)
  then obtain s1 where s1: "exec_service timeout e s = Some s1" and "run_service timeout es s1 = Some s'"
    by (auto split: option.splits simp del: exec_service.simps)
  with Cons.IH have "length (slots (shared (net s'))) = length (slots (shared (net s1)))" by blast
  also have "\<dots> = length (slots (shared (net s)))"
    using service_view [OF s1] exec_event_length by metis
  finally show ?case .
qed simp

lemma unsure_follows:
  assumes "run_service timeout (replicate m (Work i c)) (svc u) = Some s"
    and "jobs (svc u) i = Streaming code r" and "i \<in> unsure u \<or> sees_break (jobs (svc u) i)"
  shows "\<exists>u'. run_joint timeout (replicate m (Broker (Work i c))) u = Some u' \<and> svc u' = s \<and>
    at_work u' = at_work u"
  using assms
proof (induction m arbitrary: u r)
  case (Suc m)
  then obtain s1 where s1: "exec_service timeout (Work i c) (svc u) = Some s1"
    and rest: "run_service timeout (replicate m (Work i c)) s1 = Some s"
    by (auto split: option.splits simp del: exec_service.simps)
  have "truthful_answer u (Work i c)"
    using Suc.prems(2,3)
    by (auto simp: truthful_answer_def told_done_def sees_break_def)
  moreover have "begins u (Work i c) = at_work u" "i \<in> loses u (Work i c)"
    using Suc.prems(2,3) by (auto simp: begins_def loses_def next_call_def)
  moreover from s1 Suc.prems(2) obtain r1 where "jobs s1 i = Streaming code r1"
    by (auto simp: work_stream_def drop_slot_def Let_def split: option.splits if_splits)
  ultimately show ?case
    using Suc.IH [of "\<lparr>svc = s1, at_work = at_work u, unsure = loses u (Work i c)\<rparr>" r1] s1 rest
    by (simp del: exec_service.simps)
qed simp

text \<open>
  C23: A response that breaks off frees its slot, whether or not llama-server is done. If the
  task's reading of the response fails, as it does when the HTTP client has
  seen no byte for its 300 seconds, a few more steps of the task give the slot back,
  while llama-server may be at work on it as before: the slot is idle in the table, for the next
  request to be sent to it.
\<close>

theorem error_frees_early:
  assumes "joint_reach timeout n ks u" and "at_work u i = Some k" and "i \<notin> unsure u"
    and "jobs (svc u) i = Streaming code r" and "phase r = Reading" and "upstream r = Broken # us"
  shows "\<exists>m u'. run_joint timeout (replicate m (Broker (Work i c))) u = Some u' \<and>
    at_work u' i = Some k \<and> tasks (net (svc u')) i = Gone \<and>
    unat k < length (slots (shared (net (svc u')))) \<and>
    \<not> busy (slots (shared (net (svc u'))) ! unat k)"
proof -
  from joint_reach_ok [OF assms(1)] have ok: "joint_ok u" and s: "serviced timeout n ks (svc u)"
    by simp_all
  from s have jobs: "jobs_ok (svc u)" unfolding serviced_def by (rule service_reach_jobs)
  from joint_okD [OF ok, of i] assms(2-4) obtain a
    where a: "tasks (net (svc u)) i = Holding a" "slot_id a = k" by (auto simp: line_ok_def)
  from sched_reach_owns [OF service_refines_scheduler_reach [OF s]] a
  have k: "unat (slot_id a) < length (slots (shared (net (svc u))))"
    unfolding owns_ok_def owned_by_def by auto
  from task_runs_out [OF jobs a(1) k] obtain m s'
    where run: "run_service timeout (replicate m (Work i c)) (svc u) = Some s'"
      and over: "tasks (net s') i = Gone" "\<not> busy (slots (shared (net s')) ! unat (slot_id a))"
    by blast
  have "sees_break (jobs (svc u) i)" using assms(4-6) by (simp add: sees_break_def)
  with unsure_follows [OF run assms(4)] obtain u'
    where "run_joint timeout (replicate m (Broker (Work i c))) u = Some u'" "svc u' = s'"
      "at_work u' = at_work u" by blast
  moreover have "length (slots (shared (net s'))) = length (slots (shared (net (svc u))))"
    using run_service_length [OF run] .
  ultimately show ?thesis using over a k assms(2) by metis
qed

section \<open>A run as a witness\<close>

text \<open>One slot; the response breaks off after one chunk, and the client has left before.\<close>

definition broken_run :: "nat joint_event list" where
  "broken_run =
     map Broker
       ([Arrive 0 (Obj []), Admit 0 (demo_answers (Reply 200 (Some [Chunk 1, Broken]))), Leave 0] @
        replicate 4 (Work 0 None))"

lemma broken_run_state:
  "\<exists>u :: nat joint. joint_reach 5 1 [] u \<and> at_work u 0 = Some 0 \<and> 0 \<notin> unsure u \<and>
     (\<exists>r. jobs (svc u) 0 = Streaming 200 r \<and> phase r = Reading \<and> upstream r = [Broken])"
proof -
  obtain w0 w where w: "exec_event sched_admit (Spawn 0 None 5) (broker_start 1 []) = Some w0"
    "exec_event sched_admit (Poll 0 ()) w0 = Some w" "tasks w 0 = Holding demo_grant"
    by (rule demo_admitted)
  have "fst (split_request (Obj [])) = None" by (simp add: split_request_def)
  moreover have "body_slot (post_body (Obj []) 0) = Some 0"
    by (simp add: body_slot_def post_body_def json_get_insert slot_json_def)
  moreover have "post_answer (demo_answers r) = r" for r by (simp add: demo_answers_def)
  ultimately have "\<exists>u. run_joint 5 broken_run (joint_start 1 [] :: nat joint) = Some u \<and> at_work u 0 = Some 0 \<and>
      0 \<notin> unsure u \<and>
      (\<exists>r. jobs (svc u) 0 = Streaming 200 r \<and> phase r = Reading \<and> upstream r = [Broken])"
    by (simp add: broken_run_def joint_start_def service_start_def on_net_def demo_start
        truthful_answer_def told_done_def begins_def loses_def next_call_def sees_break_def
        work_calls_def work_stream_def replicate_numeral_eval perform_call_def body_items_def
        relay_start_def task_next_def after_item_def w del: exec_event.simps)
  then show ?thesis using joint_reach_run joint_reach_start by blast
qed

lemma upstream_work_exclusive_witness:
  "\<exists>u :: nat joint. joint_reach 5 1 [] u \<and> at_work u 0 = Some 0 \<and> busy (slots (shared (net (svc u))) ! 0)"
proof -
  obtain u :: "nat joint" where u: "joint_reach 5 1 [] u" "at_work u 0 = Some 0" "0 \<notin> unsure u"
    using broken_run_state by blast
  from upstream_work_exclusive [OF u] u show ?thesis by auto
qed

lemma error_frees_early_witness:
  "\<exists>u :: nat joint. joint_reach 5 1 [] u \<and> at_work u 0 = Some 0 \<and>
     \<not> busy (slots (shared (net (svc u))) ! 0)"
proof -
  obtain u :: "nat joint" and r where u: "joint_reach 5 1 [] u" "at_work u 0 = Some 0" "0 \<notin> unsure u"
    "jobs (svc u) 0 = Streaming 200 r" "phase r = Reading" "upstream r = [Broken]"
    using broken_run_state by blast
  from error_frees_early [OF u, of None] obtain m u' where
    "run_joint 5 (replicate m (Broker (Work 0 None))) u = Some u'" "at_work u' 0 = Some 0"
    "\<not> busy (slots (shared (net (svc u'))) ! unat (0 :: u32))" by blast
  with joint_reach_run [OF _ u(1)] show ?thesis by auto
qed

end
