(* ===== verification/Config.thy ===== *)
theory Config
  imports Gpu_Probe "HOL-Library.Monad_Syntax"
begin

text \<open>
  The configuration (src/src/config.rs): the options of the command line, the environment
  variables that stand in for them, their types and their defaults. The argument parser itself,
  the crate clap, is an argument of the model (\<open>reader\<close>).
\<close>

section \<open>The configuration\<close>

record broker_config =
  port :: u16
  llama_server_url :: string
  kvcache_store_path :: string
  kvcache_max_bytes :: u64
  queue_timeout_secs :: u64
  gpu_lock_queue_timeout_secs :: u64
  gpu_lock_max_hold_secs :: u64
  max_request_body_bytes :: u64
  config_vram_source :: vram_source
  allowed_hosts :: "string list"

definition default_max_request_body_bytes :: u64 where
  "default_max_request_body_bytes = 64 * 1024 * 1024"

text \<open>The configuration when only the two required arguments are given.\<close>

definition default_config :: "string \<Rightarrow> string \<Rightarrow> broker_config" where
  "default_config url path =
     \<lparr>port = 8899, llama_server_url = url, kvcache_store_path = path,
      kvcache_max_bytes = 10 * 1024 * 1024 * 1024, queue_timeout_secs = 60,
      gpu_lock_queue_timeout_secs = 280, gpu_lock_max_hold_secs = 900,
      max_request_body_bytes = default_max_request_body_bytes, config_vram_source = Auto,
      allowed_hosts = []\<rparr>"

section \<open>Reading the arguments\<close>

text \<open>
  What clap does. \<open>given long env\<close> lists the texts supplied for an option, those of the command
  line in order or, if there is none, that of the environment variable; \<open>read_number bits\<close> reads
  a number of an unsigned type, \<open>read_path\<close> a path; \<open>pieces c\<close> splits at a delimiter.
\<close>

record reader =
  given :: "string \<Rightarrow> string \<Rightarrow> string list"
  read_number :: "nat \<Rightarrow> string \<Rightarrow> nat option"
  read_path :: "string \<Rightarrow> string option"
  pieces :: "char \<Rightarrow> string \<Rightarrow> string list"

definition read_word :: "reader \<Rightarrow> string \<Rightarrow> 'a::len word option" where
  "read_word p v = map_option of_nat (read_number p LENGTH('a) v)"

text \<open>The names that \<^verbatim>\<open>derive(ValueEnum)\<close> gives the variants of \<^verbatim>\<open>VramSource\<close>.\<close>

definition vram_source_names :: "(string \<times> vram_source) list" where
  "vram_source_names =
     [(''auto'', Auto), (''nvidia'', Nvidia), (''amd'', Amd), (''none'', No_Source)]"

definition read_vram_source :: "string \<Rightarrow> vram_source option" where
  "read_vram_source = map_of vram_source_names"

text \<open>
  An option with one value: its default if it is absent (none if it is required), and refused
  if it is given twice.
\<close>

definition option_value ::
  "reader \<Rightarrow> (string \<Rightarrow> 'a option) \<Rightarrow> 'a option \<Rightarrow> string \<Rightarrow> string \<Rightarrow> 'a option" where
  "option_value p read absent long env =
     (case given p long env of [] \<Rightarrow> absent | [v] \<Rightarrow> read v | _ \<Rightarrow> None)"

text \<open>\<^verbatim>\<open>BrokerConfig::parse\<close>: no configuration if clap prints its usage and ends the program.\<close>

definition parse_config :: "reader \<Rightarrow> broker_config option" where
  "parse_config p = do {
     port \<leftarrow> option_value p (read_word p) (Some 8899) ''port'' ''AIVYX_BROKER_PORT'';
     url \<leftarrow> option_value p Some None ''llama-server-url'' ''AIVYX_BROKER_LLAMA_SERVER_URL'';
     path \<leftarrow> option_value p (read_path p) None
       ''kvcache-store-path'' ''AIVYX_BROKER_KVCACHE_STORE_PATH'';
     max_bytes \<leftarrow> option_value p (read_word p) (Some (10 * 1024 * 1024 * 1024))
       ''kvcache-max-bytes'' ''AIVYX_BROKER_KVCACHE_MAX_BYTES'';
     queue \<leftarrow> option_value p (read_word p) (Some 60)
       ''queue-timeout-secs'' ''AIVYX_BROKER_QUEUE_TIMEOUT_SECS'';
     lock_queue \<leftarrow> option_value p (read_word p) (Some 280)
       ''gpu-lock-queue-timeout-secs'' ''AIVYX_BROKER_GPU_LOCK_QUEUE_TIMEOUT_SECS'';
     max_hold \<leftarrow> option_value p (read_word p) (Some 900)
       ''gpu-lock-max-hold-secs'' ''AIVYX_BROKER_GPU_LOCK_MAX_HOLD_SECS'';
     body_bytes \<leftarrow> option_value p (read_word p) (Some default_max_request_body_bytes)
       ''max-request-body-bytes'' ''AIVYX_BROKER_MAX_REQUEST_BODY_BYTES'';
     source \<leftarrow> option_value p read_vram_source (Some Auto)
       ''vram-source'' ''AIVYX_BROKER_VRAM_SOURCE'';
     Some \<lparr>port = port, llama_server_url = url, kvcache_store_path = path,
       kvcache_max_bytes = max_bytes, queue_timeout_secs = queue,
       gpu_lock_queue_timeout_secs = lock_queue, gpu_lock_max_hold_secs = max_hold,
       max_request_body_bytes = body_bytes, config_vram_source = source,
       allowed_hosts =
         concat (map (pieces p CHR '','') (given p ''allowed-hosts'' ''AIVYX_BROKER_ALLOWED_HOSTS''))\<rparr>
   }"

section \<open>Command lines\<close>

text \<open>A configuration as the options that ask for it.\<close>

fun source_name :: "vram_source \<Rightarrow> string" where
  "source_name Auto = ''auto''"
| "source_name Nvidia = ''nvidia''"
| "source_name Amd = ''amd''"
| "source_name No_Source = ''none''"

definition arguments_of :: "broker_config \<Rightarrow> (string \<times> string) list" where
  "arguments_of c =
     [(''port'', decimal (unat (port c))),
      (''llama-server-url'', llama_server_url c),
      (''kvcache-store-path'', kvcache_store_path c),
      (''kvcache-max-bytes'', decimal (unat (kvcache_max_bytes c))),
      (''queue-timeout-secs'', decimal (unat (queue_timeout_secs c))),
      (''gpu-lock-queue-timeout-secs'', decimal (unat (gpu_lock_queue_timeout_secs c))),
      (''gpu-lock-max-hold-secs'', decimal (unat (gpu_lock_max_hold_secs c))),
      (''max-request-body-bytes'', decimal (unat (max_request_body_bytes c))),
      (''vram-source'', source_name (config_vram_source c))] @
     (if allowed_hosts c = [] then [] else [(''allowed-hosts'', join_with CHR '','' (allowed_hosts c))])"

text \<open>
  What clap documents, for a command line made of these options and an environment that sets
  none of the variables: an option is found by its name, a number in range is read from its
  decimal digits, a path is any text that is not empty, and splitting undoes joining.
\<close>

definition documented :: "reader \<Rightarrow> (string \<times> string) list \<Rightarrow> bool" where
  "documented p args \<longleftrightarrow>
     (\<forall>long env. given p long env = map snd (filter (\<lambda>a. fst a = long) args)) \<and>
     (\<forall>bits n. n < 2 ^ bits \<longrightarrow> read_number p bits (decimal n) = Some n) \<and>
     (\<forall>v. v \<noteq> [] \<longrightarrow> read_path p v = Some v) \<and>
     (\<forall>c xs. xs \<noteq> [] \<and> (\<forall>x\<in>set xs. x \<noteq> [] \<and> c \<notin> set x) \<longrightarrow> pieces p c (join_with c xs) = xs)"

text \<open>A parser of this kind, for running the model on a command line.\<close>

definition plain_reader :: "(string \<times> string) list \<Rightarrow> reader" where
  "plain_reader args =
     \<lparr>given = (\<lambda>long env. map snd (filter (\<lambda>a. fst a = long) args)),
      read_number = (\<lambda>bits. parse_unsigned (2 ^ bits - 1)),
      read_path = (\<lambda>v. if v = [] then None else Some v),
      pieces = split_on\<rparr>"

lemma plain_reader_documented: "documented (plain_reader args) args"
  by (auto simp: documented_def plain_reader_def split_on_join intro!: parse_unsigned_decimal)

text \<open>The fields named by \<open>F\<close> from one configuration, the others from another.\<close>

definition override :: "string set \<Rightarrow> broker_config \<Rightarrow> broker_config \<Rightarrow> broker_config" where
  "override F c d =
     \<lparr>port = (if ''port'' \<in> F then port c else port d),
      llama_server_url = (if ''llama-server-url'' \<in> F then llama_server_url c else llama_server_url d),
      kvcache_store_path =
        (if ''kvcache-store-path'' \<in> F then kvcache_store_path c else kvcache_store_path d),
      kvcache_max_bytes =
        (if ''kvcache-max-bytes'' \<in> F then kvcache_max_bytes c else kvcache_max_bytes d),
      queue_timeout_secs =
        (if ''queue-timeout-secs'' \<in> F then queue_timeout_secs c else queue_timeout_secs d),
      gpu_lock_queue_timeout_secs =
        (if ''gpu-lock-queue-timeout-secs'' \<in> F
         then gpu_lock_queue_timeout_secs c else gpu_lock_queue_timeout_secs d),
      gpu_lock_max_hold_secs =
        (if ''gpu-lock-max-hold-secs'' \<in> F
         then gpu_lock_max_hold_secs c else gpu_lock_max_hold_secs d),
      max_request_body_bytes =
        (if ''max-request-body-bytes'' \<in> F
         then max_request_body_bytes c else max_request_body_bytes d),
      config_vram_source =
        (if ''vram-source'' \<in> F then config_vram_source c else config_vram_source d),
      allowed_hosts = (if ''allowed-hosts'' \<in> F then allowed_hosts c else allowed_hosts d)\<rparr>"

lemma read_source_name: "read_vram_source (source_name v) = Some v"
  by (cases v) (simp_all add: read_vram_source_def vram_source_names_def)

lemma read_word_decimal:
  "documented p args \<Longrightarrow> read_word p (decimal (unat w)) = Some (w :: 'a::len word)"
  using unsigned_less [of w] by (simp add: read_word_def documented_def)

text \<open>An option that stands once in the command line gets its text.\<close>

lemma one_argument:
  "distinct (map fst args) \<Longrightarrow> (l, v) \<in> set args \<Longrightarrow>
     map snd (filter (\<lambda>a. fst a = l) (filter (\<lambda>a. fst a \<in> F) args)) = (if l \<in> F then [v] else [])"
proof (induction args)
  case (Cons a args)
  have "filter (\<lambda>a. fst a = l) (filter (\<lambda>a. fst a \<in> F) args) = []" if "l \<notin> fst ` set args"
    using that by (auto simp: filter_empty_conv)
  with Cons show ?case by (cases "a = (l, v)") (auto simp: image_iff)
qed simp

lemma distinct_arguments: "distinct (map fst (arguments_of c))"
  by (simp add: arguments_of_def)

lemma arguments_members:
  "(''port'', decimal (unat (port c))) \<in> set (arguments_of c)"
  "(''llama-server-url'', llama_server_url c) \<in> set (arguments_of c)"
  "(''kvcache-store-path'', kvcache_store_path c) \<in> set (arguments_of c)"
  "(''kvcache-max-bytes'', decimal (unat (kvcache_max_bytes c))) \<in> set (arguments_of c)"
  "(''queue-timeout-secs'', decimal (unat (queue_timeout_secs c))) \<in> set (arguments_of c)"
  "(''gpu-lock-queue-timeout-secs'', decimal (unat (gpu_lock_queue_timeout_secs c))) \<in> set (arguments_of c)"
  "(''gpu-lock-max-hold-secs'', decimal (unat (gpu_lock_max_hold_secs c))) \<in> set (arguments_of c)"
  "(''max-request-body-bytes'', decimal (unat (max_request_body_bytes c))) \<in> set (arguments_of c)"
  "(''vram-source'', source_name (config_vram_source c)) \<in> set (arguments_of c)"
  unfolding arguments_of_def by (simp_all only: set_append list.set insert_iff Un_iff simp_thms)

lemma option_value_argument:
  assumes "documented p (filter (\<lambda>a. fst a \<in> F) (arguments_of c))" and "(l, v) \<in> set (arguments_of c)"
  shows "option_value p read absent l env = (if l \<in> F then read v else absent)"
  using assms(1) one_argument [OF distinct_arguments assms(2)]
  by (simp add: documented_def option_value_def)

lemma hosts_argument:
  assumes "documented p (filter (\<lambda>a. fst a \<in> F) (arguments_of c))"
    and "\<forall>h\<in>set (allowed_hosts c). h \<noteq> [] \<and> CHR '','' \<notin> set h"
  shows "concat (map (pieces p CHR '','') (given p ''allowed-hosts'' env)) =
    (if ''allowed-hosts'' \<in> F then allowed_hosts c else [])"
proof (cases "allowed_hosts c = []")
  case True
  then have "''allowed-hosts'' \<notin> fst ` set (arguments_of c)" by (simp add: arguments_of_def)
  then have "filter (\<lambda>a. fst a = ''allowed-hosts'')
      (filter (\<lambda>a. fst a \<in> F) (arguments_of c)) = []"
    by (force simp: filter_empty_conv image_iff)
  with True assms(1) show ?thesis by (simp add: documented_def)
next
  case False
  then have "(''allowed-hosts'', join_with CHR '','' (allowed_hosts c)) \<in> set (arguments_of c)"
    unfolding arguments_of_def by simp
  from one_argument [OF distinct_arguments this] assms False show ?thesis
    by (simp add: documented_def)
qed

text \<open>
  C27: The options are independent, and each says what its field gets. Take any configuration and
  write any selection of its options on the command line: the program gets the chosen fields as
  they are written and every other field at its default, and it starts at all exactly if
  the address of llama-server and the path of the store are among those chosen. With all options
  chosen every configuration is obtained.
\<close>

theorem options_resolve:
  assumes "documented p (filter (\<lambda>a. fst a \<in> F) (arguments_of c))"
    and "kvcache_store_path c \<noteq> []"
    and "\<forall>h\<in>set (allowed_hosts c). h \<noteq> [] \<and> CHR '','' \<notin> set h"
  shows "parse_config p =
    (if ''llama-server-url'' \<in> F \<and> ''kvcache-store-path'' \<in> F
     then Some (override F c (default_config (llama_server_url c) (kvcache_store_path c)))
     else None)"
proof -
  note word = read_word_decimal [OF assms(1)]
  note field = arguments_members [THEN option_value_argument [OF assms(1)]]
  have path: "read_path p (kvcache_store_path c) = Some (kvcache_store_path c)"
    using assms(1,2) by (simp add: documented_def)
  note hosts = hosts_argument [OF assms(1,3)]
  have choose: "(if b then Some x else Some y) = Some (if b then x else y)" for b and x y :: 'z
    by simp
  show ?thesis
    unfolding parse_config_def hosts field word path read_source_name choose
    by (cases "''llama-server-url'' \<in> F"; cases "''kvcache-store-path'' \<in> F")
      (simp_all add: override_def default_config_def split del: if_split cong: if_cong)
qed

text \<open>The command line of a broker on another port, for two more hosts.\<close>

definition demo_config :: broker_config where
  "demo_config = (default_config ''http://x'' ''/kv'')
     \<lparr>port := 9999, queue_timeout_secs := 5, allowed_hosts := [''my-box.lan'', ''10.0.0.5'']\<rparr>"

lemma options_resolve_witness:
  "parse_config (plain_reader (arguments_of demo_config)) = Some demo_config"
proof -
  have all: "filter (\<lambda>a. fst a \<in> UNIV) (arguments_of demo_config) = arguments_of demo_config"
    by simp
  have "parse_config (plain_reader (arguments_of demo_config)) =
      Some (override UNIV demo_config (default_config (llama_server_url demo_config)
        (kvcache_store_path demo_config)))"
    by (subst options_resolve [where F = UNIV and c = demo_config])
      (simp_all add: plain_reader_documented, simp_all add: demo_config_def default_config_def)
  then show ?thesis by (simp add: override_def)
qed

end
