(* ===== verification/Broker_Main.thy ===== *)
theory Broker_Main
  imports Server Sched_Liveness Config
begin

text \<open>
  Start-up and a round of the background reconciliation
  (src/src/main.rs): the broker starts in a state from which the properties of Sched_System
  hold, and slots that were in use at a restart come back once llama-server reports them idle.
\<close>

section \<open>Start-up\<close>

text \<open>
  \<^verbatim>\<open>AppState\<close>, less the HTTP client and the KV store, which are not code of the repository.
  The states of the scheduler, the lock and the cache stand for the handles to them.
\<close>

record app_state =
  scheduler :: inner
  app_llama_server_url :: string
  queue_timeout :: duration
  gpu_lock :: lock_inner
  gpu_lock_max_hold :: duration
  gpu_lock_queue_timeout :: duration
  gpu_probe :: vram_source
  app_vram_cache :: vram_cache
  app_max_request_body_bytes :: u64
  client_send_timeout :: duration
  app_allowed_hosts :: "string list"

definition client_send_timeout_default :: duration where
  "client_send_timeout_default = from_secs 30"

definition app_of_config :: "broker_config \<Rightarrow> inner \<Rightarrow> app_state" where
  "app_of_config c st =
     \<lparr>scheduler = st,
      app_llama_server_url = llama_server_url c,
      queue_timeout = from_secs (unat (queue_timeout_secs c)),
      gpu_lock = new_lock,
      gpu_lock_max_hold = from_secs (unat (gpu_lock_max_hold_secs c)),
      gpu_lock_queue_timeout = from_secs (unat (gpu_lock_queue_timeout_secs c)),
      gpu_probe = config_vram_source c,
      app_vram_cache = empty_cache,
      app_max_request_body_bytes = max_request_body_bytes c,
      client_send_timeout = client_send_timeout_default,
      app_allowed_hosts = allowed_hosts c\<rparr>"

text \<open>
  The scheduler \<^verbatim>\<open>main\<close> starts with, from llama-server's slot list; it does not start without
  one.
\<close>

definition start_scheduler :: "json reply \<Rightarrow> llama_error + inner" where
  "start_scheduler r =
     (case fetch_slots r of
        Inl e \<Rightarrow> Inl e
      | Inr ss \<Rightarrow>
          Inr (fold (\<lambda>s st. if is_processing s then seed_busy (llama_slot_id s) st else st) ss
                 (new_scheduler (of_nat (length ss)))))"

lemma fold_filtered: "fold (\<lambda>x s. if P x then f (g x) s else s) xs s0 = fold f (map g (filter P xs)) s0"
  by (induction xs arbitrary: s0) simp_all

text \<open>
  Start-up establishes the invariants. If llama-server lists its slots, the broker starts in
  a state of the system of all interleavings: as many slots as were listed, those in use
  occupied, nobody waiting; everything proved of reachable states holds from there on. If it
  does not, there is no scheduler at all.
\<close>

lemma start_is_reachable:
  "case start_scheduler r of
     Inr st \<Rightarrow>
       (\<exists>ss. fetch_slots r = Inr ss \<and>
          sched_reach (of_nat (length ss)) (map llama_slot_id (filter is_processing ss)) (start_world st) \<and>
          length (slots st) = length ss mod 2 ^ 32 \<and> global_waiters st = [] \<and> slot_waiters st = Map.empty)
   | Inl e \<Rightarrow> fetch_slots r = Inl e"
proof (cases "fetch_slots r")
  case (Inr ss)
  let ?ks = "map llama_slot_id (filter is_processing ss)"
  have st: "start_scheduler r = Inr (seeded_scheduler (of_nat (length ss)) ?ks)"
    by (simp add: start_scheduler_def Inr seeded_scheduler_def fold_filtered)
  have "sched_reach (of_nat (length ss)) ?ks (broker_start (of_nat (length ss)) ?ks)"
    by (simp add: sched_reach_def reach_start)
  moreover have "length (slots (seeded_scheduler (of_nat (length ss)) ?ks)) = length ss mod 2 ^ 32"
    by (simp add: seeded_length unat_of_nat)
  ultimately show ?thesis
    using Inr by (simp add: st broker_start_def seeded_queues)
qed (simp add: start_scheduler_def)

text \<open>
  \<^verbatim>\<open>main\<close> up to serving: the arguments are read, the HTTP client is built, the slots are
  fetched, the store is opened, the socket is bound, and the first failure ends the program.
  What the libraries and the network answer is in \<open>surroundings\<close>.
\<close>

datatype 'e start_error =
    Usage
  | No_Client 'e
  | No_Slots llama_error
  | No_Store 'e
  | No_Listener 'e

record 'e surroundings =
  arguments :: reader
  client_failure :: "'e option"
  network :: "string \<Rightarrow> string \<Rightarrow> json reply"
  store_failure :: "string \<Rightarrow> string \<Rightarrow> u64 \<Rightarrow> 'e option"
  bind_failure :: "string \<Rightarrow> 'e option"

definition listen_address :: "broker_config \<Rightarrow> string" where
  "listen_address c = ''127.0.0.1:'' @ decimal (unat (port c))"

definition slots_reply :: "'e surroundings \<Rightarrow> broker_config \<Rightarrow> json reply" where
  "slots_reply x config = network x ''GET'' (slots_url (llama_server_url config))"

definition main_start :: "'e surroundings \<Rightarrow> 'e start_error + app_state \<times> string" where
  "main_start x =
     (case parse_config (arguments x) of
        None \<Rightarrow> Inl Usage
      | Some config \<Rightarrow>
          (case client_failure x of
             Some e \<Rightarrow> Inl (No_Client e)
           | None \<Rightarrow>
               (case start_scheduler (slots_reply x config) of
                  Inl e \<Rightarrow> Inl (No_Slots e)
                | Inr st \<Rightarrow>
                    (case store_failure x (kvcache_store_path config) (llama_server_url config)
                            (kvcache_max_bytes config) of
                       Some e \<Rightarrow> Inl (No_Store e)
                     | None \<Rightarrow>
                         (case bind_failure x (listen_address config) of
                            Some e \<Rightarrow> Inl (No_Listener e)
                          | None \<Rightarrow> Inr (app_of_config config st, listen_address config))))))"

lemma own_address_allowed: "host_is_allowed (listen_address c) extra"
proof -
  let ?port = "decimal (unat (port c))"
  have "list_all is_ascii_digit ?port" by (simp add: list_all_iff is_ascii_digit_def decimal_digits)
  then have rest: "'':'' @ ?port = [] \<or>
      (\<exists>p. '':'' @ ?port = '':'' @ p \<and> p \<noteq> [] \<and> list_all is_ascii_digit p)"
    by simp
  have quad: "''127.0.0.1'' = dotted 127 0 0 1"
    by (simp add: dotted_def decimal.simps char_of_def bit_0 bit_Suc)
  have "host_is_allowed (''127.0.0.1'' @ '':'' @ ?port) extra"
  proof (subst allowed_name [OF _ _ rest])
    have "\<exists>b c d. b \<le> 255 \<and> c \<le> 255 \<and> d \<le> 255 \<and> ''127.0.0.1'' = dotted 127 b c d"
      using quad by (intro exI [of _ 0] exI [of _ 1]) simp
    then show "eq_ignore_ascii_case ''127.0.0.1'' ''localhost'' \<or>
        (\<exists>b c d. b \<le> 255 \<and> c \<le> 255 \<and> d \<le> 255 \<and> ''127.0.0.1'' = dotted 127 b c d) \<or>
        (\<exists>e\<in>set extra. eq_ignore_ascii_case e ''127.0.0.1'')"
      by blast
  qed simp_all
  then show ?thesis by (simp add: listen_address_def)
qed

text \<open>
  C26: Start-up is all or nothing, and leaves a broker that works. It serves exactly when the
  arguments are readable, the HTTP client can be built,
  llama-server lists its slots, the store opens and the socket is bound, tried in this
  order; each failure is reported as what it was. The broker that serves is in an initial
  state of the system of all interleavings for the slots listed, its lock free, its cache
  empty, its time limits those of the configuration, and it does not refuse the address it
  listens on, whatever hosts are configured.
\<close>

theorem start_up:
  "case parse_config (arguments x) of
     None \<Rightarrow> main_start x = Inl Usage
   | Some c \<Rightarrow>
       (case main_start x of
          Inl Usage \<Rightarrow> False
        | Inl (No_Client e) \<Rightarrow> client_failure x = Some e
        | Inl (No_Slots e) \<Rightarrow> client_failure x = None \<and> fetch_slots (slots_reply x c) = Inl e
        | Inl (No_Store e) \<Rightarrow>
            client_failure x = None \<and> (\<exists>ss. fetch_slots (slots_reply x c) = Inr ss) \<and>
            store_failure x (kvcache_store_path c) (llama_server_url c) (kvcache_max_bytes c) = Some e
        | Inl (No_Listener e) \<Rightarrow>
            client_failure x = None \<and> (\<exists>ss. fetch_slots (slots_reply x c) = Inr ss) \<and>
            store_failure x (kvcache_store_path c) (llama_server_url c) (kvcache_max_bytes c) = None \<and>
            bind_failure x (listen_address c) = Some e
        | Inr (app, addr) \<Rightarrow>
            client_failure x = None \<and>
            (\<exists>ss. fetch_slots (slots_reply x c) = Inr ss \<and>
               length (slots (scheduler app)) = length ss mod 2 ^ 32 \<and>
               sched_reach (of_nat (length ss)) (map llama_slot_id (filter is_processing ss))
                 (start_world (scheduler app))) \<and>
            store_failure x (kvcache_store_path c) (llama_server_url c) (kvcache_max_bytes c) = None \<and>
            bind_failure x addr = None \<and> host_is_allowed addr (app_allowed_hosts app) \<and>
            \<not> is_held (gpu_lock app) \<and> app_vram_cache app = empty_cache \<and>
            queue_timeout app = from_secs (unat (queue_timeout_secs c)) \<and>
            gpu_lock_queue_timeout app = from_secs (unat (gpu_lock_queue_timeout_secs c)) \<and>
            gpu_lock_max_hold app = from_secs (unat (gpu_lock_max_hold_secs c)) \<and>
            app_max_request_body_bytes app = max_request_body_bytes c)"
proof (cases "parse_config (arguments x)")
  case (Some c)
  with start_is_reachable [of "slots_reply x c"] show ?thesis
    by (auto simp: main_start_def app_of_config_def own_address_allowed new_lock_def is_held_def
        split: sum.splits option.splits)
qed (simp add: main_start_def)

section \<open>Reconciliation\<close>

text \<open>
  One round of \<^verbatim>\<open>reconcile_seeded_slots\<close>: a call for each slot reported idle, in order, each
  under a lock of its own; nothing if llama-server cannot be read.
\<close>

definition idle_ids :: "json reply \<Rightarrow> u32 list" where
  "idle_ids r =
     (case fetch_slots r of
        Inl _ \<Rightarrow> []
      | Inr ss \<Rightarrow> map llama_slot_id (filter (\<lambda>s. \<not> is_processing s) ss))"

definition reconcile_round :: "json reply \<Rightarrow> sched_event list" where
  "reconcile_round r = map (\<lambda>k. Operate (Reconcile k)) (idle_ids r)"

definition reported_idle :: "json reply \<Rightarrow> nat \<Rightarrow> bool" where
  "reported_idle r k =
     (case fetch_slots r of
        Inl _ \<Rightarrow> False
      | Inr ss \<Rightarrow> list_ex (\<lambda>s. \<not> is_processing s \<and> unat (llama_slot_id s) = k) ss)"

lemma reconcile_run:
  "\<exists>w'. run_events sched_admit (map (\<lambda>k. Operate (Reconcile k)) ks) w = Some w' \<and>
     tasks w' = tasks w \<and> pool (shared w') = fold pool_idle ks (pool (shared w))"
proof (induction ks arbitrary: w)
  case (Cons k ks)
  let ?w = "perform sched_admit (Reconcile k) w"
  have "pool (shared ?w) = pool_idle k (pool (shared w))" by (simp add: pool_reconcile)
  with Cons [of ?w] show ?case by simp
qed simp

lemma nth_pool_idle: "i < length ps \<Longrightarrow>
    pool_idle k ps ! i = (if i = unat k \<and> ps ! i = Seeded then Free else ps ! i)"
  by (auto simp: pool_idle_def pool_set_def)

lemma length_pool_idle [simp]: "length (pool_idle k ps) = length ps"
  by (simp add: pool_idle_def pool_set_def)

lemma nth_pool_idles: "i < length ps \<Longrightarrow>
    fold pool_idle ks ps ! i =
      (if ps ! i = Seeded \<and> (\<exists>k\<in>set ks. unat k = i) then Free else ps ! i)"
proof (induction ks arbitrary: ps)
  case (Cons k ks)
  then have "fold pool_idle (k # ks) ps ! i =
      (if pool_idle k ps ! i = Seeded \<and> (\<exists>k\<in>set ks. unat k = i) then Free else pool_idle k ps ! i)"
    by simp
  with Cons.prems show ?case by (auto simp: nth_pool_idle)
qed simp

lemma reconcile_allowed: "allowed_run sched_admit broker_event (map (\<lambda>k. Operate (Reconcile k)) ks) w"
  by (induction ks arbitrary: w) simp_all

text \<open>
  Restart recovery. A round of the reconciliation, run in any reachable state, frees exactly
  the slots that have been occupied since before the start and that llama-server now reports
  idle, whatever it reports of the others and whoever holds them; no request is affected, and
  the result is again a reachable state. If llama-server cannot be read nothing changes.
\<close>

lemma reconcile_round_frees_seeded:
  assumes "sched_reach n ks w"
  shows "\<exists>w'. run_events sched_admit (reconcile_round r) w = Some w' \<and> sched_reach n ks w' \<and>
    tasks w' = tasks w \<and>
    pool (shared w') =
      map (\<lambda>k. if pool (shared w) ! k = Seeded \<and> reported_idle r k then Free else pool (shared w) ! k)
        [0..<unat n]"
proof -
  define ids where "ids = idle_ids r"
  have round: "reconcile_round r = map (\<lambda>k. Operate (Reconcile k)) ids"
    by (simp add: reconcile_round_def ids_def)
  have idle: "reported_idle r k \<longleftrightarrow> (\<exists>i\<in>set ids. unat i = k)" for k
    by (auto simp: reported_idle_def ids_def idle_ids_def list_ex_iff split: sum.splits)
  obtain w' where run: "run_events sched_admit (reconcile_round r) w = Some w'"
    and same: "tasks w' = tasks w" and p: "pool (shared w') = fold pool_idle ids (pool (shared w))"
    using reconcile_run [of ids w] unfolding round by blast
  have reach': "sched_reach n ks w'"
    using assms run reconcile_allowed unfolding sched_reach_def round by (blast intro: reach_run)
  have "length (pool (shared w)) = unat n" "length (pool (shared w')) = unat n"
    using sched_reach_owns [OF assms] sched_reach_owns [OF reach'] by (simp_all add: owns_ok_def)
  then have "pool (shared w') =
      map (\<lambda>k. if pool (shared w) ! k = Seeded \<and> reported_idle r k then Free else pool (shared w) ! k)
        [0..<unat n]"
    by (intro nth_equalityI) (simp_all add: p nth_pool_idles idle)
  with run reach' same show ?thesis by blast
qed

lemma reconcile_round_frees_seeded_witness:
  "\<exists>w'. run_events sched_admit (reconcile_round (Reply 200 (Some demo_slots))) (broker_start 2 [1]) =
     Some w' \<and> pool (shared w') = [Free, Free]"
proof -
  have r: "sched_reach 2 [1] (broker_start 2 [1])" by (simp add: sched_reach_def reach_start)
  have p: "pool (shared (broker_start 2 [1])) = [Free, Seeded]"
    by (simp add: pool_def status_of_def eval_simps)
  have i: "reported_idle (Reply 200 (Some demo_slots)) 1"
    by (simp add: reported_idle_def demo_slots_def eval_simps)
  have "[0..<unat (2 :: u32)] = [0, 1]" by (simp add: upt_rec)
  with reconcile_round_frees_seeded [OF r, of "Reply 200 (Some demo_slots)"] p i show ?thesis
    by auto
qed

end
