(* ===== verification/Restart.thy ===== *)
theory Restart
  imports Broker_Main Chat_Service
begin

text \<open>
  Restart recovery in the running service: what becomes of the slots that llama-server was
  using when the broker started (\<open>seed_busy\<close> in \<^verbatim>\<open>main\<close>, \<open>reconcile_seeded_idle\<close> in the
  background task), among all the requests of Chat_Service.
\<close>

section \<open>Which steps concern a seeded slot\<close>

definition seeded_at :: "u32 \<Rightarrow> sched_world \<Rightarrow> bool" where
  "seeded_at k w \<longleftrightarrow> pool (shared w) ! unat k = Seeded"

lemma pool_set_seeded:
  assumes "unat k < length ps" and "ps ! unat j \<noteq> Seeded" and "v \<noteq> Seeded"
  shows "pool_set j v ps ! unat k = Seeded \<longleftrightarrow> ps ! unat k = Seeded"
  using assms by (cases "unat j = unat k") (auto simp: pool_set_def)

lemma seeded_at_claim:
  assumes "well_sized (shared w)" and "unat k < length (slots (shared w))"
  shows "seeded_at k (try_once sched_admit x i hint d w) = seeded_at k w"
proof (cases rule: try_once_cases [of hint w x i d])
  case (claimed a st')
  from pool_admit [OF assms(1) claimed(1)] have
    "pool (shared w) ! unat (slot_id a) = Free" "pool st' = pool_set (slot_id a) Owned (pool (shared w))"
    by (simp_all add: pool_take_def split: if_splits)
  with claimed(2) assms(2) show ?thesis by (simp add: seeded_at_def pool_set_seeded)
qed (simp add: seeded_at_def pool_enqueue)

lemma seeded_at_idle:
  assumes "unat k < length (slots (shared w))"
  shows "pool_idle k' (pool (shared w)) ! unat k = Seeded \<longleftrightarrow> seeded_at k w \<and> k' \<noteq> k"
  using assms by (auto simp: seeded_at_def nth_pool_idle word_unat_eq_iff)

lemma seeded_at_event:
  assumes ok: "owns_ok n w" and k: "unat k < unat n" and ev: "broker_event w e"
    and step: "exec_event sched_admit e w = Some w'"
  shows "seeded_at k w' \<longleftrightarrow> seeded_at k w \<and> e \<noteq> Operate (Reconcile k)"
proof -
  from ok k have len: "unat k < length (slots (shared w))" by (simp add: owns_ok_def)
  have sized: "well_sized (shared w)"
    using ok unsigned_less [of n] by (simp add: owns_ok_def well_sized_def)
  from step show ?thesis
  proof (cases rule: exec_event_cases)
    case (aside i t)
    then show ?thesis by (auto simp: seeded_at_def)
  next
    case (tried i x hint d)
    with seeded_at_claim [of "settled i w" k x i hint d] sized len show ?thesis
      by (auto simp: seeded_at_def)
  next
    case (finished i a)
    with ok have "pool (shared w) ! unat (slot_id a) = Owned"
      by (auto simp: owns_ok_def owned_by_def)
    with finished len show ?thesis
      by (simp add: seeded_at_def operate_pool pool_set_seeded del: sched_operate.simps)
  next
    case (other f)
    with ev len seeded_at_idle [OF len] show ?thesis
      by (cases f) (auto simp: seeded_at_def operate_pool simp del: sched_operate.simps)
  next
    case (tick d)
    then show ?thesis by (auto simp: seeded_at_def)
  qed
qed

lemma seeded_at_call: "seeded_at k (perform_call act w) = seeded_at k w"
  by (cases act) (simp_all add: perform_call_def seeded_at_def pool_mark pool_clear)

lemma seeded_at_service:
  assumes ok: "owns_ok n (net s)" and k: "unat k < unat n"
    and step: "exec_service timeout e s = Some s'"
  shows "seeded_at k (net s') \<longleftrightarrow> seeded_at k (net s) \<and> e \<noteq> Reconcile_Slot k"
proof -
  note seeded = seeded_at_event [OF ok k]
  from step show ?thesis
  proof (cases rule: exec_service_cases)
    case (call i c j act acts)
    then show ?thesis by (simp add: seeded_at_call)
  next
    case (reconciled k' w)
    with seeded [OF _ reconciled(2)] show ?thesis by auto
  qed (use seeded in \<open>force simp del: exec_event.simps\<close>)+
qed

section \<open>Recovery\<close>

lemma seeded_at_run:
  assumes "serviced timeout n ks s" and "run_service timeout es s = Some s'" and "unat k < unat n"
  shows "seeded_at k (net s') \<longleftrightarrow> seeded_at k (net s) \<and> Reconcile_Slot k \<notin> set es"
  using assms(1,2)
proof (induction es arbitrary: s)
  case (Cons e es)
  from Cons.prems(2) obtain s1 where s1: "exec_service timeout e s = Some s1"
    "run_service timeout es s1 = Some s'"
    by (auto split: option.splits simp del: exec_service.simps)
  from sched_reach_owns [OF service_refines_scheduler_reach [OF Cons.prems(1)]]
  have "seeded_at k (net s1) \<longleftrightarrow> seeded_at k (net s) \<and> e \<noteq> Reconcile_Slot k"
    using assms(3) s1(1) by (rule seeded_at_service)
  with Cons.IH [OF serviced_step [OF Cons.prems(1) s1(1)] s1(2)] show ?case by auto
qed simp

lemma seeded_fold:
  assumes "unat k < length (slots st)"
  shows "pool (fold seed_busy ks st) ! unat k = Seeded \<longleftrightarrow> k \<in> set ks \<or> pool st ! unat k = Seeded"
  using assms
proof (induction ks arbitrary: st)
  case (Cons k' ks)
  have "pool (seed_busy k' st) ! unat k = Seeded \<longleftrightarrow> k' = k \<or> pool st ! unat k = Seeded"
    using Cons.prems
    by (auto simp: seed_busy_def pool_update_slot pool_set_def status_of_def nth_list_update word_unat_eq_iff)
  with Cons.IH [of "seed_busy k' st"] Cons.prems show ?case
    by (auto simp: seed_busy_def frame_simps)
qed simp

lemma seeded_at_start:
  assumes "unat k < unat n"
  shows "seeded_at k (net (service_start n ks)) \<longleftrightarrow> k \<in> set ks"
proof -
  have "pool (new_scheduler n) ! unat k = Free"
    using assms by (simp add: pool_def new_scheduler_def default_slot_def status_of_def)
  with seeded_fold [of k "new_scheduler n" ks] assms show ?thesis
    by (simp add: seeded_at_def service_start_def broker_start_def start_world_def
        seeded_scheduler_def new_scheduler_def)
qed

text \<open>
  C11: Restart recovery, exactly. Over every run of the service from its start, a slot that
  llama-server was using at the start is kept out of the reach of every request until the
  reconciliation reports that slot idle, and from that report on it takes part like any other
  for good; no slot ever becomes seeded later. The report can be made at any time, and changes
  no request.
\<close>

theorem recovered_when_reported:
  assumes "run_service timeout es (service_start n ks) = Some s" and "unat k < unat n"
  shows "(pool (shared (net s)) ! unat k = Seeded \<longleftrightarrow> k \<in> set ks \<and> Reconcile_Slot k \<notin> set es) \<and>
    (\<exists>s'. exec_service timeout (Reconcile_Slot k) s = Some s' \<and> jobs s' = jobs s \<and>
       tasks (net s') = tasks (net s) \<and> pool (shared (net s')) ! unat k \<noteq> Seeded)"
proof
  have "seeded_at k (net s) \<longleftrightarrow> k \<in> set ks \<and> Reconcile_Slot k \<notin> set es"
    using seeded_at_run [OF serviced_start assms] by (simp add: seeded_at_start [OF assms(2)])
  then show "pool (shared (net s)) ! unat k = Seeded \<longleftrightarrow> k \<in> set ks \<and> Reconcile_Slot k \<notin> set es"
    by (simp add: seeded_at_def)
  from serviced_run [OF assms(1) serviced_start] have reached: "serviced timeout n ks s" .
  obtain s' where s': "exec_service timeout (Reconcile_Slot k) s = Some s'"
    and same: "jobs s' = jobs s" "tasks (net s') = tasks (net s)"
    by (simp add: on_net_def)
  have "\<not> seeded_at k (net s')"
    using seeded_at_run [OF reached, of "[Reconcile_Slot k]" s' k] s' assms(2)
    by (simp del: exec_service.simps)
  with s' same show "\<exists>s'. exec_service timeout (Reconcile_Slot k) s = Some s' \<and> jobs s' = jobs s \<and>
       tasks (net s') = tasks (net s) \<and> pool (shared (net s')) ! unat k \<noteq> Seeded"
    by (auto simp: seeded_at_def)
qed

lemma recovered_when_reported_witness:
  "\<exists>s :: nat service. run_service 5 [Pass 10, Reconcile_Slot 1] (service_start 2 [1]) = Some s \<and>
     pool (shared (net s)) ! 1 \<noteq> Seeded"
proof -
  obtain s :: "nat service"
    where s: "run_service 5 [Pass 10, Reconcile_Slot 1] (service_start 2 [1]) = Some s"
    by (simp add: on_net_def)
  from recovered_when_reported [OF s, of 1] s show ?thesis by auto
qed

end
