(* ===== verification/Api.thy ===== *)
theory Api
  imports Broker_Main
begin

text \<open>
  A request through the whole of the router (src/src/server.rs): the host guard, the route, the
  reading of the body and the handler, on the state of the service. A chat request and an
  acquire go on waiting after this step; Chat_Service and Gpu_Lock_System take them from there.
  Every answer is shown to have the JSON type declared for its endpoint and status.
\<close>

section \<open>Requests\<close>

text \<open>
  \<open>payload\<close> is the body with the headers that say how to read it; \<open>content_length\<close> its size.
\<close>

record 'q http_request =
  req_method :: string
  req_path :: string
  req_host :: "string option"
  content_length :: nat
  payload :: 'q

text \<open>
  The two extractors of the web framework: \<^verbatim>\<open>Json<Value>\<close> under a limit on the size of the
  body, and \<^verbatim>\<open>Json<ReleaseRequest>\<close>. \<open>Inl\<close> is the response a body it rejects is answered with.
\<close>

record 'q extractors =
  json_value :: "nat \<Rightarrow> 'q http_request \<Rightarrow> response + json"
  json_release :: "'q http_request \<Rightarrow> response + string"

text \<open>What a request is met with from outside the broker: the libraries, llama-server, the probe.\<close>

record 'q outside =
  extractor :: "'q extractors"
  models_answer :: "json reply"
  probe_outcome :: "vram_cache \<Rightarrow> vram option \<times> vram_cache"
  read_uuid :: "string \<Rightarrow> lease_id option"
  receiver_open :: "chan \<Rightarrow> bool"

text \<open>
  \<open>VramCache::get\<close> when nobody else uses the cache meanwhile: probing started at \<open>t\<close> and was
  joined or given up at \<open>t'\<close>. A thread that was joined has lowered the flag.
\<close>

definition cache_get ::
  "instant \<Rightarrow> instant \<Rightarrow> join_result \<Rightarrow> vram_cache \<Rightarrow> vram option \<times> vram_cache" where
  "cache_get t t' joined c =
     (case get_begin t c of
        (Served v, c') \<Rightarrow> (v, c')
      | (Probing, c') \<Rightarrow>
          get_end t t' joined (if joined = Timed_Out then c' else drop_in_flight c'))"

section \<open>Dispatching\<close>

text \<open>
  What a request has after the first step: its answer, or the wait for a slot, with the body of
  the chat request, or for the lock.
\<close>

datatype dispatched =
    Answered response
  | Awaits_Slot json
  | Awaits_Lock

text \<open>
  The service's state and the senders signalled so far. A route the router does not know and a
  method a route does not take are answered by the framework, without a body.
\<close>

type_synonym served = "app_state \<times> chan list"

fun dispatch :: "'q outside \<Rightarrow> 'q http_request \<Rightarrow> endpoint \<Rightarrow> served \<Rightarrow> dispatched \<times> served" where
  "dispatch x req Chat_Completions (s, sent) =
     (case json_value (extractor x) (unat (app_max_request_body_bytes s)) req of
        Inl r \<Rightarrow> (Answered r, s, sent)
      | Inr body \<Rightarrow> (Awaits_Slot body, s, sent))"
| "dispatch x req Status (s, sent) =
     (Answered (status_handler (app_llama_server_url s)), s, sent)"
| "dispatch x req Slots (s, sent) = (Answered (slots_handler (scheduler s)), s, sent)"
| "dispatch x req Residency (s, sent) =
     (let (v, c) = probe_outcome x (app_vram_cache s)
      in (Answered (residency_handler (models_answer x) v (scheduler s)),
          s\<lparr>app_vram_cache := c\<rparr>, sent))"
| "dispatch x req Gpu_Acquire (s, sent) = (Awaits_Lock, s, sent)"
| "dispatch x req Gpu_Release (s, sent) =
     (case json_release (extractor x) req of
        Inl r \<Rightarrow> (Answered r, s, sent)
      | Inr text \<Rightarrow>
          (let (r, l, wk) =
                 gpu_lock_release_handler (read_uuid x) (receiver_open x) text (gpu_lock s)
           in (Answered r, s\<lparr>gpu_lock := l\<rparr>, sent @ wk)))"
| "dispatch x req Not_Found (s, sent) =
     (Answered \<lparr>resp_status = 404, resp_body = Null\<rparr>, s, sent)"
| "dispatch x req Method_Not_Allowed (s, sent) =
     (Answered \<lparr>resp_status = 405, resp_body = Null\<rparr>, s, sent)"

definition serve :: "'q outside \<Rightarrow> 'q http_request \<Rightarrow> served \<Rightarrow> dispatched \<times> served" where
  "serve x req w =
     build_router Answered (app_allowed_hosts (fst w)) (dispatch x req)
       (req_method req) (req_path req) (req_host req) w"

lemmas api_defs [eval_simps] = cache_get_def serve_def

definition passes_guard :: "'q http_request \<Rightarrow> app_state \<Rightarrow> bool" where
  "passes_guard req s \<longleftrightarrow>
     (case req_host req of None \<Rightarrow> False | Some h \<Rightarrow> host_is_allowed h (app_allowed_hosts s))"

lemma serve_cases [case_names refused served]:
  obtains "\<not> passes_guard req (fst w)" and "serve x req w = (Answered misdirected, w)"
  | "passes_guard req (fst w)"
    and "serve x req w = dispatch x req (route (req_method req) (req_path req)) w"
  using that
  by (cases "passes_guard req (fst w)")
    (auto simp: serve_def guard_covers_every_route passes_guard_def misdirected_def)

section \<open>What a request can change at once\<close>

lemma route_release: "route m p = Gpu_Release \<Longrightarrow> m = ''POST'' \<and> p = ''/gpu-lock/release''"
  by (auto simp: route_def get_route_def post_route_def split: if_splits)

lemma route_residency:
  "route m p = Residency \<Longrightarrow> m \<in> {''GET'', ''HEAD''} \<and> p = ''/v1/aivyx/residency''"
  by (auto simp: route_def get_route_def post_route_def split: if_splits)

lemma release_handler_cases:
  assumes "gpu_lock_release_handler parse live text l = (r, l', wk)"
  shows "l' = l \<and> wk = [] \<and> resp_status r \<in> {400, 404} \<or>
    (\<exists>h. held_by l = Some h \<and> parse text = Some (lease h) \<and> resp_status r = 200 \<and>
       l' = \<lparr>held_by = None, lock_waiters = []\<rparr> \<and> wk = filter live (lock_waiters l))"
  using assms
  by (auto simp: gpu_lock_release_handler_def release_lease_def wake_all_def
      split: option.splits if_splits)

text \<open>
  C24: What one request can change before it waits. No request, whatever its method, path, host
  and body, touches the slots or the configuration of the service in its first step; the lock
  changes only by \<^verbatim>\<open>POST /gpu-lock/release\<close> from an allowed host, with an id that reads as the
  lease now holding it, answered 200, and is then free with its live waiters signalled in
  order; the probe's cache changes only by a \<^verbatim>\<open>GET\<close> or \<^verbatim>\<open>HEAD\<close> of the residency.
\<close>

theorem requests_change_only:
  assumes "serve x req (s, sent) = (r, s', sent')"
  shows "s' = s\<lparr>gpu_lock := gpu_lock s', app_vram_cache := app_vram_cache s'\<rparr> \<and>
    (gpu_lock s' = gpu_lock s \<and> sent' = sent \<or>
     passes_guard req s \<and> req_method req = ''POST'' \<and> req_path req = ''/gpu-lock/release'' \<and>
     (\<exists>text h a. json_release (extractor x) req = Inr text \<and> held_by (gpu_lock s) = Some h \<and>
        read_uuid x text = Some (lease h) \<and> r = Answered a \<and> resp_status a = 200 \<and>
        held_by (gpu_lock s') = None \<and> lock_waiters (gpu_lock s') = [] \<and>
        sent' = sent @ filter (receiver_open x) (lock_waiters (gpu_lock s)))) \<and>
    (app_vram_cache s' = app_vram_cache s \<or>
     passes_guard req s \<and> req_method req \<in> {''GET'', ''HEAD''} \<and>
     req_path req = ''/v1/aivyx/residency'')"
proof (cases rule: serve_cases [of req "(s, sent)" x])
  case refused
  with assms show ?thesis by auto
next
  case served
  with assms have d: "dispatch x req (route (req_method req) (req_path req)) (s, sent) = (r, s', sent')"
    by simp
  show ?thesis
  proof (cases "route (req_method req) (req_path req)")
    case Residency
    with d route_residency [OF Residency] served(1) show ?thesis
      by (auto simp: Let_def split: prod.splits)
  next
    case Gpu_Release
    show ?thesis
    proof (cases "json_release (extractor x) req")
      case (Inr t)
      obtain a l wk where
        h: "gpu_lock_release_handler (read_uuid x) (receiver_open x) t (gpu_lock s) = (a, l, wk)"
        by (metis prod_cases3)
      with d Gpu_Release Inr have
        "r = Answered a" "s' = s\<lparr>gpu_lock := l\<rparr>" "sent' = sent @ wk"
        by simp_all
      with release_handler_cases [OF h] route_release [OF Gpu_Release] served(1) Inr
      show ?thesis by auto
    qed (use d Gpu_Release in auto)
  qed (use d in \<open>auto split: sum.splits prod.splits\<close>)
qed

section \<open>The types of the answers\<close>

datatype json_type =
    Empty_Body
  | Boolean
  | Integer nat
  | Text
  | Nullable json_type
  | List_Of json_type
  | Fields "(string \<times> json_type) list"

text \<open>
  \<open>Integer n\<close>: a number without a sign that fits in \<open>n\<close> bits. \<open>Fields\<close>: an object with exactly
  these fields.
\<close>

fun has_type :: "json_type \<Rightarrow> json \<Rightarrow> bool"
  and have_types :: "(string \<times> json_type) list \<Rightarrow> (string \<times> json) list \<Rightarrow> bool" where
  "has_type Empty_Body j \<longleftrightarrow> j = Null"
| "has_type Boolean j \<longleftrightarrow> as_bool j \<noteq> None"
| "has_type (Integer n) j \<longleftrightarrow> (case as_u64 j of None \<Rightarrow> False | Some w \<Rightarrow> unat w < 2 ^ n)"
| "has_type Text j \<longleftrightarrow> as_str j \<noteq> None"
| "has_type (Nullable t) j \<longleftrightarrow> j = Null \<or> has_type t j"
| "has_type (List_Of t) j \<longleftrightarrow>
     (case as_array j of None \<Rightarrow> False | Some xs \<Rightarrow> list_all (has_type t) xs)"
| "has_type (Fields fs) j \<longleftrightarrow> (case j of Obj es \<Rightarrow> have_types fs es | _ \<Rightarrow> False)"
| "have_types [] es \<longleftrightarrow> es = []"
| "have_types ((k, t) # fs) es \<longleftrightarrow>
     (case es of [] \<Rightarrow> False | (k', v) # es' \<Rightarrow> k' = k \<and> has_type t v \<and> have_types fs es')"

text \<open>A field of the type can be read, and what is read has the field's type.\<close>

lemma have_types_get:
  "have_types fs es \<Longrightarrow> map_of fs k = Some t \<Longrightarrow> \<exists>v. map_of es k = Some v \<and> has_type t v"
  by (induction fs arbitrary: es) (auto split: list.splits prod.splits if_splits)

lemma typed_field:
  "has_type (Fields fs) j \<Longrightarrow> map_of fs k = Some t \<Longrightarrow> \<exists>v. json_get k j = Some v \<and> has_type t v"
  by (auto split: json.splits dest: have_types_get)

text \<open>The interface: the type of the body for each endpoint and status.\<close>

definition error_type :: json_type where
  "error_type = Fields [(''error'', Text)]"

definition slot_type :: json_type where
  "slot_type =
     Fields [(''slot_id'', Integer 32), (''busy'', Boolean), (''resident_prefix'', Nullable Text),
             (''resident_model'', Nullable Text)]"

definition residency_type :: json_type where
  "residency_type =
     Fields [(''models'', List_Of (Fields [(''id'', Text), (''loaded'', Boolean)])),
             (''vram'', Nullable (Fields [(''total_bytes'', Integer 64), (''used_bytes'', Integer 64)])),
             (''slots'', Fields [(''busy'', Integer 32), (''total'', Integer 32)])]"

fun answer_type :: "endpoint \<Rightarrow> nat \<Rightarrow> json_type option" where
  "answer_type Chat_Completions n = (if n \<in> {502, 503} then Some error_type else None)"
| "answer_type Status n =
     (if n = 200 then Some (Fields [(''llama_server_url'', Text), (''queue_depth'', Integer 32)])
      else None)"
| "answer_type Slots n = (if n = 200 then Some (List_Of slot_type) else None)"
| "answer_type Residency n = (if n = 200 then Some residency_type else None)"
| "answer_type Gpu_Acquire n =
     (if n = 200 then Some (Fields [(''lease_id'', Text)])
      else if n = 503 then Some error_type else None)"
| "answer_type Gpu_Release n =
     (if n = 200 then Some Empty_Body else if n \<in> {400, 404} then Some error_type else None)"
| "answer_type Not_Found n = (if n = 404 then Some Empty_Body else None)"
| "answer_type Method_Not_Allowed n = (if n = 405 then Some Empty_Body else None)"

text \<open>The guard's answer is the same on every endpoint.\<close>

definition declared_type :: "endpoint \<Rightarrow> nat \<Rightarrow> json_type option" where
  "declared_type e n = (if n = 421 then Some error_type else answer_type e n)"

definition well_typed :: "endpoint \<Rightarrow> response \<Rightarrow> bool" where
  "well_typed e r \<longleftrightarrow>
     (case declared_type e (resp_status r) of None \<Rightarrow> False | Some t \<Rightarrow> has_type t (resp_body r))"

lemmas typing_defs = well_typed_def declared_type_def error_type_def slot_type_def residency_type_def error_body_def

lemma error_typed [simp]: "has_type error_type (error_body msg)"
  by (simp add: typing_defs)

lemma slot_json_typed [simp]: "has_type (Integer 32) (slot_json k)"
  using order.strict_trans1 [OF take_bit_nat_less_eq_self unsigned_less, of 64 k]
  by (simp add: slot_json_def unsigned_ucast_eq)

lemma optional_json_typed [simp]: "has_type (Nullable Text) (optional_json s)"
  by (simp add: optional_json_def split: option.splits)

lemma u64_typed [simp]: "has_type (Integer 64) (Unsigned w)"
  using unsigned_less [of w] by simp

lemma slots_typed: "well_typed Slots (slots_handler st)"
  by (simp add: well_typed_def declared_type_def slots_handler_def list_all_iff snapshot_json_def slot_type_def
      del: has_type.simps(3,5))

lemma residency_typed: "well_typed Residency (residency_handler m v st)"
  by (simp add: well_typed_def declared_type_def residency_handler_def residency_type_def list_all_iff model_json_def
      vram_json_def del: has_type.simps(3) split: option.splits)

lemma release_typed:
  "gpu_lock_release_handler parse live text l = (r, l', wk) \<Longrightarrow> well_typed Gpu_Release r"
  by (auto simp: well_typed_def declared_type_def gpu_lock_release_handler_def split: option.splits prod.splits sum.splits)


text \<open>A body the framework refuses to read, with its answer.\<close>

fun rejected :: "'q outside \<Rightarrow> 'q http_request \<Rightarrow> app_state \<Rightarrow> endpoint \<Rightarrow> response \<Rightarrow> bool" where
  "rejected x req s Chat_Completions r \<longleftrightarrow>
     json_value (extractor x) (unat (app_max_request_body_bytes s)) req = Inl r"
| "rejected x req s Gpu_Release r \<longleftrightarrow> json_release (extractor x) req = Inl r"
| "rejected x req s _ r \<longleftrightarrow> False"

lemma dispatch_typed:
  assumes "fst (dispatch x req e (s, sent)) = Answered r"
  shows "well_typed e r \<or> rejected x req s e r"
proof (cases e)
  case Chat_Completions
  with assms show ?thesis by (auto split: sum.splits prod.splits)
next
  case Status
  with assms show ?thesis by (auto simp: typing_defs status_handler_def)
next
  case Slots
  with assms slots_typed show ?thesis by auto
next
  case Residency
  with assms residency_typed show ?thesis by (auto split: prod.splits)
next
  case Gpu_Release
  with assms release_typed show ?thesis by (fastforce split: sum.splits prod.splits)
qed (use assms in \<open>auto simp: typing_defs\<close>)

text \<open>
  C25: The interface is typed. Every answer the broker makes itself, at once or after waiting, has
  the JSON type declared for its endpoint and status: exactly the declared fields, each of its
  type, numbers within their width, and on every error status an object with a textual
  \<^verbatim>\<open>error\<close>. The exceptions are what is relayed from llama-server and what the web framework
  answers to a body it refuses to read.
\<close>

theorem answers_are_typed:
  "(fst (serve x req (s, sent)) = Answered r \<longrightarrow>
      well_typed (route (req_method req) (req_path req)) r \<or>
      rejected x req s (route (req_method req) (req_path req)) r) \<and>
   (gpu_lock_acquire_answer show_uuid task = Some r \<longrightarrow> well_typed Gpu_Acquire r) \<and>
   (chat_answer describe outcome = Own r \<longrightarrow> well_typed Chat_Completions r)"
proof (intro conjI)
  show "fst (serve x req (s, sent)) = Answered r \<longrightarrow>
      well_typed (route (req_method req) (req_path req)) r \<or>
      rejected x req s (route (req_method req) (req_path req)) r"
  proof (cases rule: serve_cases [of req "(s, sent)" x])
    case refused
    then show ?thesis by (auto simp: misdirected_def typing_defs)
  next
    case served
    with dispatch_typed show ?thesis by metis
  qed
  show "gpu_lock_acquire_answer show_uuid task = Some r \<longrightarrow> well_typed Gpu_Acquire r"
    by (auto simp: gpu_lock_acquire_answer_def typing_defs split: task.splits)
  show "chat_answer describe outcome = Own r \<longrightarrow> well_typed Chat_Completions r"
    by (auto simp: chat_answer_def typing_defs split: option.splits head_result.splits)
qed

section \<open>Requests on a running broker\<close>

text \<open>Extractors of a framework that reads a body already parsed, under the limit.\<close>

definition demo_extractors :: "json extractors" where
  "demo_extractors =
     \<lparr>json_value = (\<lambda>limit req.
        if limit < content_length req
        then Inl \<lparr>resp_status = 413, resp_body = Str ''length limit exceeded''\<rparr> else Inr (payload req)),
      json_release = (\<lambda>req.
        case Option.bind (json_get ''lease_id'' (payload req)) as_str of
          None \<Rightarrow> Inl \<lparr>resp_status = 422, resp_body = Str ''missing field''\<rparr>
        | Some l \<Rightarrow> Inr l)\<rparr>"

definition demo_outside :: "json outside" where
  "demo_outside =
     \<lparr>extractor = demo_extractors, models_answer = Unreachable,
      probe_outcome = cache_get 0 0 (Joined None), read_uuid = decimal_uuid,
      receiver_open = (\<lambda>_. True)\<rparr>"

definition demo_app :: app_state where
  "demo_app = (app_of_config (default_config ''http://127.0.0.1:8080'' ''/kv'') (new_scheduler 1))
     \<lparr>gpu_lock := \<lparr>held_by = Some \<lparr>lease = 7, acquired_at = 0\<rparr>, lock_waiters = [4]\<rparr>\<rparr>"

definition demo_call :: "string \<Rightarrow> string \<Rightarrow> json \<Rightarrow> json http_request" where
  "demo_call m p body =
     \<lparr>req_method = m, req_path = p, req_host = Some ''localhost:8899'', content_length = 40,
      payload = body\<rparr>"

lemmas demo_defs = demo_extractors_def demo_outside_def demo_app_def demo_call_def app_of_config_def
  default_config_def passes_guard_def

lemma demo_release:
  "serve demo_outside (demo_call ''POST'' ''/gpu-lock/release'' (Obj [(''lease_id'', Str ''7'')])) (demo_app, []) =
     (Answered \<lparr>resp_status = 200, resp_body = Null\<rparr>, demo_app\<lparr>gpu_lock := \<lparr>held_by = None, lock_waiters = []\<rparr>\<rparr>, [4])"
proof -
  have "decimal_uuid ''7'' = Some 7" using decimal_uuid_show [of 7] by (simp add: decimal_digit char_of_def bit_0)
  then show ?thesis by (simp add: demo_defs eval_simps)
qed

lemma requests_change_only_witness:
  "read_uuid demo_outside ''7'' = Some 7"
proof -
  from requests_change_only [OF demo_release] show ?thesis
    by (auto simp: demo_defs)
qed

lemma answers_are_typed_witness:
  "well_typed Gpu_Release \<lparr>resp_status = 200, resp_body = Null\<rparr>"
proof -
  let ?req = "demo_call ''POST'' ''/gpu-lock/release'' (Obj [(''lease_id'', Str ''7'')])"
  have "route (req_method ?req) (req_path ?req) = Gpu_Release"
    by (simp add: demo_call_def eval_simps)
  with answers_are_typed [of demo_outside ?req demo_app "[]" "\<lparr>resp_status = 200, resp_body = Null\<rparr>",
      THEN conjunct1, THEN mp] demo_release
  show ?thesis by (simp add: demo_defs)
qed

end
