(* ===== verification/Background.thy ===== *)
theory Background
  imports Broker_Main Gpu_Lock_System
begin

text \<open>
  The two background tasks of src/src/main.rs as state machines on a clock: the reconciliation,
  which polls llama-server, and the reaper of the GPU lock. Each has an interval of the runtime
  of its own, whose first tick is immediate and whose later ticks are due at fixed instants,
  one after another if some were missed.
\<close>

section \<open>The reconciliation\<close>

text \<open>
  Not yet polled; waiting for a tick due at an instant; waiting for llama-server since an
  instant, the next tick due at another; going through the slots reported idle.
\<close>

datatype poller =
    Starting
  | Sleeping instant
  | Fetching instant instant
  | Applying "u32 list" instant

text \<open>The task's first poll: the interval is created and its first tick skipped.\<close>

definition poller_tick :: "instant \<Rightarrow> poller \<Rightarrow> poller option" where
  "poller_tick t p =
     (case p of
        Starting \<Rightarrow> Some (Sleeping (t + reconcile_interval))
      | Sleeping due \<Rightarrow> if due \<le> t then Some (Fetching t (due + reconcile_interval)) else None
      | _ \<Rightarrow> None)"

definition applying :: "u32 list \<Rightarrow> instant \<Rightarrow> poller" where
  "applying ks due = (if ks = [] then Sleeping due else Applying ks due)"

definition poller_reply :: "json reply \<Rightarrow> poller \<Rightarrow> poller option" where
  "poller_reply r p =
     (case p of Fetching began due \<Rightarrow> Some (applying (idle_ids r) due) | _ \<Rightarrow> None)"

text \<open>One call of \<^verbatim>\<open>reconcile_seeded_idle\<close>, for the slot \<open>k\<close>.\<close>

definition poller_apply :: "u32 \<Rightarrow> poller \<Rightarrow> poller option" where
  "poller_apply k p =
     (case p of
        Applying ks due \<Rightarrow> if hd ks = k then Some (applying (tl ks) due) else None
      | _ \<Rightarrow> None)"

section \<open>The reaper\<close>

text \<open>\<open>None\<close>: not yet polled. The first tick reaps at once.\<close>

definition reaper_tick :: "instant \<Rightarrow> instant option \<Rightarrow> instant option" where
  "reaper_tick t due =
     (case due of
        None \<Rightarrow> Some (t + reconcile_interval)
      | Some d \<Rightarrow> if d \<le> t then Some (d + reconcile_interval) else None)"

section \<open>On time\<close>

text \<open>
  The runtime polls a task whose timer has fired within \<open>slack\<close>, and a poll of llama-server
  with the calls that follow is over \<open>slack\<close> after it was due: the clock does not pass this
  instant before the task has moved on.
\<close>

definition poller_limit :: "duration \<Rightarrow> poller \<Rightarrow> instant" where
  "poller_limit slack p =
     (case p of
        Starting \<Rightarrow> slack
      | Sleeping due \<Rightarrow> due + slack
      | Fetching began due \<Rightarrow> due - reconcile_interval + slack
      | Applying ks due \<Rightarrow> due - reconcile_interval + slack)"

definition reaper_limit :: "duration \<Rightarrow> instant option \<Rightarrow> instant" where
  "reaper_limit slack due = (case due of None \<Rightarrow> slack | Some d \<Rightarrow> d + slack)"

lemmas background_defs [eval_simps] =
  poller_tick_def applying_def poller_reply_def poller_apply_def reaper_tick_def
  poller_limit_def reaper_limit_def

end
