(* ===== verification/Panics.thy ===== *)
theory Panics
  imports Server Gpu_Lock Scheduler_Lru
begin

text \<open>
  Where the program can panic, and why it does not: a slot index out of range, the admission
  clock past its maximum (in a build with overflow checks), a mutex poisoned by a panic of
  somebody else, and a deadline beyond what an \<^verbatim>\<open>Instant\<close> can hold (src/src/scheduler.rs,
  src/src/gpu_lock.rs). The critical sections are given again with their panics, the waiting
  loop is run with them, and the two are compared with the ones of Scheduler and Wait_Loop.
\<close>

section \<open>An attempt that may panic\<close>

datatype panic = Out_Of_Bounds | Overflow | Deadline_Overflow | Poisoned

text \<open>
  The end of each tier: mark the slot, tick the clock, stamp the slot. If the tick panics the
  slot is already marked. \<open>checks\<close> says whether arithmetic is checked.
\<close>

definition claim_checked :: "bool \<Rightarrow> nat \<Rightarrow> inner \<Rightarrow> panic option \<times> inner" where
  "claim_checked checks i st =
     (let marked = st\<lparr>slots := (slots st)
            [i := (slots st ! i)\<lparr>busy := True, seeded_unowned := False\<rparr>]\<rparr>
      in if checks \<and> clock st = - 1 then (Some Overflow, marked)
         else (None,
           marked\<lparr>clock := clock st + 1,
                  slots := (slots marked)[i := (slots marked ! i)\<lparr>last_used := clock st + 1\<rparr>]\<rparr>))"

definition granted_checked ::
  "bool \<Rightarrow> nat \<Rightarrow> admission \<Rightarrow> inner \<Rightarrow> (panic + admission option) \<times> inner" where
  "granted_checked checks i a st =
     (case claim_checked checks i st of
        (Some p, st') \<Rightarrow> (Inl p, st')
      | (None, st') \<Rightarrow> (Inr (Some a), st'))"

text \<open>\<^verbatim>\<open>try_admit_locked\<close>, its two uses of \<^verbatim>\<open>inner.slots[..]\<close> checked.\<close>

definition try_admit_checked ::
  "bool \<Rightarrow> slot_hint option \<Rightarrow> inner \<Rightarrow> (panic + admission option) \<times> inner" where
  "try_admit_checked checks hint st =
     (case usable_preference hint st of
        Some p \<Rightarrow>
          (if length (slots st) \<le> unat p then (Inl Out_Of_Bounds, st)
           else if busy (slots st ! unat p) then (Inr None, st)
           else granted_checked checks (unat p)
             \<lparr>slot_id = p, cache_ready = is_resident_in (the hint) (slots st ! unat p)\<rparr> st)
      | None \<Rightarrow>
          (case find_resident hint st of
             Some i \<Rightarrow> granted_checked checks i \<lparr>slot_id = of_nat i, cache_ready = True\<rparr> st
           | None \<Rightarrow>
               (case find_lru st of
                  None \<Rightarrow> (Inr None, st)
                | Some i \<Rightarrow>
                    if length (slots st) \<le> i then (Inl Out_Of_Bounds, st)
                    else granted_checked checks i
                      \<lparr>slot_id = of_nat i,
                       cache_ready =
                         (case hint of None \<Rightarrow> False | Some h \<Rightarrow> is_resident_in h (slots st ! i))\<rparr> st)))"

text \<open>An attempt without its panics: the claim and the new state, or no change.\<close>

definition attempt_result :: "('g \<times> 's) option \<Rightarrow> 's \<Rightarrow> (panic + 'g option) \<times> 's" where
  "attempt_result r s = (case r of None \<Rightarrow> (Inr None, s) | Some (g, s') \<Rightarrow> (Inr (Some g), s'))"

lemma claim_checked_eq:
  "\<not> (checks \<and> clock st = - 1) \<Longrightarrow> claim_checked checks i st = (None, claim_slot i st)"
  by (cases "i < length (slots st)")
    (simp_all add: claim_checked_def claim_slot_def Let_def not_less list_update_beyond)

text \<open>
  An index is never out of range: the preference is compared with the number of slots
  before it is used, and the least recently used slot comes from the list itself.
\<close>

lemma try_admit_checked_eq:
  assumes "\<not> (checks \<and> clock st = - 1)"
  shows "try_admit_checked checks hint st = attempt_result (try_admit_locked hint st) st"
proof -
  have g: "granted_checked checks i a st = (Inr (Some a), claim_slot i st)" for i a
    by (simp add: granted_checked_def claim_checked_eq [OF assms])
  show ?thesis
    using usable_preference_lt [of hint st] find_lru_Some [of st]
    by (auto simp: try_admit_checked_def try_admit_locked_def admit_preferred_def attempt_result_def
        g Let_def leD split: option.splits)
qed

section \<open>The waiting loop with panics\<close>

record ('s, 'q, 'g) mortal =
  core :: "('s, 'q, 'g) world"
  poisoned :: bool

text \<open>
  What the loop needs besides its resource: the attempt with its panics, whether its sections
  lock with \<^verbatim>\<open>unwrap\<close> (and so panic on a poisoned mutex) or take the state out of the error,
  and the latest instant that can be represented.
\<close>

record ('s, 'q, 'g, 'x) hazards =
  attempt_checked :: "instant \<Rightarrow> 'x \<Rightarrow> 'q \<Rightarrow> 's \<Rightarrow> (panic + 'g option) \<times> 's"
  unwraps :: bool
  latest :: instant

definition set_core :: "('s, 'q, 'g) world \<Rightarrow> ('s, 'q, 'g) mortal \<Rightarrow> ('s, 'q, 'g) mortal" where
  "set_core w m = m\<lparr>core := w\<rparr>"

text \<open>A task that panics is gone; a panic under the lock poisons the mutex.\<close>

definition round_checked ::
  "('s, 'q, 'g, 'x, 'f) resource \<Rightarrow> ('s, 'q, 'g, 'x) hazards \<Rightarrow> 'x \<Rightarrow> nat \<Rightarrow> 'q \<Rightarrow> instant \<Rightarrow>
     ('s, 'q, 'g) world \<Rightarrow> ('s, 'q, 'g) mortal \<Rightarrow> panic option \<times> ('s, 'q, 'g) mortal" where
  "round_checked R z x i q deadline w m =
     (if unwraps z \<and> poisoned m then (Some Poisoned, set_core (set_task i Gone w) m)
      else (case attempt_checked z (now w) x q (shared w) of
        (Inl p, s) \<Rightarrow> (Some p, \<lparr>core = set_task i Gone (w\<lparr>shared := s\<rparr>), poisoned = True\<rparr>)
      | (Inr (Some g), s) \<Rightarrow> (None, set_core (set_task i (Holding g) (w\<lparr>shared := s\<rparr>)) m)
      | (Inr None, s) \<Rightarrow>
          (None, set_core (set_task i (Waiting q deadline (fresh w))
            (w\<lparr>shared := enqueue R q (fresh w) s, fresh := Suc (fresh w)\<rparr>)) m)))"

definition perform_checked ::
  "('s, 'q, 'g, 'x, 'f) resource \<Rightarrow> ('s, 'q, 'g, 'x) hazards \<Rightarrow> 'f \<Rightarrow>
     ('s, 'q, 'g) mortal \<Rightarrow> panic option \<times> ('s, 'q, 'g) mortal" where
  "perform_checked R z f m =
     (if unwraps z \<and> poisoned m then (Some Poisoned, m)
      else (None, set_core (perform R f (core m)) m))"

text \<open>\<^verbatim>\<open>Instant::now() + timeout\<close> is computed at the first poll, before the lock is taken.\<close>

fun exec_mortal ::
  "('s, 'q, 'g, 'x, 'f) resource \<Rightarrow> ('s, 'q, 'g, 'x) hazards \<Rightarrow> ('q, 'x, 'f) event \<Rightarrow>
     ('s, 'q, 'g) mortal \<Rightarrow> (panic option \<times> ('s, 'q, 'g) mortal) option" where
  "exec_mortal R z (Poll i x) m =
     (case tasks (core m) i of
        Fresh q timeout \<Rightarrow>
          Some (if latest z < now (core m) + timeout
                then (Some Deadline_Overflow, set_core (set_task i Gone (core m)) m)
                else round_checked R z x i q (now (core m) + timeout) (core m) m)
      | Waiting q deadline c \<Rightarrow>
          (if c \<in> signalled (core m)
           then Some (round_checked R z x i q deadline (close_rx c (core m)) m) else None)
      | _ \<Rightarrow> None)"
| "exec_mortal R z (Finish i) m =
     (case tasks (core m) i of
        Holding g \<Rightarrow>
          (case perform_checked R z (relinquish R g) m of
             (p, m') \<Rightarrow> Some (p, set_core (set_task i Gone (core m')) m'))
      | _ \<Rightarrow> None)"
| "exec_mortal R z (Operate f) m = Some (perform_checked R z f m)"
| "exec_mortal R z e m = map_option (\<lambda>w. (None, set_core w m)) (exec_event R e (core m))"

text \<open>A run, with the panics there were, in order.\<close>

fun run_mortal ::
  "('s, 'q, 'g, 'x, 'f) resource \<Rightarrow> ('s, 'q, 'g, 'x) hazards \<Rightarrow> ('q, 'x, 'f) event list \<Rightarrow>
     ('s, 'q, 'g) mortal \<Rightarrow> (panic list \<times> ('s, 'q, 'g) mortal) option" where
  "run_mortal R z [] m = Some ([], m)"
| "run_mortal R z (e # es) m =
     (case exec_mortal R z e m of
        None \<Rightarrow> None
      | Some (p, m') \<Rightarrow>
          map_option (\<lambda>(ps, m''). ((case p of None \<Rightarrow> ps | Some x \<Rightarrow> x # ps), m''))
            (run_mortal R z es m'))"

definition unharmed :: "('s, 'q, 'g) world \<Rightarrow> ('s, 'q, 'g) mortal" where
  "unharmed w = \<lparr>core = w, poisoned = False\<rparr>"

lemmas panic_defs [eval_simps] =
  claim_checked_def granted_checked_def try_admit_checked_def attempt_result_def set_core_def
  round_checked_def perform_checked_def unharmed_def

lemma unharmed_simps [simp]:
  "core (unharmed w) = w" "poisoned (unharmed w) = False"
  "set_core w (unharmed w') = unharmed w" "unharmed w = unharmed w' \<longleftrightarrow> w = w'"
  by (simp_all add: unharmed_def set_core_def)


section \<open>Runs with panics are runs without\<close>

text \<open>
  A first poll is late if its deadline cannot be represented. Its panic has the effect of
  dropping the future instead.
\<close>

fun late :: "instant \<Rightarrow> ('q, 'x, 'f) event \<Rightarrow> ('s, 'q, 'g) world \<Rightarrow> bool" where
  "late l (Poll i x) w \<longleftrightarrow> (case tasks w i of Fresh q t \<Rightarrow> l < now w + t | _ \<Rightarrow> False)"
| "late l e w \<longleftrightarrow> False"

fun dropped_instead :: "instant \<Rightarrow> ('q, 'x, 'f) event \<Rightarrow> ('s, 'q, 'g) world \<Rightarrow> ('q, 'x, 'f) event" where
  "dropped_instead l (Poll i x) w = (if late l (Poll i x :: ('q, 'x, 'f) event) w then Abandon i else Poll i x)"
| "dropped_instead l e w = e"

fun without_panics ::
  "('s, 'q, 'g, 'x, 'f) resource \<Rightarrow> instant \<Rightarrow> ('q, 'x, 'f) event list \<Rightarrow>
     ('s, 'q, 'g) world \<Rightarrow> ('q, 'x, 'f) event list" where
  "without_panics R l [] w = []"
| "without_panics R l (e # es) w =
     dropped_instead l e w #
       (case exec_event R (dropped_instead l e w) w of
          None \<Rightarrow> [] | Some w' \<Rightarrow> without_panics R l es w')"

text \<open>
  The contract: below a bound, which a run reaches only by that many claims, an attempt does not
  panic.
\<close>

locale panic_free =
  fixes R :: "('s, 'q, 'g, 'x, 'f) resource"
    and z :: "('s, 'q, 'g, 'x) hazards"
    and claims :: "'s \<Rightarrow> nat"
    and bound :: nat
  assumes attempt_safe: "claims s < bound \<Longrightarrow>
      attempt_checked z t x q s = attempt_result (attempt R t x q s) s"
    and attempt_claims: "claims s < bound \<Longrightarrow> attempt R t x q s = Some (g, s') \<Longrightarrow> claims s' \<le> Suc (claims s)"
    and enqueue_claims: "claims (enqueue R q c s) = claims s"
    and operate_claims: "claims (fst (operate R t f live s)) = claims s"
begin

lemma round_safe:
  "claims (shared w) < bound \<Longrightarrow>
     round_checked R z x i q d w (unharmed w') = (None, unharmed (try_once R x i q d w))"
  by (simp add: round_checked_def attempt_safe attempt_result_def try_once_def unharmed_def
      set_core_def split: option.split)

lemma perform_safe: "perform_checked R z f (unharmed w) = (None, unharmed (perform R f w))"
  by (simp add: perform_checked_def)

lemma step_safe:
  assumes "claims (shared w) < bound"
  shows "exec_mortal R z e (unharmed w) =
    map_option (\<lambda>w'. (if late (latest z) e w then Some Deadline_Overflow else None, unharmed w'))
      (exec_event R (dropped_instead (latest z) e w) w)"
proof (cases e)
  case (Poll i x)
  with assms show ?thesis
    by (cases "tasks w i") (simp_all add: round_safe close_rx_def)
next
  case (Finish i)
  then show ?thesis by (simp add: perform_safe split: task.split)
qed (simp_all add: perform_safe del: exec_event.simps, simp_all)

lemma step_claims:
  assumes "claims (shared w) < bound" and "exec_event R e w = Some w'"
  shows "claims (shared w') \<le> Suc (claims (shared w))"
proof -
  have attempt: "claims (shared (try_once R x i q d v)) \<le> Suc (claims (shared w))"
    if "shared v = shared w" for x i q d v
    using that assms(1) attempt_claims [of "shared w"]
    by (auto simp: try_once_def set_task_def enqueue_claims split: option.split)
  have op: "claims (shared (perform R f w)) = claims (shared w)" for f
    using operate_claims by (simp add: perform_def case_prod_unfold)
  from assms(2) show ?thesis
  proof (cases rule: exec_event_cases)
    case (tried i x q d)
    with attempt show ?thesis by simp
  next
    case (finished i g)
    with op show ?thesis by (simp add: set_task_def)
  next
    case (other f)
    with op show ?thesis by simp
  qed (auto simp: set_task_def)
qed

lemma run_safe:
  assumes "claims (shared w) + length es \<le> bound"
    and "run_mortal R z es (unharmed w) = Some (ps, m)"
  shows "set ps \<subseteq> {Deadline_Overflow} \<and>
    (\<exists>w'. m = unharmed w' \<and> run_events R (without_panics R (latest z) es w) w = Some w')"
  using assms
proof (induction es arbitrary: w ps)
  case (Cons e es)
  from Cons.prems(1) have safe: "claims (shared w) < bound" by simp
  note step = step_safe [OF safe, of e]
  from Cons.prems(2) obtain w' ps' where w': "exec_event R (dropped_instead (latest z) e w) w = Some w'"
    and rest: "run_mortal R z es (unharmed w') = Some (ps', m)"
    and ps: "ps = (if late (latest z) e w then Deadline_Overflow # ps' else ps')"
    by (auto simp: step split: option.splits if_splits simp del: exec_mortal.simps)
  from step_claims [OF safe w'] Cons.prems(1) have "claims (shared w') + length es \<le> bound" by simp
  from Cons.IH [OF this rest] w' ps show ?case by auto
qed (auto simp: unharmed_def)

lemma run_on_time:
  assumes "claims (shared w) + length es \<le> bound"
    and "run_mortal R z es (unharmed w) = Some (ps, m)"
    and "\<And>i q t. tasks w i = Fresh q t \<Longrightarrow> t \<le> T" and "\<And>i q t. Spawn i q t \<in> set es \<Longrightarrow> t \<le> T"
    and "now w + passed es + T \<le> latest z"
  shows "ps = [] \<and> (\<exists>w'. m = unharmed w' \<and> run_events R es w = Some w')"
  using assms
proof (induction es arbitrary: w ps)
  case (Cons e es)
  from Cons.prems(1) have safe: "claims (shared w) < bound" by simp
  have "\<not> late (latest z) e w"
    using Cons.prems(3,5) by (cases e) (fastforce split: task.splits)+
  then have same: "dropped_instead (latest z) e w = e" by (cases e) auto
  from Cons.prems(2) \<open>\<not> late (latest z) e w\<close> obtain w' where w': "exec_event R e w = Some w'"
    and rest: "run_mortal R z es (unharmed w') = Some (ps, m)"
    by (auto simp: step_safe [OF safe] same split: option.splits simp del: exec_mortal.simps)
  have "ps = [] \<and> (\<exists>w''. m = unharmed w'' \<and> run_events R es w' = Some w'')"
  proof (rule Cons.IH [OF _ rest])
    show "claims (shared w') + length es \<le> bound"
      using step_claims [OF safe w'] Cons.prems(1) by simp
    show "t \<le> T" if "tasks w' i = Fresh q t" for i q t
      using fresh_step [OF w' that] Cons.prems(3,4) [of i q t] by auto
    show "t \<le> T" if "Spawn i q t \<in> set es" for i q t using that Cons.prems(4) by auto
    have "passed (e # es) = passed [e] + passed es" by (cases e) auto
    then show "now w' + passed es + T \<le> latest z"
      using clock_step [OF w'] Cons.prems(5) by simp
  qed
  with w' show ?case by simp
qed (auto simp: unharmed_def)

end

section \<open>The scheduler and the lock do not panic\<close>

definition sched_hazards :: "bool \<Rightarrow> instant \<Rightarrow> (inner, slot_hint option, admission, unit) hazards" where
  "sched_hazards checks l =
     \<lparr>attempt_checked = (\<lambda>_ _ hint st. try_admit_checked checks hint st), unwraps = True, latest = l\<rparr>"

text \<open>The critical section of \<^verbatim>\<open>acquire\<close> does nothing that can panic.\<close>

definition lock_hazards :: "instant \<Rightarrow> (lock_inner, unit, lease_id, lease_id) hazards" where
  "lock_hazards l =
     \<lparr>attempt_checked = (\<lambda>t new _ s. attempt_result (try_lock t new s) s), unwraps = False, latest = l\<rparr>"

lemmas hazard_defs [eval_simps] = sched_hazards_def lock_hazards_def

lemma below_maximum: "unat (c :: u64) < 2 ^ 64 - 1 \<Longrightarrow> c < - 1"
  by (simp add: word_less_nat_alt unsigned_minus_1_eq_mask mask_eq_exp_minus_1)

lemma operate_clock: "clock (fst (sched_operate t f live st)) = clock st"
  by (cases rule: operate_cases [of t f live st]) (simp_all add: frame_simps)

interpretation sched_panics: panic_free sched_admit "sched_hazards checks l" "\<lambda>st. unat (clock st)" "2 ^ 64 - 1"
  for checks l
proof
  fix t x hint and st :: inner
  assume "unat (clock st) < 2 ^ 64 - 1"
  from below_maximum [OF this] have "\<not> (checks \<and> clock st = - 1)" by (metis order_less_irrefl)
  then show "attempt_checked (sched_hazards checks l) t x hint st =
      attempt_result (attempt sched_admit t x hint st) st"
    by (simp add: sched_hazards_def try_admit_checked_eq)
next
  fix t x hint g and st st' :: inner
  assume "unat (clock st) < 2 ^ 64 - 1" and "attempt sched_admit t x hint st = Some (g, st')"
  then show "unat (clock st') \<le> Suc (unat (clock st))"
    using word_tick(2) [OF below_maximum, of "clock st"]
    by (auto simp: frame_simps dest: try_admit_claims)
qed (simp_all add: frame_simps operate_clock)

interpretation lock_panics: panic_free "gpu_acquire m" "lock_hazards l" "\<lambda>_. 0" "Suc b" for m l b
  by unfold_locales (simp_all add: lock_hazards_def)

text \<open>
  C15: No critical section ever panics, so no mutex is ever poisoned. In every run of fewer than
  2 to the 64 steps from the start, with or without overflow checks, whatever the slots seeded
  and whatever the hints ask for, the only panics are first polls whose deadline is beyond the latest
  instant; the state is that of the run in which those requests are dropped
  instead. If no timeout is longer than \<open>T\<close> and the run ends by \<open>T\<close> before the latest instant there is none.
\<close>

theorem never_poisoned:
  assumes "run_mortal sched_admit (sched_hazards checks l) es (unharmed (broker_start n ks)) = Some (ps, m)"
    and "length es < 2 ^ 64"
  shows "\<not> poisoned m \<and> set ps \<subseteq> {Deadline_Overflow} \<and>
    run_events sched_admit (without_panics sched_admit l es (broker_start n ks)) (broker_start n ks) =
      Some (core m) \<and>
    ((\<forall>i hint t. Spawn i hint t \<in> set es \<longrightarrow> t \<le> T) \<and> passed es + T \<le> l \<longrightarrow>
       ps = [] \<and> run_events sched_admit es (broker_start n ks) = Some (core m))"
proof (intro conjI impI)
  have clock: "clock (fold seed_busy ks st) = clock st" for st
    by (induction ks arbitrary: st) (simp_all add: seed_busy_def frame_simps)
  have start: "unat (clock (shared (broker_start n ks))) = 0"
    by (simp add: broker_start_def start_world_def seeded_scheduler_def clock new_scheduler_def)
  have room: "unat (clock (shared (broker_start n ks))) + length es \<le> 2 ^ 64 - 1"
    using assms(2) start by simp
  note run = sched_panics.run_safe [OF room assms(1)]
  then obtain w' where m: "m = unharmed w'" and "set ps \<subseteq> {Deadline_Overflow}"
    "run_events sched_admit (without_panics sched_admit l es (broker_start n ks)) (broker_start n ks) =
       Some w'"
    by (auto simp: sched_hazards_def)
  then show "\<not> poisoned m" "set ps \<subseteq> {Deadline_Overflow}"
    "run_events sched_admit (without_panics sched_admit l es (broker_start n ks)) (broker_start n ks) =
       Some (core m)"
    by simp_all
  assume timely: "(\<forall>i hint t. Spawn i hint t \<in> set es \<longrightarrow> t \<le> T) \<and> passed es + T \<le> l"
  have "ps = [] \<and> (\<exists>w'. m = unharmed w' \<and> run_events sched_admit es (broker_start n ks) = Some w')"
    by (rule sched_panics.run_on_time [OF room assms(1), of T])
      (use timely in \<open>auto simp: broker_start_def start_world_def sched_hazards_def\<close>)
  with m show "ps = []" "run_events sched_admit es (broker_start n ks) = Some (core m)" by auto
qed

text \<open>One request with a timeout past the latest instant, one with a short one.\<close>

lemma never_poisoned_witness:
  "\<exists>m. run_mortal sched_admit (sched_hazards True 100)
       [Spawn 0 None 200, Poll 0 (), Spawn 1 None 50, Poll 1 ()] (unharmed (broker_start 1 [])) =
       Some ([Deadline_Overflow], m) \<and>
     \<not> poisoned m \<and> tasks (core m) 0 = Gone"
proof -
  let ?es = "[Spawn 0 None 200, Poll 0 (), Spawn 1 None 50, Poll 1 ()] :: sched_event list"
  have "\<exists>m. run_mortal sched_admit (sched_hazards True 100) ?es (unharmed (broker_start 1 [])) =
      Some ([Deadline_Overflow], m) \<and> tasks (core m) 0 = Gone"
    by (simp add: eval_simps Let_def)
  then obtain m where m: "run_mortal sched_admit (sched_hazards True 100) ?es
      (unharmed (broker_start 1 [])) = Some ([Deadline_Overflow], m)" "tasks (core m) 0 = Gone"
    by blast
  have "length ?es < 2 ^ 64" by simp
  from never_poisoned [OF m(1) this] m show ?thesis by blast
qed

text \<open>
  The other side: if the configured timeout of the queue is past the latest instant, then no request is ever
  answered, also when every slot is idle.
\<close>

lemma absurd_timeout:
  assumes "latest z < timeout" and "tasks (core m) i = Fresh q timeout"
  shows "exec_mortal R z (Poll i x) m = Some (Some Deadline_Overflow, set_core (set_task i Gone (core m)) m)"
  using assms by simp

section \<open>Arms that cannot be reached\<close>

text \<open>
  The two handlers of the lock match on every error of the lock and have \<^verbatim>\<open>unreachable!\<close> for the
  one that their call does not return; \<open>None\<close> is that panic.
\<close>

fun acquire_reply :: "(lease_id \<Rightarrow> string) \<Rightarrow> gpu_lock_error + lease_id \<Rightarrow> response option" where
  "acquire_reply show_uuid (Inr l) =
     Some \<lparr>resp_status = 200, resp_body = Obj [(''lease_id'', Str (show_uuid l))]\<rparr>"
| "acquire_reply show_uuid (Inl Lock_Timeout) =
     Some \<lparr>resp_status = 503, resp_body = error_body ''timed out waiting for the GPU lock''\<rparr>"
| "acquire_reply show_uuid (Inl Unknown_Lease) = None"

fun release_reply :: "gpu_lock_error + unit \<Rightarrow> response option" where
  "release_reply (Inr _) = Some \<lparr>resp_status = 200, resp_body = Null\<rparr>"
| "release_reply (Inl Unknown_Lease) =
     Some \<lparr>resp_status = 404,
           resp_body = error_body ''lease not found, already released, or expired''\<rparr>"
| "release_reply (Inl Lock_Timeout) = None"

text \<open>What \<^verbatim>\<open>acquire\<close> has returned, by the state of its task.\<close>

fun acquired :: "(unit, lease_id) task \<Rightarrow> (gpu_lock_error + lease_id) option" where
  "acquired (Holding l) = Some (Inr l)"
| "acquired TimedOut = Some (Inl Lock_Timeout)"
| "acquired _ = None"

lemma unreachable_arms:
  "acquired t = Some r \<Longrightarrow>
     acquire_reply show_uuid r \<noteq> None \<and> gpu_lock_acquire_answer show_uuid t = acquire_reply show_uuid r"
  "parse_uuid text = Some l \<Longrightarrow>
     Some (fst (gpu_lock_release_handler parse_uuid live text s)) =
       release_reply (fst (release_lease live l s))"
  by (cases t; auto simp: gpu_lock_acquire_answer_def)
    (auto simp: gpu_lock_release_handler_def release_lease_def split: option.splits prod.splits)

end
