(* ===== verification/Broker_System.thy ===== *)
theory Broker_System
  imports Api Restart Background
begin

text \<open>
  The whole broker: the router (Api), chat requests (Chat_Service), the clients of the GPU lock
  (Gpu_Lock_System), the two background tasks (Background) and one clock, as a function on
  events. Everything that was proved of a part is shown to hold of it inside the whole.
\<close>

section \<open>State and events\<close>

text \<open>
  \<open>settings\<close> holds the fields of \<^verbatim>\<open>AppState\<close> that are not handles, and the probe's cache; the
  states behind the handles of the scheduler and the lock are those of the two systems.
\<close>

record 'c broker =
  settings :: app_state
  chat :: "'c service"
  lock_side :: lock_world
  poller :: poller
  reaper :: "instant option"

definition app_view :: "'c broker \<Rightarrow> app_state" where
  "app_view b =
     (settings b)\<lparr>scheduler := shared (net (chat b)), gpu_lock := shared (lock_side b)\<rparr>"

text \<open>A broker that has just started to serve, with \<open>n\<close> slots of which \<open>ks\<close> are in use.\<close>

definition launched :: "app_state \<Rightarrow> u32 \<Rightarrow> u32 list \<Rightarrow> 'c broker" where
  "launched s n ks =
     \<lparr>settings = s, chat = service_start n ks, lock_side = lock_start, poller = Starting,
      reaper = None\<rparr>"

text \<open>
  \<open>Call i req x owner\<close>: request \<open>i\<close> reaches the router, and is answered or begins to wait;
  \<open>owner\<close> is the client whose lease a release gives back. \<open>Chat\<close> and \<open>Lock\<close> are the later steps
  of the requests that wait, their tasks and their clients.
\<close>

datatype ('q, 'c) broker_step =
    Call nat "'q http_request" "'q outside" "nat option"
  | Chat "'c service_event"
  | Lock lock_event
  | Poll_Tick
  | Poll_Reply "json reply"
  | Poll_Apply u32
  | Reap_Tick
  | Elapse duration

section \<open>Steps\<close>

text \<open>The lease a request gives back, if it is a release that can be read.\<close>

definition released_lease :: "'q outside \<Rightarrow> 'q http_request \<Rightarrow> app_state \<Rightarrow> lease_id option" where
  "released_lease x req s =
     (if passes_guard req s \<and> route (req_method req) (req_path req) = Gpu_Release
      then (case json_release (extractor x) req of Inl _ \<Rightarrow> None | Inr text \<Rightarrow> read_uuid x text)
      else None)"

text \<open>The client that gives back its lease has none any more.\<close>

definition give_up_lease :: "nat option \<Rightarrow> lock_world \<Rightarrow> lock_world" where
  "give_up_lease owner w = (case owner of None \<Rightarrow> w | Some j \<Rightarrow> set_task j Gone w)"

definition owner_matches :: "nat option \<Rightarrow> lease_id option \<Rightarrow> lock_world \<Rightarrow> bool" where
  "owner_matches owner l w =
     (case owner of
        None \<Rightarrow> True
      | Some j \<Rightarrow> (case l of None \<Rightarrow> False | Some l \<Rightarrow> tasks w j = Holding l))"

text \<open>
  What a handler leaves behind: every field of the state it was given is taken back, the
  scheduler's and the lock's into the two systems.
\<close>

definition take_back :: "app_state \<Rightarrow> chan list \<Rightarrow> 'c broker \<Rightarrow> 'c broker" where
  "take_back s sent b =
     b\<lparr>settings := s\<lparr>scheduler := scheduler (settings b), gpu_lock := gpu_lock (settings b)\<rparr>,
       chat := (chat b)\<lparr>net := (net (chat b))\<lparr>shared := scheduler s\<rparr>\<rparr>,
       lock_side := (lock_side b)
         \<lparr>shared := gpu_lock s, signalled := signalled (lock_side b) \<union> set sent\<rparr>\<rparr>"

definition exec_call ::
  "nat \<Rightarrow> 'q http_request \<Rightarrow> 'q outside \<Rightarrow> nat option \<Rightarrow> 'c broker \<Rightarrow> 'c broker option" where
  "exec_call i req x owner b =
     (if owner_matches owner (released_lease x req (app_view b)) (lock_side b)
      then
        (let (r, s, sent) =
               serve (x\<lparr>receiver_open := (\<lambda>c. c \<notin> closed (lock_side b))\<rparr>) req (app_view b, []);
             b' = take_back s sent b
         in case r of
              Awaits_Slot body \<Rightarrow>
                map_option (\<lambda>c. b'\<lparr>chat := c\<rparr>)
                  (exec_service (queue_timeout (settings b')) (Arrive i body) (chat b'))
            | Awaits_Lock \<Rightarrow>
                map_option (\<lambda>w. b'\<lparr>lock_side := w\<rparr>)
                  (exec_event (gpu_acquire (gpu_lock_max_hold (settings b')))
                    (Spawn i () (gpu_lock_queue_timeout (settings b'))) (lock_side b'))
            | Answered _ \<Rightarrow> Some (b'\<lparr>lock_side := give_up_lease owner (lock_side b')\<rparr>))
      else None)"

text \<open>The steps of a chat request, and of an acquire, that are not steps of another part.\<close>

fun own_chat_event :: "'c service_event \<Rightarrow> bool" where
  "own_chat_event (Arrive i body) = False"
| "own_chat_event (Reconcile_Slot k) = False"
| "own_chat_event (Pass d) = False"
| "own_chat_event e = True"

fun own_lock_event :: "lock_event \<Rightarrow> bool" where
  "own_lock_event (Poll i l) = True"
| "own_lock_event (Expire i) = True"
| "own_lock_event (Abandon i) = True"
| "own_lock_event e = False"

definition on_chat :: "'c service_event \<Rightarrow> 'c broker \<Rightarrow> 'c broker option" where
  "on_chat e b =
     map_option (\<lambda>c. b\<lparr>chat := c\<rparr>) (exec_service (queue_timeout (settings b)) e (chat b))"

definition on_lock :: "lock_event \<Rightarrow> 'c broker \<Rightarrow> 'c broker option" where
  "on_lock e b =
     map_option (\<lambda>w. b\<lparr>lock_side := w\<rparr>)
       (exec_event (gpu_acquire (gpu_lock_max_hold (settings b))) e (lock_side b))"

definition clock_of :: "'c broker \<Rightarrow> instant" where
  "clock_of b = now (net (chat b))"

fun exec_broker :: "('q, 'c) broker_step \<Rightarrow> 'c broker \<Rightarrow> 'c broker option" where
  "exec_broker (Call i req x owner) b = exec_call i req x owner b"
| "exec_broker (Chat e) b = (if own_chat_event e then on_chat e b else None)"
| "exec_broker (Lock e) b = (if own_lock_event e then on_lock e b else None)"
| "exec_broker Poll_Tick b =
     map_option (\<lambda>p. b\<lparr>poller := p\<rparr>) (poller_tick (clock_of b) (poller b))"
| "exec_broker (Poll_Reply r) b = map_option (\<lambda>p. b\<lparr>poller := p\<rparr>) (poller_reply r (poller b))"
| "exec_broker (Poll_Apply k) b =
     (case poller_apply k (poller b) of
        None \<Rightarrow> None
      | Some p \<Rightarrow> on_chat (Reconcile_Slot k) (b\<lparr>poller := p\<rparr>))"
| "exec_broker Reap_Tick b =
     (case reaper_tick (clock_of b) (reaper b) of
        None \<Rightarrow> None
      | Some due \<Rightarrow> on_lock (Operate Reap) (b\<lparr>reaper := Some due\<rparr>))"
| "exec_broker (Elapse d) b = Option.bind (on_chat (Pass d) b) (on_lock (Tick d))"

fun run_broker :: "('q, 'c) broker_step list \<Rightarrow> 'c broker \<Rightarrow> 'c broker option" where
  "run_broker [] b = Some b"
| "run_broker (e # es) b =
     (case exec_broker e b of None \<Rightarrow> None | Some b' \<Rightarrow> run_broker es b')"

lemmas broker_defs [eval_simps] =
  app_view_def launched_def give_up_lease_def owner_matches_def
  on_chat_def on_lock_def clock_of_def

section \<open>What a call amounts to\<close>

lemma app_view_simps [simp]:
  "gpu_lock (app_view b) = shared (lock_side b)" "scheduler (app_view b) = shared (net (chat b))"
  by (simp_all add: app_view_def)

lemma take_back_simps [simp]:
  "take_back (app_view b) [] b = b"
  "take_back ((app_view b)\<lparr>gpu_lock := l\<rparr>) sent b =
     b\<lparr>lock_side := (lock_side b)\<lparr>shared := l, signalled := signalled (lock_side b) \<union> set sent\<rparr>\<rparr>"
  "take_back ((app_view b)\<lparr>app_vram_cache := c\<rparr>) [] b =
     b\<lparr>settings := (settings b)\<lparr>app_vram_cache := c\<rparr>\<rparr>"
  by (simp_all add: take_back_def app_view_def)

definition chat_body :: "'q outside \<Rightarrow> 'q http_request \<Rightarrow> app_state \<Rightarrow> json option" where
  "chat_body x req s =
     (if passes_guard req s \<and> route (req_method req) (req_path req) = Chat_Completions
      then (case json_value (extractor x) (unat (app_max_request_body_bytes s)) req of
              Inl _ \<Rightarrow> None | Inr body \<Rightarrow> Some body)
      else None)"

definition asks_for_lock :: "'q http_request \<Rightarrow> app_state \<Rightarrow> bool" where
  "asks_for_lock req s \<longleftrightarrow>
     passes_guard req s \<and> route (req_method req) (req_path req) = Gpu_Acquire"

lemmas call_kinds = chat_body_def asks_for_lock_def released_lease_def

lemma release_handler_lease:
  "parse text = Some l \<Longrightarrow> snd (gpu_lock_release_handler parse live text s) = snd (release_lease live l s)"
  by (simp add: gpu_lock_release_handler_def release_lease_def split: option.split)

lemma release_handler_unreadable:
  "parse text = None \<Longrightarrow> snd (gpu_lock_release_handler parse live text s) = (s, [])"
  by (simp add: gpu_lock_release_handler_def)

lemma serve_kinds [case_names chat acquire release other]:
  obtains (chat) body where "chat_body x req s = Some body" and "\<not> asks_for_lock req s"
      and "released_lease x req s = None" and "serve x req (s, sent) = (Awaits_Slot body, s, sent)"
  | (acquire) "chat_body x req s = None" and "asks_for_lock req s"
      and "released_lease x req s = None" and "serve x req (s, sent) = (Awaits_Lock, s, sent)"
  | (release) l r where "chat_body x req s = None" and "\<not> asks_for_lock req s"
      and "released_lease x req s = Some l"
      and "serve x req (s, sent) =
        (Answered r, s\<lparr>gpu_lock := fst (snd (release_lease (receiver_open x) l (gpu_lock s)))\<rparr>,
         sent @ snd (snd (release_lease (receiver_open x) l (gpu_lock s))))"
  | (other) r c where "chat_body x req s = None" and "\<not> asks_for_lock req s"
      and "released_lease x req s = None"
      and "serve x req (s, sent) = (Answered r, s\<lparr>app_vram_cache := c\<rparr>, sent)"
proof (cases rule: serve_cases [of req "(s, sent)" x])
  case refused
  then show ?thesis by (intro other [of misdirected "app_vram_cache s"]) (simp_all add: call_kinds)
next
  case served
  let ?e = "route (req_method req) (req_path req)"
  show ?thesis
  proof (cases ?e)
    case Chat_Completions
    show ?thesis
    proof (cases "json_value (extractor x) (unat (app_max_request_body_bytes s)) req")
      case (Inl r)
      with served Chat_Completions show ?thesis
        by (intro other [of r "app_vram_cache s"]) (simp_all add: call_kinds)
    next
      case (Inr body)
      with served Chat_Completions show ?thesis by (intro chat [of body]) (simp_all add: call_kinds)
    qed
  next
    case Gpu_Acquire
    with served show ?thesis by (intro acquire) (simp_all add: call_kinds)
  next
    case Residency
    with served show ?thesis
      by (cases "probe_outcome x (app_vram_cache s)") (auto simp: call_kinds intro: other)
  next
    case Gpu_Release
    show ?thesis
    proof (cases "json_release (extractor x) req")
      case (Inl r)
      with served Gpu_Release show ?thesis
        by (intro other [of r "app_vram_cache s"]) (simp_all add: call_kinds)
    next
      case (Inr lease_text)
      obtain r l wk where h: "gpu_lock_release_handler (read_uuid x) (receiver_open x) lease_text (gpu_lock s) = (r, l, wk)"
        by (metis prod_cases3)
      show ?thesis
      proof (cases "read_uuid x lease_text")
        case None
        from release_handler_unreadable [of "read_uuid x" lease_text "receiver_open x" "gpu_lock s"] None h
        have "l = gpu_lock s" "wk = []" by simp_all
        with served Gpu_Release Inr None h show ?thesis
          by (intro other [of r "app_vram_cache s"]) (simp_all add: call_kinds)
      next
        case (Some i)
        from release_handler_lease [of "read_uuid x" lease_text i "receiver_open x" "gpu_lock s"] Some h
        have "snd (release_lease (receiver_open x) i (gpu_lock s)) = (l, wk)" by simp
        with served Gpu_Release Inr Some h show ?thesis
          by (intro release [of i r]) (simp_all add: call_kinds)
      qed
    qed
  qed (use served in \<open>auto simp: call_kinds intro: other [of _ "app_vram_cache s"]\<close>)
qed

section \<open>The parts of a run\<close>

text \<open>The events a step of the broker is for the chat service, and for the lock.\<close>

fun chat_part :: "app_state \<Rightarrow> ('q, 'c) broker_step \<Rightarrow> 'c service_event list" where
  "chat_part s (Call i req x owner) =
     (case chat_body x req s of None \<Rightarrow> [] | Some body \<Rightarrow> [Arrive i body])"
| "chat_part s (Chat e) = [e]"
| "chat_part s (Poll_Apply k) = [Reconcile_Slot k]"
| "chat_part s (Elapse d) = [Pass d]"
| "chat_part s e = []"

fun lock_part :: "app_state \<Rightarrow> ('q, 'c) broker_step \<Rightarrow> lock_event list" where
  "lock_part s (Call i req x owner) =
     (if asks_for_lock req s then [Spawn i () (gpu_lock_queue_timeout s)]
      else (case released_lease x req s of
              None \<Rightarrow> []
            | Some l \<Rightarrow> (case owner of None \<Rightarrow> [Operate (Release_Lease l)] | Some j \<Rightarrow> [Finish j])))"
| "lock_part s (Lock e) = [e]"
| "lock_part s Reap_Tick = [Operate Reap]"
| "lock_part s (Elapse d) = [Tick d]"
| "lock_part s e = []"

definition same_settings :: "app_state \<Rightarrow> app_state \<Rightarrow> bool" where
  "same_settings s s' \<longleftrightarrow>
     s' = s\<lparr>scheduler := scheduler s', gpu_lock := gpu_lock s', app_vram_cache := app_vram_cache s'\<rparr>"

lemma same_settings_fields:
  assumes "same_settings s s'"
  shows "app_allowed_hosts s' = app_allowed_hosts s" "queue_timeout s' = queue_timeout s"
    "app_max_request_body_bytes s' = app_max_request_body_bytes s"
    "gpu_lock_max_hold s' = gpu_lock_max_hold s"
    "gpu_lock_queue_timeout s' = gpu_lock_queue_timeout s"
  using assms by (cases s; cases s'; simp add: same_settings_def)+

lemma same_settings_refl [simp]: "same_settings s s"
  by (simp add: same_settings_def)

lemma same_settings_view [simp]: "same_settings (settings b) (app_view b)"
  by (simp add: same_settings_def app_view_def)

lemma same_settings_trans: "same_settings s t \<Longrightarrow> same_settings t u \<Longrightarrow> same_settings s u"
  by (cases s; cases t; cases u) (simp add: same_settings_def)

lemma calls_same:
  assumes "same_settings s s'"
  shows "chat_body x req s' = chat_body x req s" "asks_for_lock req s' = asks_for_lock req s"
    "released_lease x req s' = released_lease x req s" "passes_guard req s' = passes_guard req s"
  by (simp_all only: call_kinds passes_guard_def same_settings_fields [OF assms])

lemma parts_same:
  assumes "same_settings s s'"
  shows "chat_part s' e = chat_part s e" "lock_part s' e = lock_part s e"
  by (cases e; simp only: chat_part.simps lock_part.simps calls_same [OF assms]
      same_settings_fields [OF assms])+

lemma open_irrelevant:
  "chat_body (x\<lparr>receiver_open := r\<rparr>) req s = chat_body x req s"
  "released_lease (x\<lparr>receiver_open := r\<rparr>) req s = released_lease x req s"
  by (simp_all add: call_kinds split: sum.split)

lemma exec_call_cases [consumes 1, case_names chat acquire release other]:
  assumes "exec_call i req x owner b = Some b'"
  obtains (chat) body c where "chat_body x req (settings b) = Some body"
      and "\<not> asks_for_lock req (settings b)" and "released_lease x req (settings b) = None"
      and "exec_service (queue_timeout (settings b)) (Arrive i body) (chat b) = Some c"
      and "b' = b\<lparr>chat := c\<rparr>"
  | (acquire) w where "chat_body x req (settings b) = None" and "asks_for_lock req (settings b)"
      and "exec_event (gpu_acquire (gpu_lock_max_hold (settings b)))
        (Spawn i () (gpu_lock_queue_timeout (settings b))) (lock_side b) = Some w"
      and "b' = b\<lparr>lock_side := w\<rparr>"
  | (release) l where "chat_body x req (settings b) = None" and "\<not> asks_for_lock req (settings b)"
      and "released_lease x req (settings b) = Some l"
      and "owner_matches owner (Some l) (lock_side b)"
      and "b' = b\<lparr>lock_side := give_up_lease owner
        (perform (gpu_acquire (gpu_lock_max_hold (settings b))) (Release_Lease l) (lock_side b))\<rparr>"
  | (other) c where "chat_body x req (settings b) = None" and "\<not> asks_for_lock req (settings b)"
      and "released_lease x req (settings b) = None"
      and "b' = b\<lparr>settings := (settings b)\<lparr>app_vram_cache := c\<rparr>\<rparr>"
proof -
  let ?s = "app_view b"
  let ?x = "x\<lparr>receiver_open := (\<lambda>c. c \<notin> closed (lock_side b))\<rparr>"
  note view = calls_same [OF same_settings_view]
  have owner: "owner_matches owner (released_lease x req (settings b)) (lock_side b)"
    using assms by (simp add: exec_call_def view split: if_splits)
  show ?thesis
  proof (cases rule: serve_kinds [of ?x req ?s "[]"])
    case (chat body)
    with assms show ?thesis
      by (auto simp: exec_call_def view open_irrelevant simp del: exec_service.simps
          split: if_splits intro: that(1))
  next
    case acquire
    with assms show ?thesis
      by (auto simp: exec_call_def view open_irrelevant simp del: exec_event.simps
          split: if_splits intro: that(2))
  next
    case (release l r)
    have "b' = b\<lparr>lock_side := give_up_lease owner
        (perform (gpu_acquire (gpu_lock_max_hold (settings b))) (Release_Lease l) (lock_side b))\<rparr>"
      using release(4) assms
      by (simp add: exec_call_def perform_def case_prod_unfold Let_def split: if_splits)
    with release owner show ?thesis
      by (intro that(3) [of l]) (simp_all add: view open_irrelevant)
  next
    case (other r c)
    from other(3) owner have "owner = None"
      by (cases owner) (simp_all add: owner_matches_def view open_irrelevant)
    with other(4) assms have "b' = b\<lparr>settings := (settings b)\<lparr>app_vram_cache := c\<rparr>\<rparr>"
      by (simp add: exec_call_def give_up_lease_def Let_def split: if_splits)
    with other show ?thesis by (intro that(4) [of c]) (simp_all add: view open_irrelevant)
  qed
qed

text \<open>The same, for running the broker on requests of a known kind.\<close>

lemma exec_call_chat:
  assumes "chat_body x req (settings b) = Some body"
  shows "exec_call i req x None b =
    map_option (\<lambda>c. b\<lparr>chat := c\<rparr>) (exec_service (queue_timeout (settings b)) (Arrive i body) (chat b))"
proof -
  have "chat_body (x\<lparr>receiver_open := r\<rparr>) req (app_view b) = Some body" for r
    using assms by (simp add: open_irrelevant calls_same(1) [OF same_settings_view])
  then show ?thesis
    by (cases rule: serve_kinds [of "x\<lparr>receiver_open := (\<lambda>c. c \<notin> closed (lock_side b))\<rparr>" req
          "app_view b" "[]"])
      (simp_all add: exec_call_def owner_matches_def del: exec_service.simps)
qed

lemma exec_call_acquire:
  assumes "asks_for_lock req (settings b)"
  shows "exec_call i req x None b =
    map_option (\<lambda>w. b\<lparr>lock_side := w\<rparr>)
      (exec_event (gpu_acquire (gpu_lock_max_hold (settings b)))
        (Spawn i () (gpu_lock_queue_timeout (settings b))) (lock_side b))"
proof -
  have "asks_for_lock req (app_view b)"
    using assms by (simp add: calls_same(2) [OF same_settings_view])
  then show ?thesis
    by (cases rule: serve_kinds [of "x\<lparr>receiver_open := (\<lambda>c. c \<notin> closed (lock_side b))\<rparr>" req
          "app_view b" "[]"])
      (simp_all add: exec_call_def owner_matches_def del: exec_event.simps)
qed

lemma exec_call_refused:
  assumes "\<not> passes_guard req (settings b)"
  shows "exec_call i req x None b = Some b"
proof -
  have "\<not> passes_guard req (app_view b)"
    using assms by (simp add: calls_same(4) [OF same_settings_view])
  then show ?thesis
    by (cases rule: serve_cases [of req "(app_view b, [])"
          "x\<lparr>receiver_open := (\<lambda>c. c \<notin> closed (lock_side b))\<rparr>"])
      (simp_all add: exec_call_def owner_matches_def give_up_lease_def)
qed

lemma step_settings:
  assumes "exec_broker e b = Some b'"
  shows "same_settings (settings b) (settings b')"
proof (cases e)
  case (Call i req x owner)
  with assms have "exec_call i req x owner b = Some b'" by simp
  then show ?thesis by (cases rule: exec_call_cases) (simp_all add: same_settings_def)
qed (use assms in \<open>auto simp: on_chat_def on_lock_def split: if_splits option.splits bind_splits
      simp del: exec_service.simps exec_event.simps\<close>)

lemma step_chat:
  assumes "exec_broker e b = Some b'"
  shows "run_service (queue_timeout (settings b)) (chat_part (settings b) e) (chat b) = Some (chat b')"
proof (cases e)
  case (Call i req x owner)
  with assms have "exec_call i req x owner b = Some b'" by simp
  then show ?thesis
    by (cases rule: exec_call_cases) (simp_all add: Call del: exec_service.simps)
qed (use assms in \<open>auto simp: on_chat_def on_lock_def split: if_splits option.splits bind_splits
      simp del: exec_service.simps exec_event.simps\<close>)

lemma step_lock:
  assumes "exec_broker e b = Some b'"
  shows "run_events (gpu_acquire (gpu_lock_max_hold (settings b))) (lock_part (settings b) e)
    (lock_side b) = Some (lock_side b')"
proof (cases e)
  case (Call i req x owner)
  with assms have "exec_call i req x owner b = Some b'" by simp
  then show ?thesis
  proof (cases rule: exec_call_cases)
    case (release l)
    then show ?thesis
      by (cases owner) (simp_all add: Call owner_matches_def give_up_lease_def)
  qed (simp_all add: Call del: exec_event.simps)
qed (use assms in \<open>auto simp: on_chat_def on_lock_def split: if_splits option.splits bind_splits
      simp del: exec_service.simps exec_event.simps\<close>)

lemma run_service_append:
  "run_service t (xs @ ys) s = Option.bind (run_service t xs s) (run_service t ys)"
  by (induction xs arbitrary: s) (auto split: option.split simp del: exec_service.simps)

lemma run_events_append:
  "run_events R (xs @ ys) w = Option.bind (run_events R xs w) (run_events R ys)"
  by (induction xs arbitrary: w) (auto split: option.split simp del: exec_event.simps)

text \<open>
  The decomposition: a run of the broker is a run of the chat service and a run of the lock,
  side by side, whose events can be read off the run's and the settings alone.
\<close>

lemma run_parts:
  assumes "run_broker es b = Some b'"
  shows "same_settings (settings b) (settings b') \<and>
    run_service (queue_timeout (settings b)) (concat (map (chat_part (settings b)) es)) (chat b) =
      Some (chat b') \<and>
    run_events (gpu_acquire (gpu_lock_max_hold (settings b)))
      (concat (map (lock_part (settings b)) es)) (lock_side b) = Some (lock_side b')"
  using assms
proof (induction es arbitrary: b)
  case (Cons e es)
  then obtain b1 where step: "exec_broker e b = Some b1" and rest: "run_broker es b1 = Some b'"
    by (auto split: option.splits simp del: exec_broker.simps)
  note same = step_settings [OF step]
  have parts: "map (chat_part (settings b1)) es = map (chat_part (settings b)) es"
    "map (lock_part (settings b1)) es = map (lock_part (settings b)) es"
    by (simp_all add: parts_same [OF same])
  from Cons.IH [OF rest] same same_settings_fields [OF same] show ?case
    by (auto simp: parts run_service_append run_events_append step_chat [OF step] step_lock [OF step]
        intro: same_settings_trans)
qed simp

text \<open>
  C13: The slots and the lock do not influence each other, although every handler is given the
  state of both and all that it leaves is taken back. Take two runs of the whole broker
  from one state. If their chat parts agree (the chat requests that pass the guard, the steps of
  their tasks and clients, the reports of idle slots and the passing of time), they leave the
  chat service, its slots and its queues in the same state, whatever happened to the lock, the reaper and
  every other endpoint; and if their lock parts agree they leave the lock in the same state.
\<close>

theorem resources_are_independent:
  assumes "run_broker es b = Some b1" and "run_broker es' b = Some b2"
  shows "(concat (map (chat_part (settings b)) es) = concat (map (chat_part (settings b)) es') \<longrightarrow>
      chat b1 = chat b2) \<and>
    (concat (map (lock_part (settings b)) es) = concat (map (lock_part (settings b)) es') \<longrightarrow>
      lock_side b1 = lock_side b2)"
  using run_parts [OF assms(1)] run_parts [OF assms(2)] by auto

section \<open>Reachable states\<close>

text \<open>What the clients of the lock may do, as in Gpu_Lock_System.\<close>

definition honest_step :: "'c broker \<Rightarrow> ('q, 'c) broker_step \<Rightarrow> bool" where
  "honest_step b e \<longleftrightarrow> list_all (honest (lock_side b)) (lock_part (settings b) e)"

inductive broker_reach ::
  "('c broker \<Rightarrow> ('q, 'c) broker_step \<Rightarrow> bool) \<Rightarrow> 'c broker \<Rightarrow> 'c broker \<Rightarrow> bool"
  for allowed b0 where
  broker_reach_start: "broker_reach allowed b0 b0"
| broker_reach_step: "broker_reach allowed b0 b \<Longrightarrow> allowed b e \<Longrightarrow> exec_broker e b = Some b' \<Longrightarrow>
     broker_reach allowed b0 b'"

lemma broker_reach_mono:
  "broker_reach P b0 b \<Longrightarrow> (\<And>b e. P b e \<Longrightarrow> Q b e) \<Longrightarrow> broker_reach Q b0 b"
  by (induction rule: broker_reach.induct) (auto intro: broker_reach.intros)

fun allowed_steps ::
  "('c broker \<Rightarrow> ('q, 'c) broker_step \<Rightarrow> bool) \<Rightarrow> ('q, 'c) broker_step list \<Rightarrow> 'c broker \<Rightarrow> bool" where
  "allowed_steps ok [] b \<longleftrightarrow> True"
| "allowed_steps ok (e # es) b \<longleftrightarrow>
     ok b e \<and> (case exec_broker e b of None \<Rightarrow> True | Some b' \<Rightarrow> allowed_steps ok es b')"

lemma broker_reach_run:
  "run_broker es b = Some b' \<Longrightarrow> allowed_steps ok es b \<Longrightarrow> broker_reach ok b0 b \<Longrightarrow> broker_reach ok b0 b'"
proof (induction es arbitrary: b)
  case (Cons e es)
  then obtain b1 where "exec_broker e b = Some b1" "run_broker es b1 = Some b'"
    by (auto split: option.splits simp del: exec_broker.simps)
  with Cons show ?case by (auto intro: broker_reach_step simp del: exec_broker.simps)
qed simp

lemma lock_part_short:
  "lock_part s e = [] \<or> (\<exists>e'. lock_part s e = [e'])"
  by (cases e) (auto split: option.split)

text \<open>Seen through the lock, an honest step of the broker is an honest event of the lock, or none.\<close>

definition honest_exec :: "duration \<Rightarrow> ('q, 'c) broker_step \<Rightarrow> 'c broker \<Rightarrow> 'c broker option" where
  "honest_exec m e b =
     (if honest_step b e \<and> gpu_lock_max_hold (settings b) = m then exec_broker e b else None)"

interpretation broker_lock: projection "honest_exec m" "gpu_acquire m" honest lock_side for m
proof
  fix e :: "('a, 'b) broker_step" and b b'
  assume "honest_exec m e b = Some b'"
  then have step: "exec_broker e b = Some b'" and h: "honest_step b e"
    and m: "gpu_lock_max_hold (settings b) = m"
    by (simp_all add: honest_exec_def split: if_splits)
  from lock_part_short [of "settings b" e] step_lock [OF step] h m
  show "lock_side b' = lock_side b \<or>
      (\<exists>e'. honest (lock_side b) e' \<and> exec_event (gpu_acquire m) e' (lock_side b) = Some (lock_side b'))"
    by (auto simp: honest_step_def split: option.splits simp del: exec_event.simps)
qed


section \<open>One clock\<close>

lemma service_clock:
  assumes "exec_service timeout e s = Some s'"
  shows "now (net s') = now (net s) + (case e of Pass d \<Rightarrow> d | _ \<Rightarrow> 0)"
  using assms
proof (cases rule: exec_service_cases)
  case (call i c j act acts)
  then show ?thesis
    by (simp add: perform_call_def perform_def case_prod_unfold split: option.split)
qed (auto dest!: clock_step simp del: exec_event.simps)

text \<open>A step moves both clocks by the same time.\<close>

fun lapse :: "('q, 'c) broker_step \<Rightarrow> duration" where
  "lapse (Elapse d) = d"
| "lapse e = 0"

lemma passed_lock_part: "(\<And>l. e = Lock l \<Longrightarrow> own_lock_event l) \<Longrightarrow> passed (lock_part s e) = lapse e"
proof (cases e)
  case (Lock l)
  moreover assume "\<And>l. e = Lock l \<Longrightarrow> own_lock_event l"
  ultimately show ?thesis by (cases l) auto
qed (auto split: option.split)

lemma run_clock: "run_events R es w = Some w' \<Longrightarrow> now w' = now w + passed es"
proof (induction es arbitrary: w)
  case (Cons e es)
  then obtain w1 where "exec_event R e w = Some w1" "run_events R es w1 = Some w'"
    by (auto split: option.splits simp del: exec_event.simps)
  moreover have "passed (e # es) = passed [e] + passed es" by (cases e) auto
  ultimately show ?case using Cons.IH clock_step [of R e w w1] by simp
qed simp

lemma step_clocks:
  assumes "exec_broker e b = Some b'"
  shows "now (lock_side b') = now (lock_side b) + lapse e" "clock_of b' = clock_of b + lapse e"
proof -
  have own: "own_lock_event l" if "e = Lock l" for l using that assms by (simp split: if_splits)
  show "now (lock_side b') = now (lock_side b) + lapse e"
    using run_clock [OF step_lock [OF assms]] passed_lock_part [OF own] by simp
  show "clock_of b' = clock_of b + lapse e"
  proof (cases e)
    case (Call i req x owner)
    with assms have "exec_call i req x owner b = Some b'" by simp
    then show ?thesis
      by (cases rule: exec_call_cases)
        (auto simp: Call clock_of_def dest!: service_clock simp del: exec_service.simps)
  next
    case (Chat f)
    with assms show ?thesis
      by (cases f) (auto simp: clock_of_def on_chat_def dest!: service_clock simp del: exec_service.simps
          split: if_splits)
  qed (use assms in \<open>auto simp: clock_of_def on_chat_def on_lock_def dest!: service_clock
        simp del: exec_service.simps exec_event.simps split: if_splits option.splits bind_splits\<close>)
qed

section \<open>The whole refines its parts\<close>

lemma launched_parts [simp]:
  "settings (launched s n ks) = s" "chat (launched s n ks) = service_start n ks"
  "lock_side (launched s n ks) = lock_start" "poller (launched s n ks) = Starting"
  "reaper (launched s n ks) = None"
  by (simp_all add: launched_def)

lemma start_clocks [simp]: "clock_of (launched s n ks) = 0" "now lock_start = 0"
  by (simp_all add: clock_of_def service_start_def broker_start_def lock_start_def start_world_def)

lemma broker_parts:
  assumes "broker_reach honest_step (launched s n ks) b"
  shows "serviced (queue_timeout s) n ks (chat b) \<and> lock_reach (gpu_lock_max_hold s) (lock_side b) \<and>
    now (lock_side b) = clock_of b \<and> same_settings s (settings b)"
  using assms
proof (induction rule: broker_reach.induct)
  case broker_reach_start
  show ?case by (simp add: serviced_start lock_reach_def reach_start start_clocks)
next
  case (broker_reach_step b e b')
  note same = step_settings [OF broker_reach_step.hyps(3)]
  have fields: "queue_timeout (settings b) = queue_timeout s"
    "gpu_lock_max_hold (settings b) = gpu_lock_max_hold s"
    using broker_reach_step.IH same_settings_fields by blast+
  have "serviced (queue_timeout s) n ks (chat b')"
    using serviced_run [OF step_chat [OF broker_reach_step.hyps(3)]] broker_reach_step.IH fields by simp
  moreover have "honest_exec (gpu_lock_max_hold s) e b = Some b'"
    using broker_reach_step.hyps fields by (simp add: honest_exec_def)
  from broker_lock.step_reach [OF this] broker_reach_step.IH
  have "lock_reach (gpu_lock_max_hold s) (lock_side b')" by (simp add: lock_reach_def)
  moreover have "now (lock_side b') = clock_of b'"
    using step_clocks [OF broker_reach_step.hyps(3)] broker_reach_step.IH by simp
  ultimately show ?case using same broker_reach_step.IH same_settings_trans by blast
qed

text \<open>
  C12: The whole broker refines its parts. In every state that the broker reaches from its launch,
  whatever requests arrive at whatever route and however the steps of
  requests, clients and background tasks interleave, the chat side is a reachable state of the
  chat service with the configured timeout, and seen through the scheduler of the system of all
  admissions; the lock side is a reachable state of the lock with the configured
  maximum hold, both at the same time, and the settings are those of the start. So everything
  proved of the parts holds in the whole.
\<close>

theorem broker_refines_parts:
  assumes "broker_reach honest_step (launched s n ks) b"
  shows "serviced (queue_timeout s) n ks (chat b) \<and> sched_reach n ks (net (chat b)) \<and>
    lock_reach (gpu_lock_max_hold s) (lock_side b) \<and>
    now (lock_side b) = clock_of b \<and> same_settings s (settings b)"
  using broker_parts [OF assms] service_refines_scheduler_reach by blast

section \<open>Requests that leave no trace\<close>

text \<open>
  Refused by the host guard, or for an endpoint that only reads. Whether a request is one of them
  depends on the request and the configuration only.
\<close>

fun traceless :: "app_state \<Rightarrow> ('q, 'c) broker_step \<Rightarrow> bool" where
  "traceless s (Call i req x owner) \<longleftrightarrow>
     \<not> passes_guard req s \<or>
     route (req_method req) (req_path req) \<in> {Status, Slots, Not_Found, Method_Not_Allowed}"
| "traceless s e \<longleftrightarrow> False"

lemma traceless_step:
  assumes "traceless (settings b) e" and "exec_broker e b = Some b'"
  shows "b' = b"
proof (cases e)
  case (Call i req x owner)
  let ?s = "app_view b"
  have guard: "passes_guard req ?s = passes_guard req (settings b)"
    by (rule calls_same(4)) simp
  let ?x = "x\<lparr>receiver_open := (\<lambda>c. c \<notin> closed (lock_side b))\<rparr>"
  have kinds: "released_lease x req ?s = None" and answer: "\<exists>r. serve ?x req (?s, []) = (Answered r, ?s, [])"
    using assms(1) guard
    by (cases rule: serve_cases [of req "(?s, [])" ?x]; auto simp: Call released_lease_def)+
  from assms(2) kinds have "owner = None"
    by (auto simp: Call exec_call_def owner_matches_def split: option.splits if_splits)
  with assms(2) kinds answer show ?thesis
    by (auto simp: Call exec_call_def owner_matches_def give_up_lease_def)
qed (use assms in auto)

text \<open>
  C14: Requests that are refused or only read leave no trace. Take them out of any run of the
  broker, and the rest is a run too, step for step, and ends in the same state: no amount of
  requests with a foreign host name, for unknown paths or methods, or for the status and the
  slots can delay, admit, wake or release anything.
\<close>

theorem refused_leave_no_trace:
  fixes b :: "'c broker" and es :: "('q, 'c) broker_step list"
  assumes "run_broker es b = Some b'"
  shows "run_broker (filter (\<lambda>e. \<not> traceless (settings b) e) es) b = Some b'"
  using assms
proof (induction es arbitrary: b)
  case (Cons e es)
  then obtain b1 where step: "exec_broker e b = Some b1" and rest: "run_broker es b1 = Some b'"
    by (auto split: option.splits simp del: exec_broker.simps)
  have "traceless (settings b1) e' = traceless (settings b) e'" for e' :: "('q, 'c) broker_step"
    by (cases e') (simp_all add: calls_same(4) [OF step_settings [OF step]])
  with Cons.IH [OF rest] have ind: "run_broker (filter (\<lambda>e. \<not> traceless (settings b) e) es) b1 = Some b'"
    by simp
  show ?case
  proof (cases "traceless (settings b) e")
    case True
    with traceless_step [OF True step] ind show ?thesis by simp
  next
    case False
    with step ind show ?thesis by (simp del: exec_broker.simps)
  qed
qed simp

end
