(* ===== verification/Broker_Demo.thy ===== *)
theory Broker_Demo
  imports Broker_System
begin

text \<open>Concrete runs of the whole broker, at which its properties are applied.\<close>

definition demo_broker :: "nat broker" where
  "demo_broker = launched demo_app 2 [1]"

definition acquire_call :: "json http_request" where
  "acquire_call = demo_call ''POST'' ''/gpu-lock/acquire'' Null"

definition foreign_call :: "json http_request" where
  "foreign_call = (demo_call ''POST'' ''/gpu-lock/acquire'' Null)\<lparr>req_host := Some ''evil.example''\<rparr>"

definition chat_request :: "json http_request" where
  "chat_request = demo_call ''POST'' ''/v1/chat/completions'' (Obj [(''messages'', Arr [])])"

lemma demo_passes:
  "passes_guard acquire_call demo_app" "passes_guard chat_request demo_app"
  "\<not> passes_guard foreign_call demo_app"
  by (simp_all add: passes_guard_def acquire_call_def chat_request_def foreign_call_def demo_defs eval_simps)

lemma demo_routes:
  "route (req_method acquire_call) (req_path acquire_call) = Gpu_Acquire"
  "route (req_method chat_request) (req_path chat_request) = Chat_Completions"
  "route (req_method foreign_call) (req_path foreign_call) = Gpu_Acquire"
  by (simp_all add: acquire_call_def chat_request_def foreign_call_def demo_call_def eval_simps)

lemma demo_kinds:
  "chat_body demo_outside acquire_call demo_app = None"
  "asks_for_lock acquire_call demo_app"
  "released_lease demo_outside acquire_call demo_app = None"
  "chat_body demo_outside chat_request demo_app = Some (Obj [(''messages'', Arr [])])"
  "\<not> asks_for_lock chat_request demo_app"
  "released_lease demo_outside chat_request demo_app = None"
  "chat_body demo_outside foreign_call demo_app = None"
  "\<not> asks_for_lock foreign_call demo_app"
  "released_lease demo_outside foreign_call demo_app = None"
  using demo_passes demo_routes
  by (simp_all add: call_kinds)
    (simp add: demo_outside_def demo_extractors_def chat_request_def demo_call_def demo_app_def
      app_of_config_def default_config_def default_max_request_body_bytes_def)

lemma demo_settings: "settings demo_broker = demo_app"
  by (simp add: demo_broker_def)

lemma demo_limits:
  "queue_timeout demo_app = from_secs 60" "gpu_lock_queue_timeout demo_app = from_secs 280"
  "gpu_lock_max_hold demo_app = from_secs 900"
  by (simp_all add: demo_app_def app_of_config_def default_config_def)

lemma demo_calls:
  "settings b = demo_app \<Longrightarrow> exec_call i acquire_call demo_outside None b =
     map_option (\<lambda>w. b\<lparr>lock_side := w\<rparr>)
       (exec_event (gpu_acquire (from_secs 900)) (Spawn i () (from_secs 280)) (lock_side b))"
  "settings b = demo_app \<Longrightarrow> exec_call i chat_request demo_outside None b =
     map_option (\<lambda>c. b\<lparr>chat := c\<rparr>)
       (exec_service (from_secs 60) (Arrive i (Obj [(''messages'', Arr [])])) (chat b))"
  "settings b = demo_app \<Longrightarrow> exec_call i foreign_call demo_outside None b = Some b"
  by (simp_all add: exec_call_acquire exec_call_chat exec_call_refused demo_kinds demo_passes demo_limits
      del: exec_event.simps exec_service.simps)

text \<open>A client takes the lock; meanwhile a chat request is admitted and foreign requests are refused.\<close>

definition lock_run :: "(json, nat) broker_step list" where
  "lock_run = [Call 0 acquire_call demo_outside None, Lock (Poll 0 7), Reap_Tick, Elapse 5]"

definition chat_run :: "(json, nat) broker_step list" where
  "chat_run =
     [Call 5 foreign_call demo_outside None, Call 0 chat_request demo_outside None,
      Chat (Admit 0 (demo_answers (Reply 200 None))), Elapse 5, Call 6 foreign_call demo_outside None]"

lemma demo_lock_run:
  "\<exists>b. run_broker lock_run demo_broker = Some b \<and> held_by (shared (lock_side b)) = Some \<lparr>lease = 7, acquired_at = 0\<rparr> \<and>
     tasks (lock_side b) 0 = Holding 7"
  by (simp add: lock_run_def demo_calls demo_broker_def demo_limits reconcile_interval_def eval_simps)

lemma demo_chat_run:
  "\<exists>b. run_broker chat_run demo_broker = Some b \<and> held_by (shared (lock_side b)) = None"
  by (simp add: chat_run_def demo_calls demo_broker_def demo_limits demo_answers_def eval_simps Let_def)

lemma resources_are_independent_witness:
  "\<exists>b1 b2. run_broker lock_run demo_broker = Some b1 \<and>
     run_broker ([Elapse 5] :: (json, nat) broker_step list) demo_broker = Some b2 \<and>
     chat b1 = chat b2 \<and> held_by (shared (lock_side b1)) \<noteq> None"
proof -
  let ?wait = "[Elapse 5] :: (json, nat) broker_step list"
  obtain b1 where b1: "run_broker lock_run demo_broker = Some b1"
    and h: "held_by (shared (lock_side b1)) = Some \<lparr>lease = 7, acquired_at = 0\<rparr>"
    using demo_lock_run by blast
  have "\<exists>b2. run_broker ?wait demo_broker = Some b2"
    by (simp add: demo_broker_def eval_simps)
  then obtain b2 where b2: "run_broker ?wait demo_broker = Some b2" by blast
  have "concat (map (chat_part (settings demo_broker)) lock_run) =
      concat (map (chat_part (settings demo_broker)) ?wait)"
    by (simp add: lock_run_def demo_settings demo_kinds)
  with resources_are_independent [OF b1 b2] b1 b2 h show ?thesis by auto
qed

abbreviation demo_honest :: "nat broker \<Rightarrow> (json, nat) broker_step \<Rightarrow> bool" where
  "demo_honest \<equiv> honest_step"

lemma demo_lock_reach:
  "\<exists>b. broker_reach demo_honest demo_broker b \<and> tasks (lock_side b) 0 = Holding 7"
proof -
  obtain b where b: "run_broker lock_run demo_broker = Some b" "tasks (lock_side b) 0 = Holding 7"
    using demo_lock_run by blast
  have "allowed_steps demo_honest lock_run demo_broker"
    by (simp add: lock_run_def demo_calls demo_broker_def demo_limits demo_kinds honest_step_def
        reconcile_interval_def eval_simps)
  from broker_reach_run [OF b(1) this broker_reach_start] b(2) show ?thesis by blast
qed

lemma broker_refines_parts_witness:
  "\<exists>b. tasks (lock_side b) 0 = Holding 7 \<and> lock_reach (from_secs 900) (lock_side b) \<and>
     serviced (from_secs 60) 2 [1] (chat (b :: nat broker))"
proof -
  obtain b where r: "broker_reach demo_honest (launched demo_app 2 [1]) b"
    and h: "tasks (lock_side b) 0 = Holding 7"
    using demo_lock_reach unfolding demo_broker_def by blast
  from broker_refines_parts [OF r] h show ?thesis by (auto simp: demo_limits)
qed

lemma refused_leave_no_trace_witness:
  "\<exists>b. run_broker chat_run demo_broker = Some b \<and>
     run_broker [Call 0 chat_request demo_outside None, Chat (Admit 0 (demo_answers (Reply 200 None))),
       Elapse 5] demo_broker = Some b"
proof -
  obtain b where b: "run_broker chat_run demo_broker = Some b" using demo_chat_run by blast
  have "filter (\<lambda>e. \<not> traceless (settings demo_broker) e) chat_run =
      [Call 0 chat_request demo_outside None, Chat (Admit 0 (demo_answers (Reply 200 None))), Elapse 5]"
    by (simp add: chat_run_def demo_settings demo_passes demo_routes)
  with refused_leave_no_trace [OF b] b show ?thesis by auto
qed

end
