(* ===== verification/Broker_Safety.thy ===== *)
theory Broker_Safety
  imports Broker_Demo
begin

text \<open>
  From the command line to every state the broker can get into: the broker that \<^verbatim>\<open>main\<close> starts,
  and what holds of its slots and its lock whatever happens.
\<close>

text \<open>The running broker that \<^verbatim>\<open>main\<close> leads to, if start-up succeeds.\<close>

definition launch :: "'e surroundings \<Rightarrow> 'c broker option" where
  "launch x =
     (case (parse_config (arguments x), main_start x) of
        (Some c, Inr (app, addr)) \<Rightarrow>
          (case fetch_slots (slots_reply x c) of
             Inl _ \<Rightarrow> None
           | Inr ss \<Rightarrow>
               Some (launched app (of_nat (length ss)) (map llama_slot_id (filter is_processing ss))))
      | _ \<Rightarrow> None)"

text \<open>The state that the handlers see at first is the one that \<^verbatim>\<open>main\<close> has built.\<close>

lemma launch_cases:
  assumes "launch x = Some b" and "parse_config (arguments x) = Some c"
  obtains ss st where "fetch_slots (slots_reply x c) = Inr ss"
    and "start_scheduler (slots_reply x c) = Inr st"
    and "main_start x = Inr (app_of_config c st, listen_address c)"
    and "b = launched (app_of_config c st) (of_nat (length ss)) (map llama_slot_id (filter is_processing ss))"
    and "app_view b = app_of_config c st"
proof -
  obtain app addr ss where m: "main_start x = Inr (app, addr)" and ss: "fetch_slots (slots_reply x c) = Inr ss"
    and b: "b = launched app (of_nat (length ss)) (map llama_slot_id (filter is_processing ss))"
    using assms by (auto simp: launch_def split: sum.splits prod.splits option.splits)
  from m assms(2) obtain st where st: "start_scheduler (slots_reply x c) = Inr st"
    and app: "app = app_of_config c st" "addr = listen_address c"
    by (auto simp: main_start_def split: option.splits sum.splits)
  have "st = seeded_scheduler (of_nat (length ss)) (map llama_slot_id (filter is_processing ss))"
    using st ss by (simp add: start_scheduler_def seeded_scheduler_def fold_filtered)
  then have "app_view b = app_of_config c st"
    by (simp add: b app app_view_def app_of_config_def service_start_def broker_start_def
        lock_start_def start_world_def)
  with that ss st m b app show ?thesis by blast
qed

lemma launch_launched:
  assumes "launch x = Some b" and "parse_config (arguments x) = Some c"
  shows "\<exists>(ss :: llama_slot list) st. b = launched (app_of_config c st) (of_nat (length ss))
    (map llama_slot_id (filter is_processing ss))"
  by (rule launch_cases [OF assms]) blast

text \<open>
  C1: The broker is safe from start to end. Whatever arguments and libraries it was started with, if
  it comes to serve, then in every state it ever gets into: each slot that a request occupies is
  occupied by exactly one request, and each request that was granted a slot occupies it; while the
  lock is held exactly one client has the lease that holds it, and while it is free nobody is left in its
  queue; the limits in force are those of the command line, and a client of the broker's own
  address is not refused.
\<close>

theorem broker_is_safe:
  assumes "launch x = Some b0" and "parse_config (arguments x) = Some c"
    and "broker_reach (honest_step :: 'c broker \<Rightarrow> ('q, 'c) broker_step \<Rightarrow> bool) b0 b"
  shows "(\<forall>k<length (slots (scheduler (app_view b))). pool (scheduler (app_view b)) ! k = Owned \<longrightarrow>
      (\<exists>!i. \<exists>a. tasks (net (chat b)) i = Holding a \<and> unat (slot_id a) = k)) \<and>
    (\<forall>i a. tasks (net (chat b)) i = Holding a \<longrightarrow>
      unat (slot_id a) < length (slots (scheduler (app_view b))) \<and>
      pool (scheduler (app_view b)) ! unat (slot_id a) = Owned) \<and>
    (case held_by (gpu_lock (app_view b)) of
       Some h \<Rightarrow> \<exists>!i. tasks (lock_side b) i = Holding (lease h)
     | None \<Rightarrow> lock_waiters (gpu_lock (app_view b)) = []) \<and>
    queue_timeout (app_view b) = from_secs (unat (queue_timeout_secs c)) \<and>
    gpu_lock_queue_timeout (app_view b) = from_secs (unat (gpu_lock_queue_timeout_secs c)) \<and>
    gpu_lock_max_hold (app_view b) = from_secs (unat (gpu_lock_max_hold_secs c)) \<and>
    host_is_allowed (listen_address c) (app_allowed_hosts (app_view b))"
proof -
  obtain ss :: "llama_slot list" and st where b0: "b0 = launched (app_of_config c st) (of_nat (length ss))
      (map llama_slot_id (filter is_processing ss))"
    using launch_launched [OF assms(1,2)] by blast
  note parts = broker_parts [OF assms(3) [unfolded b0]]
  have view: "scheduler (app_view b) = shared (net (chat b))" "gpu_lock (app_view b) = shared (lock_side b)"
    by (simp_all add: app_view_def)
  have same: "same_settings (app_of_config c st) (app_view b)"
    using parts same_settings_view same_settings_trans by blast
  have own: "owned_by (pool (shared (net (chat b)))) (tasks (net (chat b)))"
    using sched_reach_owns [OF service_refines_scheduler_reach] parts by (auto simp: owns_ok_def)
  have unique: "\<exists>!i. \<exists>a. tasks (net (chat b)) i = Holding a \<and> unat (slot_id a) = k"
    if "k < length (pool (shared (net (chat b))))" "pool (shared (net (chat b))) ! k = Owned" for k
    using own that unfolding owned_by_def by (metis word_unat_eq_iff)
  have len: "length (pool (shared (net (chat b)))) = length (slots (shared (net (chat b))))"
    by (simp add: pool_def)
  have "lock_ok (lock_side b)" using lock_reach_ok parts by blast
  then have "case held_by (shared (lock_side b)) of
      Some h \<Rightarrow> \<exists>!i. tasks (lock_side b) i = Holding (lease h)
    | None \<Rightarrow> lock_waiters (shared (lock_side b)) = []"
    unfolding lock_ok_def by (cases "held_by (shared (lock_side b))") (simp, simp, metis)
  with own unique len show ?thesis
    unfolding view same_settings_fields [OF same] owned_by_def
    by (auto simp: app_of_config_def own_address_allowed)
qed

text \<open>The broker of a command line, with an llama-server of two slots; a client takes the lock.\<close>

definition demo_surroundings :: "nat surroundings" where
  "demo_surroundings =
     \<lparr>arguments = plain_reader [(''llama-server-url'', ''http://127.0.0.1:8080''),
        (''kvcache-store-path'', ''/kv'')],
      client_failure = None, network = (\<lambda>_ _. Reply 200 (Some demo_slots)),
      store_failure = (\<lambda>_ _ _. None), bind_failure = (\<lambda>_. None)\<rparr>"

lemma demo_config_parsed:
  "parse_config (arguments demo_surroundings) = Some (default_config ''http://127.0.0.1:8080'' ''/kv'')"
  by (simp add: demo_surroundings_def parse_config_def option_value_def plain_reader_def default_config_def)

lemma demo_launch: "\<exists>b :: nat broker. launch demo_surroundings = Some b"
  by (simp add: launch_def main_start_def demo_config_parsed, simp add: demo_surroundings_def
      slots_reply_def start_scheduler_def demo_slots_def eval_simps)

lemma broker_is_safe_witness:
  "\<exists>b :: nat broker. tasks (lock_side b) 0 = Holding 7 \<and>
     (\<exists>!i. tasks (lock_side b) i = Holding 7)"
proof -
  let ?c = "default_config ''http://127.0.0.1:8080'' ''/kv''"
  obtain b0 :: "nat broker" where l: "launch demo_surroundings = Some b0" using demo_launch by blast
  obtain ss :: "llama_slot list" and st where b0: "b0 = launched (app_of_config ?c st) (of_nat (length ss))
      (map llama_slot_id (filter is_processing ss))"
    using launch_launched [OF l demo_config_parsed] by blast
  let ?es = "[Call 0 acquire_call demo_outside None, Lock (Poll 0 7)] :: (json, nat) broker_step list"
  have "same_settings demo_app (settings b0)"
    by (simp add: b0 same_settings_def demo_app_def app_of_config_def)
  note same = calls_same [OF this] same_settings_fields [OF this]
  have asks: "asks_for_lock acquire_call (settings b0)" "released_lease demo_outside acquire_call (settings b0) = None"
    by (simp_all add: same demo_kinds)
  have lock: "lock_side b0 = lock_start" by (simp add: b0)
  have run: "\<exists>b. run_broker ?es b0 = Some b \<and> tasks (lock_side b) 0 = Holding 7 \<and>
      held_by (shared (lock_side b)) = Some \<lparr>lease = 7, acquired_at = 0\<rparr>"
    by (simp add: exec_call_acquire [OF asks(1)] lock eval_simps)
  then obtain b where b: "run_broker ?es b0 = Some b" "tasks (lock_side b) 0 = Holding 7"
    "held_by (shared (lock_side b)) = Some \<lparr>lease = 7, acquired_at = 0\<rparr>" by blast
  have "allowed_steps demo_honest ?es b0"
    by (simp add: exec_call_acquire [OF asks(1)] honest_step_def asks lock eval_simps)
  from broker_reach_run [OF b(1) this broker_reach_start]
  have "broker_reach demo_honest b0 b" .
  from broker_is_safe [OF l demo_config_parsed this] b(2,3) show ?thesis
    by (auto simp: app_view_def)
qed

end
