(* ===== verification/Broker_Time.thy ===== *)
theory Broker_Time
  imports Broker_Demo
begin

text \<open>
  What the two background tasks guarantee in the whole broker when they run on time: a bound on
  how long a crashed client keeps the GPU lock, and on how long a slot that was in use at a
  restart stays out of reach after llama-server is done with it.
\<close>

section \<open>Runs on time\<close>

definition timely :: "duration \<Rightarrow> 'c broker \<Rightarrow> ('q, 'c) broker_step \<Rightarrow> bool" where
  "timely slack b e \<longleftrightarrow>
     honest_step b e \<and>
     (case e of
        Elapse d \<Rightarrow>
          clock_of b + d \<le> poller_limit slack (poller b) \<and>
          clock_of b + d \<le> reaper_limit slack (reaper b)
      | _ \<Rightarrow> True)"

lemma timely_honest: "timely slack b e \<Longrightarrow> honest_step b e"
  by (simp add: timely_def)

text \<open>Only its own steps move a background task.\<close>

lemma step_reaper:
  assumes "exec_broker e b = Some b'" and "e \<noteq> Reap_Tick"
  shows "reaper b' = reaper b"
proof (cases e)
  case (Call i req x owner)
  with assms have "exec_call i req x owner b = Some b'" by simp
  then show ?thesis by (cases rule: exec_call_cases) simp_all
qed (use assms in \<open>auto simp: on_chat_def on_lock_def split: if_splits option.splits bind_splits
      simp del: exec_service.simps exec_event.simps\<close>)

lemma step_poller:
  assumes "exec_broker e b = Some b'"
    and "e \<noteq> Poll_Tick" and "\<And>r. e \<noteq> Poll_Reply r" and "\<And>k. e \<noteq> Poll_Apply k"
  shows "poller b' = poller b"
proof (cases e)
  case (Call i req x owner)
  with assms have "exec_call i req x owner b = Some b'" by simp
  then show ?thesis by (cases rule: exec_call_cases) simp_all
qed (use assms in \<open>auto simp: on_chat_def on_lock_def split: if_splits option.splits bind_splits
      simp del: exec_service.simps exec_event.simps\<close>)

section \<open>The lock\<close>

lemma held_step:
  assumes "exec_event (gpu_acquire m) e w = Some w'" and "held_by (shared w') = Some h"
  shows "held_by (shared w) = Some h \<or> acquired_at h = now w"
  using assms(1)
proof (cases rule: exec_event_cases)
  case (tried i l u dl)
  with assms(2) show ?thesis
    by (cases rule: lock_try_cases [of "settled i w" m l i u dl]) (auto simp: push_waiter_def)
next
  case (finished i l)
  with assms(2) show ?thesis
    by (cases rule: lock_operate_cases [of m "now w" "Release_Lease l" "\<lambda>c. c \<notin> closed w" "shared w"])
      (auto simp del: lock_operate.simps)
next
  case (other f)
  with assms(2) show ?thesis
    by (cases rule: lock_operate_cases [of m "now w" f "\<lambda>c. c \<notin> closed w" "shared w"])
      (auto simp del: lock_operate.simps)
qed (use assms(2) in auto)

lemma held_broker_step:
  assumes "exec_broker e b = Some b'" and "held_by (shared (lock_side b')) = Some h"
  shows "held_by (shared (lock_side b)) = Some h \<or> acquired_at h = now (lock_side b)"
  using step_lock [OF assms(1)] lock_part_short [of "settings b" e] assms(2)
  by (auto split: option.splits dest: held_step simp del: exec_event.simps)

definition reaper_ok :: "duration \<Rightarrow> duration \<Rightarrow> 'c broker \<Rightarrow> bool" where
  "reaper_ok m slack b \<longleftrightarrow>
     now (lock_side b) \<le> reaper_limit slack (reaper b) \<and>
     (case reaper b of
        None \<Rightarrow> True
      | Some due \<Rightarrow>
          due \<le> now (lock_side b) + reconcile_interval \<and>
          (\<forall>h. held_by (shared (lock_side b)) = Some h \<longrightarrow>
             due \<le> acquired_at h + m + reconcile_interval))"

lemma reaper_ok_step:
  assumes ok: "reaper_ok m slack b" and m: "gpu_lock_max_hold (settings b) = m"
    and sync: "now (lock_side b) = clock_of b"
    and timely: "timely slack b e" and step: "exec_broker e b = Some b'"
  shows "reaper_ok m slack b'"
proof (cases "e = Reap_Tick")
  case True
  with step obtain due where due: "reaper_tick (clock_of b) (reaper b) = Some due"
    and b': "on_lock (Operate Reap) (b\<lparr>reaper := Some due\<rparr>) = Some b'"
    by (auto split: option.splits)
  let ?w = "perform (gpu_acquire m) Reap (lock_side b)"
  from b' m have b': "b' = b\<lparr>reaper := Some due, lock_side := ?w\<rparr>" by (simp add: on_lock_def)
  have t: "now ?w = now (lock_side b)"
    using clock_step [of "gpu_acquire m" "Operate Reap" "lock_side b" ?w] by simp
  from due ok sync have d: "due \<le> now (lock_side b) + reconcile_interval"
      "now (lock_side b) \<le> due + slack"
    by (auto simp: reaper_tick_def reaper_ok_def reaper_limit_def split: option.splits if_splits)
  have "now (lock_side b) \<le> acquired_at h + m" if "held_by (shared ?w) = Some h" for h
    using reap_clears_overdue [of m "lock_side b"] that t by (simp add: overdue_def)
  with d show ?thesis
    by (fastforce simp: reaper_ok_def b' t reaper_limit_def)
next
  case False
  have same: "reaper b' = reaper b" by (rule step_reaper [OF step False])
  note clock = step_clocks(1) [OF step]
  have limit: "now (lock_side b') \<le> reaper_limit slack (reaper b)"
    using ok timely clock sync by (cases e) (auto simp: reaper_ok_def timely_def)
  show ?thesis
  proof (cases "reaper b")
    case None
    with limit show ?thesis by (simp add: reaper_ok_def same)
  next
    case (Some due)
    with ok have due: "due \<le> now (lock_side b) + reconcile_interval"
      and held: "\<And>h. held_by (shared (lock_side b)) = Some h \<Longrightarrow> due \<le> acquired_at h + m + reconcile_interval"
      by (auto simp: reaper_ok_def)
    have "due \<le> acquired_at h + m + reconcile_interval" if "held_by (shared (lock_side b')) = Some h" for h
      using held_broker_step [OF step that] held due by auto
    with due limit clock Some show ?thesis by (simp add: reaper_ok_def same)
  qed
qed

text \<open>A reachable state on time is reachable, so what Broker_System shows holds of it.\<close>

lemma timely_parts:
  fixes P :: "'c broker \<Rightarrow> ('q, 'c) broker_step \<Rightarrow> bool"
  assumes "broker_reach (\<lambda>b e. timely slack b e \<and> P b e) (launched s n ks) b"
  shows "serviced (queue_timeout s) n ks (chat b)" "lock_reach (gpu_lock_max_hold s) (lock_side b)"
    "now (lock_side b) = clock_of b" "gpu_lock_max_hold (settings b) = gpu_lock_max_hold s"
    "queue_timeout (settings b) = queue_timeout s"
proof -
  have "broker_reach (honest_step :: 'c broker \<Rightarrow> ('q, 'c) broker_step \<Rightarrow> bool) (launched s n ks) b"
    using assms by (rule broker_reach_mono) (blast intro: timely_honest)
  note parts = broker_parts [OF this]
  from parts show "serviced (queue_timeout s) n ks (chat b)"
    "lock_reach (gpu_lock_max_hold s) (lock_side b)" "now (lock_side b) = clock_of b" by simp_all
  from parts show "gpu_lock_max_hold (settings b) = gpu_lock_max_hold s"
    "queue_timeout (settings b) = queue_timeout s"
    using same_settings_fields by blast+
qed

text \<open>
  C7: A crashed client cannot block the lock for long. In the whole broker, if a background
  task whose timer has fired runs within \<open>slack\<close>, then no lease holds the lock for more than the
  configured maximum plus one interval of the reaper plus \<open>slack\<close>, whether or not its client ever
  comes back and whatever else the broker has to do.
\<close>

theorem lock_hold_is_bounded:
  assumes "broker_reach (timely slack :: 'c broker \<Rightarrow> ('q, 'c) broker_step \<Rightarrow> bool)
      (launched s n ks) b"
    and "held_by (shared (lock_side b)) = Some h"
  shows "acquired_at h \<le> clock_of b \<and>
    clock_of b \<le> acquired_at h + gpu_lock_max_hold s + reconcile_interval + slack"
proof -
  let ?m = "gpu_lock_max_hold s"
  have reach: "broker_reach (\<lambda>b (e :: ('q, 'c) broker_step). timely slack b e \<and> True) (launched s n ks) b"
    using assms(1) by simp
  from reach have "reaper_ok ?m slack b"
  proof (induction rule: broker_reach.induct)
    case broker_reach_start
    show ?case by (simp add: reaper_ok_def reaper_limit_def)
  next
    case (broker_reach_step b e b')
    then show ?case
      using timely_parts(3,4) [OF broker_reach_step.hyps(1)] reaper_ok_step by blast
  qed
  moreover have "acquired_at h \<le> clock_of b"
    using lock_reach_ok [OF timely_parts(2) [OF reach]] timely_parts(3) [OF reach] assms(2)
    by (simp add: lock_ok_def)
  ultimately show ?thesis
    using timely_parts(3) [OF reach] assms(2)
    by (auto simp: reaper_ok_def reaper_limit_def split: option.splits)
qed

section \<open>The slots in use at the start\<close>

text \<open>
  From \<open>T\<close> on llama-server, asked for its slots, answers and reports the slot \<open>k\<close> idle.
\<close>

definition reported_from :: "instant \<Rightarrow> u32 \<Rightarrow> 'c broker \<Rightarrow> ('q, 'c) broker_step \<Rightarrow> bool" where
  "reported_from T k b e \<longleftrightarrow>
     (case e of
        Poll_Reply r \<Rightarrow>
          (case poller b of Fetching began due \<Rightarrow> T \<le> began \<longrightarrow> reported_idle r (unat k) | _ \<Rightarrow> True)
      | _ \<Rightarrow> True)"

text \<open>
  Where the reconciliation is while the slot is still out of reach: the poll that finds it idle is
  not overdue, or its answer is being gone through and the slot is still to come.
\<close>

definition poller_ok :: "instant \<Rightarrow> duration \<Rightarrow> u32 \<Rightarrow> 'c broker \<Rightarrow> bool" where
  "poller_ok T slack k b \<longleftrightarrow>
     (let I = reconcile_interval; B = T + I + slack; out = seeded_at k (net (chat b))
      in clock_of b \<le> poller_limit slack (poller b) \<and>
         (case poller b of
            Starting \<Rightarrow> True
          | Sleeping due \<Rightarrow> out \<longrightarrow> due \<le> B
          | Fetching began due \<Rightarrow> I \<le> due \<and> due \<le> began + I \<and> (out \<longrightarrow> due \<le> B + I)
          | Applying ks due \<Rightarrow>
              I \<le> due \<and> ks \<noteq> [] \<and> (out \<longrightarrow> due \<le> B \<or> k \<in> set ks \<and> due \<le> B + I)))"

lemma reported_idle_ids: "reported_idle r (unat k) \<longleftrightarrow> k \<in> set (idle_ids r)"
  by (auto simp: reported_idle_def idle_ids_def list_ex_iff image_iff word_unat_eq_iff split: sum.splits)

lemma clock_of_poller [simp]: "clock_of (b\<lparr>poller := p\<rparr>) = clock_of b"
  by (simp add: clock_of_def)

lemma poller_ok_move:
  assumes ok: "poller_ok T slack k b" and timely: "timely slack b e"
    and reported: "reported_from T k b e" and step: "exec_broker e b = Some b'"
    and out: "seeded_at k (net (chat b')) \<longleftrightarrow>
      seeded_at k (net (chat b)) \<and> Reconcile_Slot k \<notin> set (chat_part (settings b) e)"
  shows "poller_ok T slack k b'"
proof -
  note clock = step_clocks(2) [OF step]
  show ?thesis
  proof (cases e)
    case Poll_Tick
    with step obtain p where p: "poller_tick (clock_of b) (poller b) = Some p" and b': "b' = b\<lparr>poller := p\<rparr>"
      by auto
    have c: "clock_of b' = clock_of b" using clock Poll_Tick by simp
    show ?thesis
    proof (cases "poller b")
      case Starting
      with p ok have "p = Sleeping (clock_of b + reconcile_interval)" "clock_of b \<le> slack"
        by (simp_all add: poller_tick_def poller_ok_def poller_limit_def)
      then show ?thesis by (simp add: poller_ok_def c, simp add: b' poller_limit_def)
    next
      case (Sleeping due)
      with p have "p = Fetching (clock_of b) (due + reconcile_interval)" "due \<le> clock_of b"
        by (simp_all add: poller_tick_def split: if_splits)
      with ok Sleeping show ?thesis
        by (simp add: poller_ok_def c Let_def, simp add: b' poller_limit_def)
    qed (use p in \<open>simp_all add: poller_tick_def\<close>)
  next
    case (Poll_Reply r)
    with step obtain began due where f: "poller b = Fetching began due"
      and b': "b' = b\<lparr>poller := applying (idle_ids r) due\<rparr>"
      by (cases "poller b") (auto simp: poller_reply_def)
    have c: "clock_of b' = clock_of b" using clock Poll_Reply by simp
    from reported Poll_Reply f have k: "T \<le> began \<Longrightarrow> k \<in> set (idle_ids r)"
      by (simp add: reported_from_def reported_idle_ids)
    from ok f k show ?thesis
      by (cases "idle_ids r = []"; cases "T \<le> began")
        (auto simp: poller_ok_def c Let_def b' applying_def poller_limit_def)
  next
    case (Poll_Apply j)
    with step obtain ks due where f: "poller b = Applying ks due" and j: "hd ks = j"
      and p: "poller b' = applying (tl ks) due"
      by (cases "poller b") (auto simp: poller_apply_def on_chat_def split: if_splits
          simp del: exec_service.simps)
    have c: "clock_of b' = clock_of b" using clock Poll_Apply by simp
    from ok f have "ks \<noteq> []" by (simp add: poller_ok_def Let_def)
    then have "ks = j # tl ks" using j by (metis list.collapse)
    with out have k: "seeded_at k (net (chat b')) \<Longrightarrow> k \<in> set ks \<Longrightarrow> k \<in> set (tl ks)"
      by (cases ks) (auto simp: Poll_Apply)
    from ok f k out show ?thesis
      by (cases "tl ks = []") (auto simp: poller_ok_def c Let_def p applying_def poller_limit_def Poll_Apply)
  next
    case (Elapse d)
    have p: "poller b' = poller b" by (rule step_poller [OF step]) (simp_all add: Elapse)
    from timely Elapse clock have "clock_of b' \<le> poller_limit slack (poller b)"
      by (simp add: timely_def)
    with ok out show ?thesis by (auto simp: poller_ok_def p Let_def split: poller.split)
  qed (use ok out clock step_poller [OF step] in
      \<open>auto simp: poller_ok_def Let_def split: poller.split\<close>)
qed

text \<open>
  C6: Restarts do not cost capacity. In the whole broker, let a slot be in use at the start and let
  llama-server, from \<open>T\<close> on, answer every poll and report the slot idle. If the reconciliation,
  when its timer fires, gets through a round within \<open>slack\<close>, then the slot is out of the reach of
  requests no longer than one interval and twice \<open>slack\<close> after \<open>T\<close>.
\<close>

theorem slot_recovery_is_bounded:
  assumes "broker_reach (\<lambda>b e :: ('q, 'c) broker_step. timely slack b e \<and> reported_from T k b e)
      (launched s n ks) b"
    and "unat k < unat n" and "pool (shared (net (chat b))) ! unat k = Seeded"
  shows "clock_of b \<le> T + reconcile_interval + 2 * slack"
proof -
  from assms(1) have "poller_ok T slack k b"
  proof (induction rule: broker_reach.induct)
    case broker_reach_start
    show ?case by (simp add: poller_ok_def poller_limit_def Let_def)
  next
    case (broker_reach_step b e b')
    have "seeded_at k (net (chat b')) \<longleftrightarrow>
        seeded_at k (net (chat b)) \<and> Reconcile_Slot k \<notin> set (chat_part (settings b) e)"
    proof (rule seeded_at_run [OF _ _ assms(2)])
      show "serviced (queue_timeout s) n ks (chat b)"
        by (rule timely_parts(1) [OF broker_reach_step.hyps(1)])
      show "run_service (queue_timeout s) (chat_part (settings b) e) (chat b) = Some (chat b')"
        using step_chat [OF broker_reach_step.hyps(3)] timely_parts(5) [OF broker_reach_step.hyps(1)]
        by simp
    qed
    with broker_reach_step show ?case by (blast intro: poller_ok_move)
  qed
  with assms(3) show ?thesis
    by (auto simp: poller_ok_def Let_def seeded_at_def poller_limit_def split: poller.splits)
qed

section \<open>Both at concrete runs\<close>

abbreviation demo_timely :: "nat broker \<Rightarrow> (json, nat) broker_step \<Rightarrow> bool" where
  "demo_timely \<equiv> timely 5"

lemma lock_hold_is_bounded_witness:
  "\<exists>b :: nat broker. held_by (shared (lock_side b)) = Some \<lparr>lease = 7, acquired_at = 0\<rparr> \<and>
     clock_of b \<le> from_secs 910 + 5"
proof -
  obtain b where b: "run_broker lock_run demo_broker = Some b"
    and h: "held_by (shared (lock_side b)) = Some \<lparr>lease = 7, acquired_at = 0\<rparr>"
    using demo_lock_run by blast
  have "allowed_steps demo_timely lock_run demo_broker"
    by (simp add: lock_run_def demo_calls demo_broker_def demo_limits demo_kinds honest_step_def timely_def
        reconcile_interval_def eval_simps)
  from broker_reach_run [OF b this broker_reach_start]
  have r: "broker_reach demo_timely (launched demo_app 2 [1]) b" by (simp add: demo_broker_def)
  from lock_hold_is_bounded [OF r h] h show ?thesis
    by (auto simp: demo_limits reconcile_interval_def from_secs_def)
qed

text \<open>Slot 1 is in use at the start; at the first poll it is idle, but not yet given back.\<close>

definition recovery_run :: "(json, nat) broker_step list" where
  "recovery_run =
     [Poll_Tick, Reap_Tick, Elapse reconcile_interval, Poll_Tick,
      Poll_Reply (Reply 200 (Some demo_slots))]"

lemma slot_recovery_is_bounded_witness:
  "\<exists>b :: nat broker. pool (shared (net (chat b))) ! 1 = Seeded \<and>
     clock_of b = reconcile_interval \<and> clock_of b \<le> reconcile_interval + 10"
proof -
  let ?ok = "\<lambda>b (e :: (json, nat) broker_step). timely 5 b e \<and> reported_from 0 1 b e"
  have "\<exists>b. run_broker recovery_run demo_broker = Some b \<and>
      pool (shared (net (chat b))) ! 1 = Seeded \<and> clock_of b = reconcile_interval"
    by (simp add: recovery_run_def demo_broker_def pool_def status_of_def eval_simps)
  then obtain b where b: "run_broker recovery_run demo_broker = Some b"
    and p: "pool (shared (net (chat b))) ! 1 = Seeded" and c: "clock_of b = reconcile_interval"
    by blast
  have "allowed_steps ?ok recovery_run demo_broker"
    by (simp add: recovery_run_def demo_broker_def timely_def honest_step_def reported_from_def
        reported_idle_def demo_slots_def eval_simps)
  from broker_reach_run [OF b this broker_reach_start]
  have r: "broker_reach ?ok (launched demo_app 2 [1]) b" by (simp add: demo_broker_def)
  from slot_recovery_is_bounded [OF r] p c show ?thesis by auto
qed

end
