(* ===== verification/Timed_Calls.thy ===== *)
theory Timed_Calls
  imports Wait_Loop
begin

text \<open>
  The waiting loop with timers that are acted on: a step that stays possible is taken within
  some slack. From it, and from what the loop's steps do, follows that a call is over soon after
  its timeout, and not before.
\<close>

section \<open>Prompt steps\<close>

text \<open>\<open>enabled step P b\<close>: in \<open>b\<close> some step of the kind \<open>P\<close> is possible.\<close>

definition enabled :: "('e \<Rightarrow> 'b \<Rightarrow> 'b option) \<Rightarrow> ('e \<Rightarrow> bool) \<Rightarrow> 'b \<Rightarrow> bool" where
  "enabled step P b \<longleftrightarrow> (\<exists>e. P e \<and> step e b \<noteq> None)"

text \<open>
  \<open>late\<close> is for how long a step of the kind \<open>P\<close> has been possible without one being taken. A run
  is prompt if that is never longer than \<open>slack\<close>. Nothing is asked while no such
  step is possible, except that the passing of time is cut into pieces of at most \<open>slack\<close>.
\<close>

fun prompt_from ::
  "('e \<Rightarrow> 'b \<Rightarrow> 'b option) \<Rightarrow> ('e \<Rightarrow> duration) \<Rightarrow> duration \<Rightarrow> ('e \<Rightarrow> bool) \<Rightarrow> duration \<Rightarrow>
     'e list \<Rightarrow> 'b \<Rightarrow> bool" where
  "prompt_from step lapse slack P late [] b \<longleftrightarrow> True"
| "prompt_from step lapse slack P late (e # es) b \<longleftrightarrow>
     (let late' = (if enabled step P b \<and> \<not> P e then late + lapse e else 0)
      in lapse e \<le> slack \<and> late' \<le> slack \<and>
         (case step e b of
            None \<Rightarrow> True
          | Some b' \<Rightarrow> prompt_from step lapse slack P late' es b'))"

fun run_steps :: "('e \<Rightarrow> 'b \<Rightarrow> 'b option) \<Rightarrow> 'e list \<Rightarrow> 'b \<Rightarrow> 'b option" where
  "run_steps step [] b = Some b"
| "run_steps step (e # es) b =
     (case step e b of None \<Rightarrow> None | Some b' \<Rightarrow> run_steps step es b')"

section \<open>The moves of one call\<close>

definition decided :: "('q, 'g) task \<Rightarrow> bool" where
  "decided t \<longleftrightarrow> (\<exists>g. t = Holding g) \<or> t = TimedOut \<or> t = Gone"

lemma call_moves [consumes 1, case_names same called waits again timed_out over]:
  assumes "exec_event R e w = Some w'"
  obtains (same) "tasks w' i = tasks w i"
  | (called) q t where "tasks w i = Unborn" and "tasks w' i = Fresh q t" and "now w' = now w"
  | (waits) q t c where "tasks w i = Fresh q t" and "tasks w' i = Waiting q (now w + t) c"
      and "now w' = now w"
  | (again) q d c c' where "tasks w i = Waiting q d c" and "tasks w' i = Waiting q d c'"
      and "now w' = now w"
  | (timed_out) q d c where "tasks w i = Waiting q d c" and "tasks w' i = TimedOut"
      and "d \<le> now w" and "now w' = now w"
  | (over) "decided (tasks w' i)" and "tasks w' i \<noteq> TimedOut" and "tasks w i \<noteq> Unborn"
proof (cases e)
  case (Poll j x)
  show ?thesis
  proof (cases "i = j")
    case True
    with assms Poll show ?thesis
      by (cases "tasks w j")
        (auto simp: try_once_def set_task_def close_rx_def decided_def split: if_splits option.splits
          intro: waits again over)
  next
    case False
    with assms Poll show ?thesis
      by (intro same) (auto simp: try_once_def set_task_def close_rx_def
          split: if_splits option.splits task.splits)
  qed
next
  case (Expire j)
  with assms show ?thesis
    by (cases "i = j") (auto simp: set_task_def close_rx_def split: task.splits if_splits
        intro: same timed_out)
next
  case (Operate f)
  with assms show ?thesis by (intro same) (auto simp: perform_def split: prod.splits)
next
  case (Spawn j q t)
  with assms show ?thesis
    by (cases "i = j") (auto simp: set_task_def split: task.splits intro: same called)
next
  case (Abandon j)
  with assms show ?thesis
    by (cases "i = j") (auto simp: set_task_def close_rx_def decided_def split: task.splits
        intro: same over)
next
  case (Finish j)
  with assms show ?thesis
    by (cases "i = j") (auto simp: set_task_def perform_def decided_def split: task.splits prod.splits
        intro: same over)
next
  case (Tick d)
  with assms show ?thesis by (intro same) auto
qed

lemma clock_mono: "exec_event R e w = Some w' \<Longrightarrow> now w \<le> now w'"
  by (simp add: clock_step)

section \<open>A call in a larger system\<close>

text \<open>
  A system in which one call of the loop is seen through \<open>view\<close>: \<open>polls\<close> are the steps that poll
  the call, \<open>timers\<close> those that act on its timeout. What the system owes: the poll of a new call
  and the timeout of one that is due are always possible, and do what they say.
\<close>

locale timed_call =
  fixes step :: "'e \<Rightarrow> 'b \<Rightarrow> 'b option"
    and lapse :: "'e \<Rightarrow> duration"
    and R :: "'b \<Rightarrow> ('s, 'q, 'g, 'x, 'f) resource"
    and view :: "'b \<Rightarrow> ('s, 'q, 'g) world"
    and polls :: "'e \<Rightarrow> bool"
    and timers :: "'e \<Rightarrow> bool"
    and i :: nat
  assumes step_view: "step e b = Some b' \<Longrightarrow>
      view b' = view b \<or> (\<exists>e'. exec_event (R b) e' (view b) = Some (view b'))"
    and step_clock: "step e b = Some b' \<Longrightarrow> now (view b') = now (view b) + lapse e"
    and poll_possible: "tasks (view b) i = Fresh q t \<Longrightarrow> enabled step polls b"
    and poll_done: "polls e \<Longrightarrow> step e b = Some b' \<Longrightarrow> tasks (view b') i \<noteq> Fresh q t"
    and timer_possible: "tasks (view b) i = Waiting q d c \<Longrightarrow> d \<le> now (view b) \<Longrightarrow>
      enabled step timers b"
    and timer_done: "timers e \<Longrightarrow> step e b = Some b' \<Longrightarrow> decided (tasks (view b') i)"
begin

text \<open>
  The call was made at \<open>T\<close> with the timeout \<open>t\<close>; its first poll is late by \<open>lp\<close>, its timeout
  by \<open>lt\<close>.
\<close>

definition within_slack :: "instant \<Rightarrow> duration \<Rightarrow> duration \<Rightarrow> duration \<Rightarrow> duration \<Rightarrow> 'b \<Rightarrow> bool" where
  "within_slack T t slack lp lt b \<longleftrightarrow>
     (case tasks (view b) i of
        Unborn \<Rightarrow> False
      | Fresh q t' \<Rightarrow> t' = t \<and> now (view b) \<le> T + lp
      | Waiting q d c \<Rightarrow> d \<le> T + slack + t \<and> now (view b) \<le> d + slack + lt
      | _ \<Rightarrow> True)"

lemma step_moves [consumes 2, case_names same waits again over]:
  assumes "step e b = Some b'" and "tasks (view b) i \<noteq> Unborn"
  obtains (same) "tasks (view b') i = tasks (view b) i"
  | (waits) q t c where "tasks (view b) i = Fresh q t"
      and "tasks (view b') i = Waiting q (now (view b) + t) c" and "now (view b') = now (view b)"
  | (again) q d c c' where "tasks (view b) i = Waiting q d c" and "tasks (view b') i = Waiting q d c'"
      and "now (view b') = now (view b)"
  | (over) "decided (tasks (view b') i)"
      and "tasks (view b') i = TimedOut \<Longrightarrow>
        \<exists>q d c. tasks (view b) i = Waiting q d c \<and> d \<le> now (view b')"
  using step_view [OF assms(1)]
proof
  assume "\<exists>e'. exec_event (R b) e' (view b) = Some (view b')"
  then obtain e' where "exec_event (R b) e' (view b) = Some (view b')" ..
  then show thesis
    by (cases rule: call_moves [where i = i])
      (use assms(2) in \<open>auto simp: decided_def intro: same waits again over\<close>)
qed (simp add: same)

lemma within_slack_step:
  assumes ok: "within_slack T t slack lp lt b" and step: "step e b = Some b'"
    and lp: "lp' = (if enabled step polls b \<and> \<not> polls e then lp + lapse e else 0)" "lp' \<le> slack"
    and lt: "lt' = (if enabled step timers b \<and> \<not> timers e then lt + lapse e else 0)"
    and small: "lapse e \<le> slack" and "lp \<le> slack"
  shows "within_slack T t slack lp' lt' b'"
proof -
  note clock = step_clock [OF step]
  from ok have "tasks (view b) i \<noteq> Unborn" by (auto simp: within_slack_def)
  from step this show ?thesis
  proof (cases rule: step_moves)
    case same
    show ?thesis
    proof (cases "tasks (view b) i")
      case (Fresh q t')
      have "\<not> polls e" using poll_done [OF _ step] same Fresh by metis
      with poll_possible [OF Fresh] have "lp' = lp + lapse e" by (simp add: lp(1))
      with ok same Fresh clock show ?thesis by (simp add: within_slack_def)
    next
      case (Waiting q d c)
      show ?thesis
      proof (cases "d \<le> now (view b)")
        case True
        have "\<not> timers e" using timer_done [OF _ step] same Waiting by (auto simp: decided_def)
        with timer_possible [OF Waiting True] have "lt' = lt + lapse e" by (simp add: lt)
        with ok same Waiting clock show ?thesis by (simp add: within_slack_def)
      next
        case False
        with small clock have "now (view b') \<le> d + slack + lt'" by simp
        with ok same Waiting show ?thesis by (simp add: within_slack_def)
      qed
    qed (use ok same in \<open>auto simp: within_slack_def\<close>)
  next
    case (waits q t' c)
    with ok assms(7) show ?thesis by (simp add: within_slack_def)
  next
    case (again q d c c')
    then have "\<not> timers e" using timer_done [OF _ step] by (auto simp: decided_def)
    have "now (view b') \<le> d + slack + lt'"
    proof (cases "d \<le> now (view b)")
      case True
      with timer_possible again(1) \<open>\<not> timers e\<close> have "lt' = lt + lapse e" by (simp add: lt)
      with ok again show ?thesis by (simp add: within_slack_def)
    qed (use again(3) in simp)
    with ok again show ?thesis by (simp add: within_slack_def)
  next
    case over
    then show ?thesis by (auto simp: within_slack_def decided_def)
  qed
qed

lemma within_slack_run:
  "run_steps step es b = Some b' \<Longrightarrow> within_slack T t slack lp lt b \<Longrightarrow>
     prompt_from step lapse slack polls lp es b \<Longrightarrow> prompt_from step lapse slack timers lt es b \<Longrightarrow>
     lp \<le> slack \<Longrightarrow> lt \<le> slack \<Longrightarrow>
     \<exists>lp' lt'. lp' \<le> slack \<and> lt' \<le> slack \<and> within_slack T t slack lp' lt' b'"
proof (induction es arbitrary: b lp lt)
  case (Cons e es)
  then obtain b1 where step: "step e b = Some b1" and rest: "run_steps step es b1 = Some b'"
    by (auto split: option.splits)
  define lp1 where "lp1 = (if enabled step polls b \<and> \<not> polls e then lp + lapse e else 0)"
  define lt1 where "lt1 = (if enabled step timers b \<and> \<not> timers e then lt + lapse e else 0)"
  from Cons.prems(3,4) step have p: "lapse e \<le> slack" "lp1 \<le> slack" "lt1 \<le> slack"
    "prompt_from step lapse slack polls lp1 es b1" "prompt_from step lapse slack timers lt1 es b1"
    by (simp_all add: Let_def lp1_def lt1_def)
  from within_slack_step [OF Cons.prems(2) step lp1_def p(2) lt1_def p(1) Cons.prems(5)]
  have "within_slack T t slack lp1 lt1 b1" .
  from Cons.IH [OF rest this p(4,5,2,3)] show ?case .
qed auto

text \<open>Soon after its timeout the call is over.\<close>

lemma decided_after:
  assumes "tasks (view b) i = Fresh q t" and "run_steps step es b = Some b'"
    and "prompt_from step lapse slack polls 0 es b" and "prompt_from step lapse slack timers 0 es b"
    and "now (view b) + t + 3 * slack < now (view b')"
  shows "decided (tasks (view b') i)"
proof -
  from assms(1) have "within_slack (now (view b)) t slack 0 0 b" by (simp add: within_slack_def)
  from within_slack_run [OF assms(2) this assms(3,4)] obtain lp lt
    where "lp \<le> slack" "lt \<le> slack" "within_slack (now (view b)) t slack lp lt b'" by auto
  with assms(5) show ?thesis
    by (cases "tasks (view b') i") (auto simp: within_slack_def decided_def)
qed

text \<open>And it does not time out before, whether or not steps are prompt.\<close>

definition not_early :: "instant \<Rightarrow> duration \<Rightarrow> 'b \<Rightarrow> bool" where
  "not_early T t b \<longleftrightarrow>
     (case tasks (view b) i of
        Unborn \<Rightarrow> False
      | Fresh q t' \<Rightarrow> t' = t \<and> T \<le> now (view b)
      | Waiting q d c \<Rightarrow> T + t \<le> d
      | TimedOut \<Rightarrow> T + t \<le> now (view b)
      | _ \<Rightarrow> True)"

lemma not_early_step:
  assumes ok: "not_early T t b" and step: "step e b = Some b'"
  shows "not_early T t b'"
proof -
  from ok have "tasks (view b) i \<noteq> Unborn" by (auto simp: not_early_def)
  from step this show ?thesis
  proof (cases rule: step_moves)
    case same
    with ok step_clock [OF step] show ?thesis
      by (cases "tasks (view b) i") (simp_all add: not_early_def)
  next
    case over
    with ok show ?thesis by (fastforce simp: not_early_def decided_def)
  qed (use ok in \<open>auto simp: not_early_def\<close>)
qed

lemma never_early:
  assumes "tasks (view b) i = Fresh q t" and "run_steps step es b = Some b'"
    and "tasks (view b') i = TimedOut"
  shows "now (view b) + t \<le> now (view b')"
proof -
  have run: "run_steps step es c = Some b' \<Longrightarrow> not_early T t c \<Longrightarrow> not_early T t b'" for T c
    by (induction es arbitrary: c) (auto split: option.splits dest: not_early_step)
  from assms(1) have "not_early (now (view b)) t b" by (simp add: not_early_def)
  from run [OF assms(2) this] assms(3) show ?thesis by (simp add: not_early_def)
qed

end

end
