(* ===== verification/Broker_Wait.thy ===== *)
theory Broker_Wait
  imports Broker_Time Timed_Calls
begin

text \<open>
  The two queue timeouts of the configuration, in the whole broker: a request for a slot, and one
  for the lock, is decided in time, because the code acts on its timeouts.
\<close>

section \<open>The calls of the whole broker\<close>

text \<open>The steps that poll request \<open>i\<close>, and the step that acts on its timeout, for either resource.\<close>

definition slot_poll :: "nat \<Rightarrow> ('q, 'c) broker_step \<Rightarrow> bool" where
  "slot_poll i e \<longleftrightarrow> (case e of Chat (Admit j ans) \<Rightarrow> j = i | _ \<Rightarrow> False)"

definition slot_timer :: "nat \<Rightarrow> ('q, 'c) broker_step \<Rightarrow> bool" where
  "slot_timer i e \<longleftrightarrow> (case e of Chat (Give_Up j) \<Rightarrow> j = i | _ \<Rightarrow> False)"

definition lock_poll :: "nat \<Rightarrow> ('q, 'c) broker_step \<Rightarrow> bool" where
  "lock_poll i e \<longleftrightarrow> (case e of Lock (Poll j l) \<Rightarrow> j = i | _ \<Rightarrow> False)"

definition lock_timer :: "nat \<Rightarrow> ('q, 'c) broker_step \<Rightarrow> bool" where
  "lock_timer i e \<longleftrightarrow> (case e of Lock (Expire j) \<Rightarrow> j = i | _ \<Rightarrow> False)"

text \<open>Whenever a step of the kind \<open>P\<close> is possible, one is taken within \<open>slack\<close>.\<close>

definition prompt ::
  "duration \<Rightarrow> (('q, 'c) broker_step \<Rightarrow> bool) \<Rightarrow> ('q, 'c) broker_step list \<Rightarrow> 'c broker \<Rightarrow> bool" where
  "prompt slack P es b \<longleftrightarrow> prompt_from exec_broker lapse slack P 0 es b"

lemmas prompt_defs =
  slot_poll_def slot_timer_def lock_poll_def lock_timer_def prompt_def Let_def

lemma run_broker_steps: "run_broker es b = run_steps exec_broker es b"
  by (induction es arbitrary: b) (auto split: option.split simp del: exec_broker.simps)

lemma chat_part_short:
  "chat_part s e = [] \<or> (\<exists>e'. chat_part s e = [e'])"
  by (cases e) (auto split: option.split)

lemma step_net:
  assumes "exec_broker e b = Some b'"
  shows "net (chat b') = net (chat b) \<or>
    (\<exists>e'. exec_event sched_admit e' (net (chat b)) = Some (net (chat b')))"
  using step_chat [OF assms] chat_part_short [of "settings b" e]
  by (auto split: option.splits dest!: service_view simp del: exec_service.simps exec_event.simps)

lemma step_lock_event:
  assumes "exec_broker e b = Some b'"
  shows "lock_side b' = lock_side b \<or>
    (\<exists>e'. exec_event (gpu_acquire (gpu_lock_max_hold (settings b))) e' (lock_side b) =
      Some (lock_side b'))"
  using step_lock [OF assms] lock_part_short [of "settings b" e]
  by (auto split: option.splits simp del: exec_event.simps)

interpretation slot_call: timed_call exec_broker lapse "\<lambda>b. sched_admit" "\<lambda>b. net (chat b)"
  "slot_poll i :: ('q, 'c) broker_step \<Rightarrow> bool" "slot_timer i" i for i
proof
  fix e :: "('q, 'c) broker_step" and b b' :: "'c broker" and q :: "slot_hint option"
    and t d :: nat and c :: chan
  show "exec_broker e b = Some b' \<Longrightarrow> net (chat b') = net (chat b) \<or>
      (\<exists>e'. exec_event sched_admit e' (net (chat b)) = Some (net (chat b')))"
    by (rule step_net)
  show "exec_broker e b = Some b' \<Longrightarrow> now (net (chat b')) = now (net (chat b)) + lapse e"
    by (drule step_clocks(2)) (simp add: clock_of_def)
  show "enabled exec_broker (slot_poll i :: ('q, 'c) broker_step \<Rightarrow> bool) b"
    if "tasks (net (chat b)) i = Fresh q t"
    unfolding enabled_def
    by (rule exI [of _ "Chat (Admit i undefined)"])
      (use that in \<open>simp add: slot_poll_def on_chat_def on_net_def split: task.split\<close>)
  show "tasks (net (chat b')) i \<noteq> Fresh q t" if "slot_poll i e" "exec_broker e b = Some b'"
    using that
    by (auto simp: slot_poll_def on_chat_def on_net_def try_once_def set_task_def close_rx_def set_job_def
        split: broker_step.splits service_event.splits task.splits option.splits if_splits)
  show "enabled exec_broker (slot_timer i :: ('q, 'c) broker_step \<Rightarrow> bool) b"
    if "tasks (net (chat b)) i = Waiting q d c" "d \<le> now (net (chat b))"
    unfolding enabled_def
    by (rule exI [of _ "Chat (Give_Up i)"])
      (use that in \<open>simp add: slot_timer_def on_chat_def on_net_def\<close>)
  show "decided (tasks (net (chat b')) i)" if "slot_timer i e" "exec_broker e b = Some b'"
    using that
    by (auto simp: slot_timer_def on_chat_def on_net_def set_task_def decided_def
        split: broker_step.splits service_event.splits task.splits if_splits)
qed

interpretation lock_call: timed_call exec_broker lapse
  "\<lambda>b. gpu_acquire (gpu_lock_max_hold (settings b))" lock_side
  "lock_poll i :: ('q, 'c) broker_step \<Rightarrow> bool" "lock_timer i" i for i
proof
  fix e :: "('q, 'c) broker_step" and b b' :: "'c broker" and q :: unit
    and t d :: nat and c :: chan
  show "exec_broker e b = Some b' \<Longrightarrow> lock_side b' = lock_side b \<or>
      (\<exists>e'. exec_event (gpu_acquire (gpu_lock_max_hold (settings b))) e' (lock_side b) =
        Some (lock_side b'))"
    by (rule step_lock_event)
  show "exec_broker e b = Some b' \<Longrightarrow> now (lock_side b') = now (lock_side b) + lapse e"
    by (rule step_clocks(1))
  show "enabled exec_broker (lock_poll i :: ('q, 'c) broker_step \<Rightarrow> bool) b"
    if "tasks (lock_side b) i = Fresh q t"
    unfolding enabled_def
    by (rule exI [of _ "Lock (Poll i undefined)"]) (use that in \<open>simp add: lock_poll_def on_lock_def\<close>)
  show "tasks (lock_side b') i \<noteq> Fresh q t" if "lock_poll i e" "exec_broker e b = Some b'"
    using that
    by (auto simp: lock_poll_def on_lock_def try_once_def set_task_def close_rx_def
        split: broker_step.splits event.splits task.splits option.splits if_splits)
  show "enabled exec_broker (lock_timer i :: ('q, 'c) broker_step \<Rightarrow> bool) b"
    if "tasks (lock_side b) i = Waiting q d c" "d \<le> now (lock_side b)"
    unfolding enabled_def
    by (rule exI [of _ "Lock (Expire i)"]) (use that in \<open>simp add: lock_timer_def on_lock_def\<close>)
  show "decided (tasks (lock_side b') i)" if "lock_timer i e" "exec_broker e b = Some b'"
    using that
    by (auto simp: lock_timer_def on_lock_def set_task_def decided_def
        split: broker_step.splits event.splits task.splits if_splits)
qed

section \<open>Nobody hangs\<close>

lemma chat_call_made:
  assumes "exec_broker (Call i req x None) b0 = Some b1" and "chat_body x req (settings b0) \<noteq> None"
  shows "\<exists>q. tasks (net (chat b1)) i = Fresh q (queue_timeout (settings b0))"
    and "clock_of b1 = clock_of b0"
proof -
  from assms(2) obtain body where "chat_body x req (settings b0) = Some body" by blast
  from exec_call_chat [OF this] assms(1) obtain c
    where "exec_service (queue_timeout (settings b0)) (Arrive i body) (chat b0) = Some c" "b1 = b0\<lparr>chat := c\<rparr>"
    by (auto simp del: exec_service.simps)
  then show "\<exists>q. tasks (net (chat b1)) i = Fresh q (queue_timeout (settings b0))"
    by (auto simp: on_net_def set_task_def split: task.splits)
  show "clock_of b1 = clock_of b0" using step_clocks(2) [OF assms(1)] by simp
qed

lemma lock_call_made:
  assumes "exec_broker (Call i req x None) b0 = Some b1" and "asks_for_lock req (settings b0)"
  shows "tasks (lock_side b1) i = Fresh () (gpu_lock_queue_timeout (settings b0))"
    and "now (lock_side b1) = now (lock_side b0)"
proof -
  from assms show "tasks (lock_side b1) i = Fresh () (gpu_lock_queue_timeout (settings b0))"
    by (auto simp: exec_call_acquire set_task_def split: task.splits)
  show "now (lock_side b1) = now (lock_side b0)" using step_clocks(1) [OF assms(1)] by simp
qed

text \<open>
  C9: Nobody hangs, and nobody is sent away early. Take any run of the whole broker after a
  request has come in, whatever the others do and however the slots and the lock are
  occupied. If the request was a chat request that passed the guard, and its future is polled, and its timeout acted
  on, within \<open>slack\<close> of becoming possible, then once the configured queue timeout
  and three times the slack are over it has its slot, its time-out error, or a
  client that left. It has the time-out error only after the whole timeout, prompt or not. The same holds
  of an acquire of the lock and the timeout of its queue. With the default of 280 seconds
  and a slack under six seconds, a client that reads for 300 seconds gets to see how its acquire ended.
  Nothing is assumed of when a timeout becomes possible: that it does, is what the code sees to.
\<close>

theorem decided_in_time:
  fixes es :: "('q, 'c) broker_step list"
  assumes "exec_broker (Call i req x None) b0 = Some b1" and "run_broker es b1 = Some b"
  shows "(chat_body x req (settings b0) \<noteq> None \<longrightarrow>
      (prompt slack (slot_poll i) es b1 \<and> prompt slack (slot_timer i) es b1 \<and>
         clock_of b0 + queue_timeout (settings b0) + 3 * slack < clock_of b \<longrightarrow>
       decided (tasks (net (chat b)) i)) \<and>
      (tasks (net (chat b)) i = TimedOut \<longrightarrow>
         clock_of b0 + queue_timeout (settings b0) \<le> clock_of b)) \<and>
    (asks_for_lock req (settings b0) \<longrightarrow>
      (prompt slack (lock_poll i) es b1 \<and> prompt slack (lock_timer i) es b1 \<and>
         now (lock_side b0) + gpu_lock_queue_timeout (settings b0) + 3 * slack < now (lock_side b) \<longrightarrow>
       decided (tasks (lock_side b) i)) \<and>
      (tasks (lock_side b) i = TimedOut \<longrightarrow>
         now (lock_side b0) + gpu_lock_queue_timeout (settings b0) \<le> now (lock_side b)))"
proof -
  from assms(2) have run: "run_steps exec_broker es b1 = Some b" by (simp add: run_broker_steps)
  show ?thesis
  proof (intro conjI impI; (elim conjE)?)
    assume c: "chat_body x req (settings b0) \<noteq> None"
    from chat_call_made [OF assms(1) c] obtain q
      where q: "tasks (net (chat b1)) i = Fresh q (queue_timeout (settings b0))"
        and n: "now (net (chat b1)) = clock_of b0" by (auto simp: clock_of_def)
    {
      assume "prompt slack (slot_poll i) es b1" "prompt slack (slot_timer i) es b1"
        and "clock_of b0 + queue_timeout (settings b0) + 3 * slack < clock_of b"
      with slot_call.decided_after [OF q run] n show "decided (tasks (net (chat b)) i)"
        by (simp add: prompt_def clock_of_def)
    next
      assume "tasks (net (chat b)) i = TimedOut"
      with slot_call.never_early [OF q run] n
      show "clock_of b0 + queue_timeout (settings b0) \<le> clock_of b" by (simp add: clock_of_def)
    }
  next
    assume a: "asks_for_lock req (settings b0)"
    note q = lock_call_made [OF assms(1) a]
    {
      assume "prompt slack (lock_poll i) es b1" "prompt slack (lock_timer i) es b1"
        and "now (lock_side b0) + gpu_lock_queue_timeout (settings b0) + 3 * slack < now (lock_side b)"
      with lock_call.decided_after [OF q(1) run] q(2) show "decided (tasks (lock_side b) i)"
        by (simp add: prompt_def)
    next
      assume "tasks (lock_side b) i = TimedOut"
      with lock_call.never_early [OF q(1) run] q(2)
      show "now (lock_side b0) + gpu_lock_queue_timeout (settings b0) \<le> now (lock_side b)" by simp
    }
  qed
qed

text \<open>Which steps are possible, for running the broker.\<close>

lemma lock_kinds:
  "lock_poll i e \<longleftrightarrow> (\<exists>l. e = Lock (Poll i l))" "lock_timer i e \<longleftrightarrow> e = Lock (Expire i)"
  by (auto simp: lock_poll_def lock_timer_def split: broker_step.splits event.splits)

lemma enabled_lock:
  "enabled exec_broker (lock_poll i :: ('q, 'c) broker_step \<Rightarrow> bool) b \<longleftrightarrow>
     (case tasks (lock_side b) i of
        Fresh q t \<Rightarrow> True | Waiting q d c \<Rightarrow> c \<in> signalled (lock_side b) | _ \<Rightarrow> False)"
  "enabled exec_broker (lock_timer i :: ('q, 'c) broker_step \<Rightarrow> bool) b \<longleftrightarrow>
     (case tasks (lock_side b) i of Waiting q d c \<Rightarrow> d \<le> now (lock_side b) | _ \<Rightarrow> False)"
proof -
  have "enabled exec_broker (lock_poll i :: ('q, 'c) broker_step \<Rightarrow> bool) b \<longleftrightarrow>
      (\<exists>l. exec_broker (Lock (Poll i l) :: ('q, 'c) broker_step) b \<noteq> None)"
    by (auto simp: enabled_def lock_kinds simp del: exec_broker.simps)
  then show "enabled exec_broker (lock_poll i :: ('q, 'c) broker_step \<Rightarrow> bool) b \<longleftrightarrow>
     (case tasks (lock_side b) i of
        Fresh q t \<Rightarrow> True | Waiting q d c \<Rightarrow> c \<in> signalled (lock_side b) | _ \<Rightarrow> False)"
    by (simp add: on_lock_def split: task.split)
  have "enabled exec_broker (lock_timer i :: ('q, 'c) broker_step \<Rightarrow> bool) b \<longleftrightarrow>
      exec_broker (Lock (Expire i) :: ('q, 'c) broker_step) b \<noteq> None"
    by (auto simp: enabled_def lock_kinds simp del: exec_broker.simps)
  then show "enabled exec_broker (lock_timer i :: ('q, 'c) broker_step \<Rightarrow> bool) b \<longleftrightarrow>
     (case tasks (lock_side b) i of Waiting q d c \<Rightarrow> d \<le> now (lock_side b) | _ \<Rightarrow> False)"
    by (simp add: on_lock_def split: task.split)
qed

text \<open>Client 0 has the lock; client 1 asks for it, waits, and is told so after 280 seconds.\<close>

definition held_run :: "(json, nat) broker_step list" where
  "held_run = [Call 0 acquire_call demo_outside None, Lock (Poll 0 7)]"

definition waiting_run :: "(json, nat) broker_step list" where
  "waiting_run =
     [Lock (Poll 1 8), Elapse (from_secs 100), Elapse (from_secs 100), Elapse (from_secs 80),
      Lock (Expire 1), Elapse (from_secs 100), Elapse (from_secs 100), Elapse (from_secs 100), Elapse 1]"

lemma decided_in_time_witness:
  "\<exists>b0 b1 b :: nat broker. exec_broker (Call 1 acquire_call demo_outside None) b0 = Some b1 \<and>
     run_broker waiting_run b1 = Some b \<and> tasks (lock_side b1) 1 = Fresh () (from_secs 280) \<and>
     decided (tasks (lock_side b) 1)"
proof -
  let ?slack = "from_secs 100"
  have "\<exists>b0 b1 b. run_broker held_run demo_broker = Some b0 \<and> settings b0 = demo_app \<and>
      now (lock_side b0) = 0 \<and>
      exec_broker (Call 1 acquire_call demo_outside None) b0 = Some b1 \<and>
      tasks (lock_side b1) 1 = Fresh () (from_secs 280) \<and>
      run_broker waiting_run b1 = Some b \<and> now (lock_side b) = from_secs 580 + 1 \<and>
      prompt ?slack (lock_poll 1) waiting_run b1 \<and> prompt ?slack (lock_timer 1) waiting_run b1"
    by (simp add: held_run_def waiting_run_def demo_calls demo_broker_def demo_limits prompt_def
        enabled_lock lock_kinds eval_simps)
  then obtain b0 b1 b where b0: "settings b0 = demo_app" "now (lock_side b0) = 0"
    and b1: "exec_broker (Call 1 acquire_call demo_outside None) b0 = Some b1"
      "tasks (lock_side b1) 1 = Fresh () (from_secs 280)"
    and b: "run_broker waiting_run b1 = Some b" "now (lock_side b) = from_secs 580 + 1"
    and ok: "prompt ?slack (lock_poll 1) waiting_run b1" "prompt ?slack (lock_timer 1) waiting_run b1"
    by blast
  have "now (lock_side b0) + gpu_lock_queue_timeout (settings b0) + 3 * ?slack < now (lock_side b)"
    using b0 b(2) by (simp add: demo_limits time_defs)
  with decided_in_time [OF b1(1) b(1), of ?slack] b0 b b1 ok show ?thesis
    by (auto simp: demo_kinds simp del: exec_broker.simps)
qed

end
