(* ===== verification/Scheduler_Tests.thy ===== *)
theory Scheduler_Tests
  imports Sched_System
begin

text \<open>
  The repository's own tests of the scheduler (the test module of src/src/scheduler.rs), run on
  the model: each test is a definition of the same name that holds when all its assertions do.
  A call that the test awaits is a request that is called and polled to its result; a spawned
  or hand-polled call is polled where the test lets it run; a sleep is the passing of time, and
  a drop of a future the step for it.
\<close>

section \<open>Vocabulary\<close>

definition test_hint :: "string \<Rightarrow> u32 option \<Rightarrow> string option \<Rightarrow> slot_hint option" where
  "test_hint p k m = Some \<lparr>prefix_hash = p, preferred_slot = k, hint_model = m\<rparr>"

definition test_start :: "inner \<Rightarrow> sched_world" where
  "test_start st = start_world st"

definition admission_of :: "nat \<Rightarrow> sched_world \<Rightarrow> admission option" where
  "admission_of i w = (case tasks w i of Holding a \<Rightarrow> Some a | _ \<Rightarrow> None)"

definition pending :: "nat \<Rightarrow> sched_world \<Rightarrow> bool" where
  "pending i w = (case tasks w i of Waiting hint d c \<Rightarrow> True | _ \<Rightarrow> False)"

definition timed_out :: "nat \<Rightarrow> sched_world \<Rightarrow> bool" where
  "timed_out i w = (case tasks w i of TimedOut \<Rightarrow> True | _ \<Rightarrow> False)"

text \<open>Runs a script and checks the end; a step that cannot happen fails the test.\<close>

definition script :: "sched_event list \<Rightarrow> sched_world \<Rightarrow> (sched_world \<Rightarrow> bool) \<Rightarrow> bool" where
  "script es w check =
     (case run_events sched_admit es w of None \<Rightarrow> False | Some w' \<Rightarrow> check w')"

text \<open>\<^verbatim>\<open>sched.admit(hint, secs).await.unwrap()\<close> by request \<open>i\<close>, which must succeed at once.\<close>

definition admit_now ::
  "nat \<Rightarrow> slot_hint option \<Rightarrow> duration \<Rightarrow> sched_world \<Rightarrow> (admission \<Rightarrow> sched_world \<Rightarrow> bool) \<Rightarrow> bool" where
  "admit_now i hint timeout w check =
     script [Spawn i hint timeout, Poll i ()] w
       (\<lambda>w'. case admission_of i w' of None \<Rightarrow> False | Some a \<Rightarrow> check a w')"

definition called :: "sched_op \<Rightarrow> sched_world \<Rightarrow> sched_world" where
  "called f w = perform sched_admit f w"

text \<open>One poll by hand: a suspended call that was sent no wake signal stays as it is.\<close>

definition polled :: "nat \<Rightarrow> sched_world \<Rightarrow> sched_world" where
  "polled i w = (case exec_event sched_admit (Poll i ()) w of None \<Rightarrow> w | Some w' \<Rightarrow> w')"

definition slot_in :: "u32 \<Rightarrow> sched_world \<Rightarrow> slot_snapshot option" where
  "slot_in k w = List.find (\<lambda>s. snap_slot_id s = k) (snapshot (shared w))"

lemmas test_defs [eval_simps] =
  test_hint_def test_start_def admission_of_def pending_def timed_out_def script_def admit_now_def
  called_def polled_def slot_in_def

section \<open>The tests\<close>

definition admits_free_slot_with_no_hint :: bool where
  "admits_free_slot_with_no_hint =
     admit_now 0 None (from_secs 1) (test_start (new_scheduler 2))
       (\<lambda>a w. slot_id a < 2 \<and> \<not> cache_ready a)"

definition second_admission_for_same_prefix_on_idle_slot_is_cache_ready :: bool where
  "second_admission_for_same_prefix_on_idle_slot_is_cache_ready =
     admit_now 0 None (from_secs 1) (test_start (new_scheduler 2)) (\<lambda>first w.
       admit_now 1 (test_hint ''prefix-a'' None None) (from_secs 1)
         (called (Release (slot_id first))
           (called (Mark_Resident (slot_id first) None ''prefix-a'') w))
         (\<lambda>second w. slot_id second = slot_id first \<and> cache_ready second))"

definition preferred_slot_busy_queues_for_that_slot_specifically :: bool where
  "preferred_slot_busy_queues_for_that_slot_specifically =
     admit_now 0 (test_hint ''a'' (Some 0) None) (from_secs 1) (test_start (new_scheduler 2)) (\<lambda>first w.
       slot_id first = 0 \<and>
       script
         [Spawn 1 (test_hint ''a'' (Some 0) None) (from_secs 5), Poll 1 (), Tick (from_millis 50),
          Operate (Release 0), Poll 1 ()] w
         (\<lambda>w. map_option slot_id (admission_of 1 w) = Some 0))"

definition no_free_slots_and_no_preference_times_out_with_clear_error :: bool where
  "no_free_slots_and_no_preference_times_out_with_clear_error =
     admit_now 0 None (from_secs 1) (test_start (new_scheduler 1)) (\<lambda>_ w.
       script [Spawn 1 None (from_millis 50), Poll 1 (), Tick (from_millis 50), Expire 1] w (timed_out 1))"

definition seed_busy_marks_slot_unavailable_until_explicitly_released :: bool where
  "seed_busy_marks_slot_unavailable_until_explicitly_released =
     script [Spawn 0 None (from_millis 50), Poll 0 (), Tick (from_millis 50), Expire 0]
       (test_start (seed_busy 0 (new_scheduler 1)))
       (\<lambda>w. timed_out 0 w \<and>
         admit_now 1 None (from_secs 1) (called (Release 0) w) (\<lambda>a w. slot_id a = 0))"

definition snapshot_reflects_busy_and_resident_state :: bool where
  "snapshot_reflects_busy_and_resident_state =
     admit_now 0 None (from_secs 1) (test_start (new_scheduler 2)) (\<lambda>a w.
       case slot_in (slot_id a) (called (Mark_Resident (slot_id a) None ''p'') w) of
         None \<Rightarrow> False
       | Some s \<Rightarrow> snap_busy s \<and> snap_resident_prefix s = Some ''p'')"

definition release_retries_timed_out_waiters_preserving_fifo_for_slot :: bool where
  "release_retries_timed_out_waiters_preserving_fifo_for_slot =
     admit_now 0 (test_hint ''test'' (Some 0) None) (from_secs 1) (test_start (new_scheduler 1)) (\<lambda>_ w.
       script
         [Spawn 1 (test_hint ''test'' (Some 0) None) (from_millis 100), Poll 1 (), Tick (from_millis 10),
          Spawn 2 (test_hint ''test'' (Some 0) None) (from_secs 5), Poll 2 (), Tick (from_millis 10),
          Tick (from_millis 150), Expire 1, Operate (Release 0), Poll 2 ()] w
         (\<lambda>w. timed_out 1 w \<and> map_option slot_id (admission_of 2 w) = Some 0))"

definition dropping_a_woken_waiter_before_repolling_does_not_leak_the_slot :: bool where
  "dropping_a_woken_waiter_before_repolling_does_not_leak_the_slot =
     admit_now 0 None (from_secs 5) (test_start (new_scheduler 1)) (\<lambda>held w.
       script [Spawn 1 None (from_secs 5), Poll 1 ()] w (\<lambda>w.
         pending 1 w \<and>
         script [Operate (Release (slot_id held)), Abandon 1] w (\<lambda>w.
           (case slot_in (slot_id held) w of None \<Rightarrow> False | Some s \<Rightarrow> \<not> snap_busy s) \<and>
           admit_now 2 None (from_secs 1) w (\<lambda>_ _. True))))"

definition reconcile_seeded_idle_frees_a_never_claimed_seeded_slot :: bool where
  "reconcile_seeded_idle_frees_a_never_claimed_seeded_slot =
     script [Spawn 0 None (from_millis 50), Poll 0 (), Tick (from_millis 50), Expire 0]
       (test_start (seed_busy 0 (new_scheduler 1)))
       (\<lambda>w. timed_out 0 w \<and>
         admit_now 1 None (from_secs 1) (called (Reconcile 0) w) (\<lambda>a w. slot_id a = 0))"

definition reconcile_seeded_idle_is_a_no_op_for_a_slot_claimed_by_the_broker :: bool where
  "reconcile_seeded_idle_is_a_no_op_for_a_slot_claimed_by_the_broker =
     admit_now 0 None (from_secs 1) (test_start (new_scheduler 1)) (\<lambda>held w.
       case slot_in (slot_id held) (called (Reconcile (slot_id held)) w) of
         None \<Rightarrow> False
       | Some s \<Rightarrow> snap_busy s)"

text \<open>Admits and releases for each hint in turn; the slots used.\<close>

fun slots_used :: "nat \<Rightarrow> slot_hint option list \<Rightarrow> sched_world \<Rightarrow> u32 list option" where
  "slots_used i [] w = Some []"
| "slots_used i (h # hs) w =
     (case run_events sched_admit [Spawn i h (from_secs 1), Poll i ()] w of
        None \<Rightarrow> None
      | Some w' \<Rightarrow>
          (case admission_of i w' of
             None \<Rightarrow> None
           | Some a \<Rightarrow>
               map_option ((#) (slot_id a))
                 (slots_used (i + 1) hs (called (Release (slot_id a)) w'))))"

definition fallback_admission_spreads_across_slots_via_lru_not_first_free :: bool where
  "fallback_admission_spreads_across_slots_via_lru_not_first_free =
     (case slots_used 0
         [test_hint ''p0'' None None, test_hint ''p1'' None None,
          test_hint ''p2'' None None, test_hint ''p3'' None None]
         (test_start (new_scheduler 4)) of
        None \<Rightarrow> False
      | Some used \<Rightarrow> length (remdups used) = 4)"

definition ping_pong_between_two_prefixes_uses_more_than_one_slot :: bool where
  "ping_pong_between_two_prefixes_uses_more_than_one_slot =
     (let a = test_hint ''prefix-a'' None None; b = test_hint ''prefix-b'' None None
      in case slots_used 0 [a, b, a, b, a, b, a, b] (test_start (new_scheduler 4)) of
           None \<Rightarrow> False
         | Some used \<Rightarrow> 1 < length (remdups used))"


definition release_wakes_a_second_waiter_even_if_the_first_woken_one_is_dropped_unpolled :: bool where
  "release_wakes_a_second_waiter_even_if_the_first_woken_one_is_dropped_unpolled =
     admit_now 0 None (from_secs 5) (test_start (new_scheduler 1)) (\<lambda>held w.
       script [Spawn 1 None (from_secs 5), Poll 1 ()] w (\<lambda>w.
         pending 1 w \<and>
         script
           [Spawn 2 None (from_secs 5), Poll 2 (), Tick (from_millis 20),
            Operate (Release (slot_id held)), Abandon 1, Poll 2 ()] w
           (\<lambda>w. map_option slot_id (admission_of 2 w) = Some (slot_id held))))"

definition out_of_range_preferred_slot_falls_back_instead_of_hanging_the_full_timeout :: bool where
  "out_of_range_preferred_slot_falls_back_instead_of_hanging_the_full_timeout =
     admit_now 0 (test_hint ''p'' (Some 99) None) (from_secs 60) (test_start (new_scheduler 2))
       (\<lambda>a w. slot_id a < 2)"

definition out_of_range_preferred_slot_under_contention_falls_back_instead_of_hanging :: bool where
  "out_of_range_preferred_slot_under_contention_falls_back_instead_of_hanging =
     admit_now 0 None (from_secs 1) (test_start (new_scheduler 2)) (\<lambda>held_a w.
       admit_now 1 None (from_secs 1) w (\<lambda>held_b w.
         script
           [Spawn 2 (test_hint ''p'' (Some 99) None) (from_secs 60), Poll 2 (),
            Tick (from_millis 50), Operate (Release (slot_id held_a)), Poll 2 ()] w
           (\<lambda>w. case admission_of 2 w of None \<Rightarrow> False | Some a \<Rightarrow> slot_id a < 2)))"

definition reconcile_seeded_idle_wakes_a_queued_waiter :: bool where
  "reconcile_seeded_idle_wakes_a_queued_waiter =
     script
       [Spawn 0 None (from_secs 60), Poll 0 (), Tick (from_millis 50), Operate (Reconcile 0), Poll 0 ()]
       (test_start (seed_busy 0 (new_scheduler 1)))
       (\<lambda>w. map_option slot_id (admission_of 0 w) = Some 0)"

definition a_resident_prefix_from_another_model_is_never_cache_ready :: bool where
  "a_resident_prefix_from_another_model_is_never_cache_ready =
     (let hint = (\<lambda>m k. test_hint ''p'' k (Some m))
      in admit_now 0 (hint ''model-b'' (Some 0)) (from_secs 1)
           (called (Mark_Resident 1 (Some ''model-b'') ''p'')
             (called (Mark_Resident 0 (Some ''model-a'') ''p'') (test_start (new_scheduler 2))))
           (\<lambda>b_on_0 w. slot_id b_on_0 = 0 \<and> \<not> cache_ready b_on_0 \<and>
              admit_now 1 (hint ''model-a'' None) (from_secs 1) (called (Release 0) w)
                (\<lambda>a w. slot_id a = 0 \<and> cache_ready a \<and>
                   admit_now 2 (hint ''model-b'' None) (from_secs 1) (called (Release (slot_id a)) w)
                     (\<lambda>b w. slot_id b = 1 \<and> cache_ready b \<and>
                        admit_now 3 (hint ''model-c'' None) (from_secs 1)
                          (called (Release (slot_id b)) w) (\<lambda>c w. \<not> cache_ready c)))))"

definition a_general_waiter_cannot_steal_a_slot_a_specific_waiter_is_queued_for :: bool where
  "a_general_waiter_cannot_steal_a_slot_a_specific_waiter_is_queued_for =
     (let specific = test_hint ''p'' (Some 0) None
      in admit_now 0 specific (from_secs 5) (test_start (new_scheduler 1)) (\<lambda>held w.
           slot_id held = 0 \<and>
           script [Spawn 1 specific (from_secs 5), Poll 1 ()] w (\<lambda>w. pending 1 w \<and>
             script [Spawn 2 None (from_secs 5), Poll 2 ()] w (\<lambda>w. pending 2 w \<and>
               (let w = polled 2 (called (Release 0) w)
                in pending 2 w \<and> map_option slot_id (admission_of 1 (polled 1 w)) = Some 0)))))"

definition clear_resident_removes_stale_prefix_bookkeeping :: bool where
  "clear_resident_removes_stale_prefix_bookkeeping =
     admit_now 0 (test_hint ''a'' None None) (from_secs 1) (test_start (new_scheduler 1)) (\<lambda>first w.
       admit_now 1 None (from_secs 1)
         (called (Release (slot_id first)) (called (Mark_Resident (slot_id first) None ''a'') w))
         (\<lambda>second w. slot_id second = slot_id first \<and>
           (case slot_in (slot_id second) (called (Clear_Resident (slot_id second)) w) of
              None \<Rightarrow> False
            | Some s \<Rightarrow> snap_resident_prefix s = None)))"

section \<open>The results\<close>

lemma passes_admits_free_slot_with_no_hint:
  admits_free_slot_with_no_hint
  by (simp add: admits_free_slot_with_no_hint_def eval_simps)

lemma passes_second_admission_for_same_prefix_on_idle_slot_is_cache_ready:
  second_admission_for_same_prefix_on_idle_slot_is_cache_ready
  by (simp add: second_admission_for_same_prefix_on_idle_slot_is_cache_ready_def eval_simps)

lemma passes_preferred_slot_busy_queues_for_that_slot_specifically:
  preferred_slot_busy_queues_for_that_slot_specifically
  by (simp add: preferred_slot_busy_queues_for_that_slot_specifically_def eval_simps)

lemma passes_no_free_slots_and_no_preference_times_out_with_clear_error:
  no_free_slots_and_no_preference_times_out_with_clear_error
  by (simp add: no_free_slots_and_no_preference_times_out_with_clear_error_def eval_simps)

lemma passes_seed_busy_marks_slot_unavailable_until_explicitly_released:
  seed_busy_marks_slot_unavailable_until_explicitly_released
  by (simp add: seed_busy_marks_slot_unavailable_until_explicitly_released_def eval_simps)

lemma passes_snapshot_reflects_busy_and_resident_state:
  snapshot_reflects_busy_and_resident_state
  by (simp add: snapshot_reflects_busy_and_resident_state_def eval_simps)

lemma passes_release_retries_timed_out_waiters_preserving_fifo_for_slot:
  release_retries_timed_out_waiters_preserving_fifo_for_slot
  by (simp add: release_retries_timed_out_waiters_preserving_fifo_for_slot_def eval_simps)

lemma passes_dropping_a_woken_waiter_before_repolling_does_not_leak_the_slot:
  dropping_a_woken_waiter_before_repolling_does_not_leak_the_slot
  by (simp add: dropping_a_woken_waiter_before_repolling_does_not_leak_the_slot_def eval_simps)

lemma passes_reconcile_seeded_idle_frees_a_never_claimed_seeded_slot:
  reconcile_seeded_idle_frees_a_never_claimed_seeded_slot
  by (simp add: reconcile_seeded_idle_frees_a_never_claimed_seeded_slot_def eval_simps)

lemma passes_reconcile_seeded_idle_is_a_no_op_for_a_slot_claimed_by_the_broker:
  reconcile_seeded_idle_is_a_no_op_for_a_slot_claimed_by_the_broker
  by (simp add: reconcile_seeded_idle_is_a_no_op_for_a_slot_claimed_by_the_broker_def eval_simps)

lemma passes_fallback_admission_spreads_across_slots_via_lru_not_first_free:
  fallback_admission_spreads_across_slots_via_lru_not_first_free
  by (simp add: fallback_admission_spreads_across_slots_via_lru_not_first_free_def eval_simps)

lemma passes_ping_pong_between_two_prefixes_uses_more_than_one_slot:
  ping_pong_between_two_prefixes_uses_more_than_one_slot
  by (simp add: ping_pong_between_two_prefixes_uses_more_than_one_slot_def eval_simps)

lemma passes_release_wakes_a_second_waiter_even_if_the_first_woken_one_is_dropped_unpolled:
  release_wakes_a_second_waiter_even_if_the_first_woken_one_is_dropped_unpolled
  by (simp add: release_wakes_a_second_waiter_even_if_the_first_woken_one_is_dropped_unpolled_def eval_simps)

lemma passes_out_of_range_preferred_slot_falls_back_instead_of_hanging_the_full_timeout:
  out_of_range_preferred_slot_falls_back_instead_of_hanging_the_full_timeout
  by (simp add: out_of_range_preferred_slot_falls_back_instead_of_hanging_the_full_timeout_def eval_simps)

lemma passes_out_of_range_preferred_slot_under_contention_falls_back_instead_of_hanging:
  out_of_range_preferred_slot_under_contention_falls_back_instead_of_hanging
  by (simp add: out_of_range_preferred_slot_under_contention_falls_back_instead_of_hanging_def eval_simps)

lemma passes_reconcile_seeded_idle_wakes_a_queued_waiter:
  reconcile_seeded_idle_wakes_a_queued_waiter
  by (simp add: reconcile_seeded_idle_wakes_a_queued_waiter_def eval_simps)

lemma passes_a_resident_prefix_from_another_model_is_never_cache_ready:
  a_resident_prefix_from_another_model_is_never_cache_ready
  by (simp add: a_resident_prefix_from_another_model_is_never_cache_ready_def eval_simps)

lemma passes_a_general_waiter_cannot_steal_a_slot_a_specific_waiter_is_queued_for:
  a_general_waiter_cannot_steal_a_slot_a_specific_waiter_is_queued_for
  by (simp add: a_general_waiter_cannot_steal_a_slot_a_specific_waiter_is_queued_for_def eval_simps)

lemma passes_clear_resident_removes_stale_prefix_bookkeeping:
  clear_resident_removes_stale_prefix_bookkeeping
  by (simp add: clear_resident_removes_stale_prefix_bookkeeping_def eval_simps)

lemmas scheduler_tests_pass =
  passes_admits_free_slot_with_no_hint
  passes_second_admission_for_same_prefix_on_idle_slot_is_cache_ready
  passes_preferred_slot_busy_queues_for_that_slot_specifically
  passes_no_free_slots_and_no_preference_times_out_with_clear_error
  passes_seed_busy_marks_slot_unavailable_until_explicitly_released
  passes_snapshot_reflects_busy_and_resident_state
  passes_release_retries_timed_out_waiters_preserving_fifo_for_slot
  passes_dropping_a_woken_waiter_before_repolling_does_not_leak_the_slot
  passes_reconcile_seeded_idle_frees_a_never_claimed_seeded_slot
  passes_reconcile_seeded_idle_is_a_no_op_for_a_slot_claimed_by_the_broker
  passes_fallback_admission_spreads_across_slots_via_lru_not_first_free
  passes_ping_pong_between_two_prefixes_uses_more_than_one_slot
  passes_release_wakes_a_second_waiter_even_if_the_first_woken_one_is_dropped_unpolled
  passes_out_of_range_preferred_slot_falls_back_instead_of_hanging_the_full_timeout
  passes_out_of_range_preferred_slot_under_contention_falls_back_instead_of_hanging
  passes_reconcile_seeded_idle_wakes_a_queued_waiter
  passes_a_resident_prefix_from_another_model_is_never_cache_ready
  passes_a_general_waiter_cannot_steal_a_slot_a_specific_waiter_is_queued_for
  passes_clear_resident_removes_stale_prefix_bookkeeping

end
