(* ===== verification/Gpu_Lock_Tests.thy ===== *)
theory Gpu_Lock_Tests
  imports Gpu_Lock_System
begin

text \<open>
  The repository's own tests of the GPU lock (the test module of src/src/gpu_lock.rs), run on
  the model in the way Scheduler_Tests runs those of the scheduler. Fresh lease ids are the
  numbers 1, 2, 3.
\<close>

section \<open>Vocabulary\<close>

definition lease_of :: "nat \<Rightarrow> lock_world \<Rightarrow> lease_id option" where
  "lease_of i w = (case tasks w i of Holding l \<Rightarrow> Some l | _ \<Rightarrow> None)"

definition lock_pending :: "nat \<Rightarrow> lock_world \<Rightarrow> bool" where
  "lock_pending i w = (case tasks w i of Waiting q d c \<Rightarrow> True | _ \<Rightarrow> False)"

definition lock_timed_out :: "nat \<Rightarrow> lock_world \<Rightarrow> bool" where
  "lock_timed_out i w = (case tasks w i of TimedOut \<Rightarrow> True | _ \<Rightarrow> False)"

definition lock_script ::
  "duration \<Rightarrow> lock_event list \<Rightarrow> lock_world \<Rightarrow> (lock_world \<Rightarrow> bool) \<Rightarrow> bool" where
  "lock_script m es w check =
     (case run_events (gpu_acquire m) es w of None \<Rightarrow> False | Some w' \<Rightarrow> check w')"

text \<open>\<^verbatim>\<open>lock.acquire(timeout).await.unwrap()\<close>, which must succeed at once.\<close>

definition acquire_now ::
  "duration \<Rightarrow> nat \<Rightarrow> lease_id \<Rightarrow> duration \<Rightarrow> lock_world \<Rightarrow>
     (lease_id \<Rightarrow> lock_world \<Rightarrow> bool) \<Rightarrow> bool" where
  "acquire_now m i new timeout w check =
     lock_script m [Spawn i () timeout, Poll i new] w
       (\<lambda>w'. case lease_of i w' of None \<Rightarrow> False | Some l \<Rightarrow> check l w')"

text \<open>\<^verbatim>\<open>lock.release(lease)\<close>: the check gets whether it succeeded, and the world after.\<close>

definition release_now ::
  "duration \<Rightarrow> lease_id \<Rightarrow> lock_world \<Rightarrow> (bool \<Rightarrow> lock_world \<Rightarrow> bool) \<Rightarrow> bool" where
  "release_now m l w check =
     check (case fst (release_lease (\<lambda>c. c \<notin> closed w) l (shared w)) of Inr _ \<Rightarrow> True | Inl e \<Rightarrow> False)
       (perform (gpu_acquire m) (Release_Lease l) w)"

lemmas lock_test_defs [eval_simps] =
  lease_of_def lock_pending_def lock_timed_out_def lock_script_def acquire_now_def
  release_now_def lock_start_def

section \<open>The tests\<close>

definition acquire_and_release_round_trips :: bool where
  "acquire_and_release_round_trips =
     (let m = from_secs 60
      in acquire_now m 0 1 (from_secs 1) lock_start (\<lambda>l w. release_now m l w (\<lambda>ok _. ok)))"

definition a_second_acquire_waits_for_the_first_release :: bool where
  "a_second_acquire_waits_for_the_first_release =
     (let m = from_secs 60
      in acquire_now m 0 1 (from_secs 1) lock_start (\<lambda>first w.
           lock_script m [Spawn 1 () (from_secs 5), Poll 1 9, Tick (from_millis 50)] w (\<lambda>w.
             release_now m first w (\<lambda>ok w. ok \<and>
               lock_script m [Poll 1 2] w (\<lambda>w.
                 case lease_of 1 w of
                   None \<Rightarrow> False
                 | Some second \<Rightarrow> release_now m second w (\<lambda>ok _. ok))))))"

definition acquire_times_out_clearly_when_never_released :: bool where
  "acquire_times_out_clearly_when_never_released =
     (let m = from_secs 60
      in acquire_now m 0 1 (from_secs 1) lock_start (\<lambda>_ w.
           lock_script m [Spawn 1 () (from_millis 50), Poll 1 2, Tick (from_millis 50), Expire 1] w
             (lock_timed_out 1)))"

definition releasing_an_unknown_or_already_released_lease_is_a_clear_error :: bool where
  "releasing_an_unknown_or_already_released_lease_is_a_clear_error =
     (let m = from_secs 60
      in acquire_now m 0 1 (from_secs 1) lock_start (\<lambda>l w.
           release_now m l w (\<lambda>ok w. ok \<and>
             fst (release_lease (\<lambda>c. c \<notin> closed w) l (shared w)) = Inl Unknown_Lease)))"

definition release_rejects_a_lease_that_does_not_match_the_current_holder :: bool where
  "release_rejects_a_lease_that_does_not_match_the_current_holder =
     (let m = from_secs 60
      in acquire_now m 0 1 (from_secs 1) lock_start (\<lambda>real_holder w.
           fst (release_lease (\<lambda>c. c \<notin> closed w) 2 (shared w)) = Inl Unknown_Lease \<and>
           release_now m 2 w (\<lambda>_ w. release_now m real_holder w (\<lambda>ok _. ok))))"

definition release_wakes_every_queued_waiter_not_just_the_first :: bool where
  "release_wakes_every_queued_waiter_not_just_the_first =
     (let m = from_secs 60
      in acquire_now m 0 1 (from_secs 5) lock_start (\<lambda>held w.
           lock_script m [Spawn 1 () (from_secs 5), Poll 1 9] w (\<lambda>w. lock_pending 1 w \<and>
             lock_script m [Spawn 2 () (from_secs 5), Poll 2 9, Tick (from_millis 20)] w (\<lambda>w.
               release_now m held w (\<lambda>ok w. ok \<and>
                 lock_script m [Abandon 1, Poll 2 2] w (\<lambda>w.
                   case lease_of 2 w of
                     None \<Rightarrow> False
                   | Some admitted \<Rightarrow>
                       release_now m admitted w (\<lambda>ok w. ok \<and> \<not> is_held (shared w))))))))"

definition reap_expired_force_releases_a_lease_past_max_hold :: bool where
  "reap_expired_force_releases_a_lease_past_max_hold =
     (let m = from_millis 50
      in acquire_now m 0 1 (from_secs 1) lock_start (\<lambda>_ w.
           lock_script m [Tick (from_millis 100), Operate Reap] w (\<lambda>w.
             acquire_now m 1 2 (from_secs 1) w (\<lambda>_ _. True))))"

definition reap_expired_is_a_no_op_when_nothing_is_held_or_the_hold_is_still_fresh :: bool where
  "reap_expired_is_a_no_op_when_nothing_is_held_or_the_hold_is_still_fresh =
     (let m = from_secs 60
      in lock_script m [Operate Reap] lock_start (\<lambda>w.
           acquire_now m 0 1 (from_secs 1) w (\<lambda>held w.
             lock_script m [Operate Reap] w (\<lambda>w. release_now m held w (\<lambda>ok _. ok)))))"

definition a_late_release_after_reap_cannot_steal_the_next_holders_lock :: bool where
  "a_late_release_after_reap_cannot_steal_the_next_holders_lock =
     (let m = from_millis 50
      in acquire_now m 0 1 (from_secs 1) lock_start (\<lambda>stale w.
           lock_script m [Tick (from_millis 100), Operate Reap] w (\<lambda>w.
             acquire_now m 1 2 (from_secs 1) w (\<lambda>fresh_lease w.
               fst (release_lease (\<lambda>c. c \<notin> closed w) stale (shared w)) = Inl Unknown_Lease \<and>
               release_now m stale w (\<lambda>_ w. is_held (shared w) \<and>
                 release_now m fresh_lease w (\<lambda>ok _. ok))))))"

definition reap_expired_wakes_a_queued_waiter :: bool where
  "reap_expired_wakes_a_queued_waiter =
     (let m = from_millis 50
      in acquire_now m 0 1 (from_secs 1) lock_start (\<lambda>_ w.
           lock_script m
             [Spawn 1 () (from_secs 60), Poll 1 9, Tick (from_millis 20), Tick (from_millis 60),
              Operate Reap, Poll 1 2] w (\<lambda>w.
             case lease_of 1 w of
               None \<Rightarrow> False
             | Some admitted \<Rightarrow> release_now m admitted w (\<lambda>ok _. ok))))"

section \<open>The results\<close>

lemma passes_acquire_and_release_round_trips:
  acquire_and_release_round_trips
  by (simp add: acquire_and_release_round_trips_def eval_simps)

lemma passes_a_second_acquire_waits_for_the_first_release:
  a_second_acquire_waits_for_the_first_release
  by (simp add: a_second_acquire_waits_for_the_first_release_def eval_simps)

lemma passes_acquire_times_out_clearly_when_never_released:
  acquire_times_out_clearly_when_never_released
  by (simp add: acquire_times_out_clearly_when_never_released_def eval_simps)

lemma passes_releasing_an_unknown_or_already_released_lease_is_a_clear_error:
  releasing_an_unknown_or_already_released_lease_is_a_clear_error
  by (simp add: releasing_an_unknown_or_already_released_lease_is_a_clear_error_def eval_simps)

lemma passes_release_rejects_a_lease_that_does_not_match_the_current_holder:
  release_rejects_a_lease_that_does_not_match_the_current_holder
  by (simp add: release_rejects_a_lease_that_does_not_match_the_current_holder_def eval_simps)

lemma passes_release_wakes_every_queued_waiter_not_just_the_first:
  release_wakes_every_queued_waiter_not_just_the_first
  by (simp add: release_wakes_every_queued_waiter_not_just_the_first_def eval_simps)

lemma passes_reap_expired_force_releases_a_lease_past_max_hold:
  reap_expired_force_releases_a_lease_past_max_hold
  by (simp add: reap_expired_force_releases_a_lease_past_max_hold_def eval_simps)

lemma passes_reap_expired_is_a_no_op_when_nothing_is_held_or_the_hold_is_still_fresh:
  reap_expired_is_a_no_op_when_nothing_is_held_or_the_hold_is_still_fresh
  by (simp add: reap_expired_is_a_no_op_when_nothing_is_held_or_the_hold_is_still_fresh_def eval_simps)

lemma passes_a_late_release_after_reap_cannot_steal_the_next_holders_lock:
  a_late_release_after_reap_cannot_steal_the_next_holders_lock
  by (simp add: a_late_release_after_reap_cannot_steal_the_next_holders_lock_def eval_simps)

lemma passes_reap_expired_wakes_a_queued_waiter:
  reap_expired_wakes_a_queued_waiter
  by (simp add: reap_expired_wakes_a_queued_waiter_def eval_simps)

lemmas lock_tests_pass =
  passes_acquire_and_release_round_trips
  passes_a_second_acquire_waits_for_the_first_release
  passes_acquire_times_out_clearly_when_never_released
  passes_releasing_an_unknown_or_already_released_lease_is_a_clear_error
  passes_release_rejects_a_lease_that_does_not_match_the_current_holder
  passes_release_wakes_every_queued_waiter_not_just_the_first
  passes_reap_expired_force_releases_a_lease_past_max_hold
  passes_reap_expired_is_a_no_op_when_nothing_is_held_or_the_hold_is_still_fresh
  passes_a_late_release_after_reap_cannot_steal_the_next_holders_lock
  passes_reap_expired_wakes_a_queued_waiter

end
