(* ===== verification/Reader_Tests.thy ===== *)
theory Reader_Tests
  imports Host_Guard Gpu_Probe Llama_Client Sched_System
begin

text \<open>
  The repository's own tests of what the broker reads from outside: the Host header
  (src/src/host_guard.rs), the GPU probe's output and files (src/src/gpu.rs) and llama-server's
  answers (src/src/llama_client.rs), run on the model. Those that start a real command or
  HTTP server give the model its answer instead.
\<close>

section \<open>The Host header\<close>

definition evil_host_is_rejected :: bool where
  "evil_host_is_rejected =
     (\<not> host_is_allowed ''evil.example'' [] \<and> \<not> host_is_allowed ''evil.example:8899'' [])"

definition localhost_with_any_port_is_allowed :: bool where
  "localhost_with_any_port_is_allowed =
     (host_is_allowed ''localhost'' [] \<and> host_is_allowed ''localhost:8899'' [] \<and>
      host_is_allowed ''LOCALHOST:1'' [])"

definition ipv4_loopback_range_with_any_port_is_allowed :: bool where
  "ipv4_loopback_range_with_any_port_is_allowed =
     (host_is_allowed ''127.0.0.1'' [] \<and> host_is_allowed ''127.0.0.1:8899'' [] \<and>
      host_is_allowed ''127.255.255.255:1'' [])"

definition ipv4_outside_loopback_range_is_rejected :: bool where
  "ipv4_outside_loopback_range_is_rejected =
     (\<not> host_is_allowed ''10.0.0.1:8899'' [] \<and> \<not> host_is_allowed ''128.0.0.1'' [])"

definition bracketed_ipv6_loopback_with_any_port_is_allowed :: bool where
  "bracketed_ipv6_loopback_with_any_port_is_allowed =
     (host_is_allowed ''[::1]'' [] \<and> host_is_allowed ''[::1]:8899'' [])"

definition non_loopback_ipv6_is_rejected :: bool where
  "non_loopback_ipv6_is_rejected = (\<not> host_is_allowed ''[::2]:8899'' [])"

definition extra_allowed_host_is_accepted_with_any_port :: bool where
  "extra_allowed_host_is_accepted_with_any_port =
     (let extra = [''my-box.lan'']
      in host_is_allowed ''my-box.lan:8899'' extra \<and> host_is_allowed ''MY-BOX.LAN'' extra \<and>
         \<not> host_is_allowed ''other.lan:8899'' extra)"

section \<open>The GPU probe\<close>

definition newline :: string where
  "newline = [CHR 0x0A]"

definition nvidia_smi_output_sums_every_gpu :: bool where
  "nvidia_smi_output_sums_every_gpu =
     (parse_nvidia_smi (''23028, 689'' @ newline) =
        Some \<lparr>total_bytes = 23028 * mib, used_bytes = 689 * mib\<rparr> \<and>
      parse_nvidia_smi (''24564, 1000'' @ newline @ ''24564, 2000'' @ newline @ newline) =
        Some \<lparr>total_bytes = 2 * 24564 * mib, used_bytes = 3000 * mib\<rparr> \<and>
      parse_nvidia_smi '''' = None \<and>
      parse_nvidia_smi (''[N/A], [N/A]'' @ newline) = None)"

text \<open>The two files of a card, with the sizes 2, 1, 16 and 4 GiB written out.\<close>

definition card :: "string \<Rightarrow> string \<Rightarrow> string \<Rightarrow> drm_entry" where
  "card name tot used =
     \<lparr>entry_name = name, total_file = Some (tot @ newline), used_file = Some (used @ newline)\<rparr>"

definition amd_sysfs_picks_the_card_with_the_most_vram :: bool where
  "amd_sysfs_picks_the_card_with_the_most_vram =
     (amd (Some
        [card ''card0'' ''2147483648'' ''1073741824'', card ''card1'' ''17179869184'' ''4294967296'',
         \<lparr>entry_name = ''card1-DP-1'', total_file = None, used_file = None\<rparr>]) =
      Some \<lparr>total_bytes = 16 * 2 ^ 30, used_bytes = 4 * 2 ^ 30\<rparr>)"

definition amd_sysfs_without_vram_files_is_none :: bool where
  "amd_sysfs_without_vram_files_is_none =
     (amd (Some [\<lparr>entry_name = ''card0'', total_file = None, used_file = None\<rparr>]) = None \<and>
      amd None = None)"

definition a_mixed_line_with_na_makes_the_whole_probe_none :: bool where
  "a_mixed_line_with_na_makes_the_whole_probe_none =
     (parse_nvidia_smi (''24564, 1000'' @ newline @ ''[N/A], [N/A]'' @ newline) = None)"

definition the_none_source_never_probes :: bool where
  "the_none_source_never_probes =
     (probe_vram No_Source (Some (''23028, 689'' @ newline)) (Some [card ''card0'' ''2'' ''1'']) = None)"

section \<open>Answers of llama-server\<close>

definition slot_entry :: "u64 \<Rightarrow> json \<Rightarrow> bool \<Rightarrow> json" where
  "slot_entry i task processing =
     Obj [(''id'', Unsigned i), (''id_task'', task), (''is_processing'', Bool processing),
          (''n_ctx'', Unsigned 65536)]"

definition short_entry :: "u64 \<Rightarrow> bool \<Rightarrow> json" where
  "short_entry i processing = Obj [(''id'', Unsigned i), (''is_processing'', Bool processing)]"

definition parses_real_slots_response_shape :: bool where
  "parses_real_slots_response_shape =
     (parse_slots (Arr [slot_entry 0 (Unsigned 135) True, slot_entry 1 (Negative (- 1)) False]) =
      Some [\<lparr>llama_slot_id = 0, is_processing = True\<rparr>, \<lparr>llama_slot_id = 1, is_processing = False\<rparr>])"

definition model_entry :: "string \<Rightarrow> string \<Rightarrow> json" where
  "model_entry i status = Obj [(''id'', Str i), (''status'', Obj [(''value'', Str status)])]"

definition parse_models_reads_router_statuses_and_single_model_servers :: bool where
  "parse_models_reads_router_statuses_and_single_model_servers =
     (parse_models
        (Obj [(''data'',
           Arr [model_entry ''a'' ''loaded'', model_entry ''b'' ''loading'',
                model_entry ''c'' ''unloaded'',
                Obj [(''id'', Str ''d''),
                     (''status'', Obj [(''value'', Str ''sleeping''), (''args'', Arr [])])],
                model_entry ''e'' ''reticulating''])]) =
      Some [\<lparr>model_name = ''a'', loaded = True\<rparr>, \<lparr>model_name = ''b'', loaded = True\<rparr>,
            \<lparr>model_name = ''c'', loaded = False\<rparr>, \<lparr>model_name = ''d'', loaded = False\<rparr>] \<and>
      parse_models
        (Obj [(''data'', Arr [Obj [(''id'', Str ''only''), (''object'', Str ''model'')]])]) =
      Some [\<lparr>model_name = ''only'', loaded = True\<rparr>] \<and>
      parse_models (Obj [(''nope'', Unsigned 1)]) = None)"

definition seed_scheduler_marks_processing_slots_busy :: bool where
  "seed_scheduler_marks_processing_slots_busy =
     (case seed_scheduler_from_llama_server
         (Reply 200 (Some (Arr [short_entry 0 True, short_entry 1 False]))) (new_scheduler 2) of
        (count, st) \<Rightarrow>
          count = Inr 2 \<and>
          (case run_events sched_admit [Spawn 0 None (from_millis 50), Poll 0 ()] (start_world st) of
             None \<Rightarrow> False
           | Some w \<Rightarrow>
               (case tasks w 0 of Holding a \<Rightarrow> slot_id a = 1 | _ \<Rightarrow> False)))"

section \<open>The results\<close>

lemma passes_evil_host_is_rejected:
  evil_host_is_rejected
  by (simp add: evil_host_is_rejected_def eval_simps)

lemma passes_localhost_with_any_port_is_allowed:
  localhost_with_any_port_is_allowed
  by code_simp

lemma passes_ipv4_loopback_range_with_any_port_is_allowed:
  ipv4_loopback_range_with_any_port_is_allowed
  by (simp add: ipv4_loopback_range_with_any_port_is_allowed_def eval_simps)

lemma passes_ipv4_outside_loopback_range_is_rejected:
  ipv4_outside_loopback_range_is_rejected
  by (simp add: ipv4_outside_loopback_range_is_rejected_def eval_simps)

lemma passes_bracketed_ipv6_loopback_with_any_port_is_allowed:
  bracketed_ipv6_loopback_with_any_port_is_allowed
  by (simp add: bracketed_ipv6_loopback_with_any_port_is_allowed_def eval_simps)

lemma passes_non_loopback_ipv6_is_rejected:
  non_loopback_ipv6_is_rejected
  by (simp add: non_loopback_ipv6_is_rejected_def eval_simps)

lemma passes_extra_allowed_host_is_accepted_with_any_port:
  extra_allowed_host_is_accepted_with_any_port
  by (simp add: extra_allowed_host_is_accepted_with_any_port_def eval_simps) code_simp

lemma passes_nvidia_smi_output_sums_every_gpu:
  nvidia_smi_output_sums_every_gpu
  by (simp add: nvidia_smi_output_sums_every_gpu_def eval_simps newline_def card_def)

lemma passes_amd_sysfs_picks_the_card_with_the_most_vram:
  amd_sysfs_picks_the_card_with_the_most_vram
  by (simp add: amd_sysfs_picks_the_card_with_the_most_vram_def eval_simps newline_def card_def)

lemma passes_amd_sysfs_without_vram_files_is_none:
  amd_sysfs_without_vram_files_is_none
  by (simp add: amd_sysfs_without_vram_files_is_none_def eval_simps newline_def card_def)

lemma passes_a_mixed_line_with_na_makes_the_whole_probe_none:
  a_mixed_line_with_na_makes_the_whole_probe_none
  by (simp add: a_mixed_line_with_na_makes_the_whole_probe_none_def eval_simps newline_def card_def)

lemma passes_the_none_source_never_probes:
  the_none_source_never_probes
  by (simp add: the_none_source_never_probes_def eval_simps)

lemma passes_parses_real_slots_response_shape:
  parses_real_slots_response_shape
  by (simp add: parses_real_slots_response_shape_def eval_simps slot_entry_def)

lemma passes_parse_models_reads_router_statuses_and_single_model_servers:
  parse_models_reads_router_statuses_and_single_model_servers
  by code_simp

lemma passes_seed_scheduler_marks_processing_slots_busy:
  seed_scheduler_marks_processing_slots_busy
  by (simp add: seed_scheduler_marks_processing_slots_busy_def eval_simps short_entry_def
      seed_scheduler_from_llama_server_def seed_slots_def)

section \<open>A real endpoint, real commands\<close>

text \<open>The mock server knows one route; a command is what the system reports of its child.\<close>

definition mock_slots :: "string \<Rightarrow> string \<Rightarrow> string \<Rightarrow> json reply" where
  "mock_slots uri meth url =
     (if meth = ''GET'' \<and> url = uri @ ''/slots''
      then Reply 200 (Some (Arr [Obj [(''id'', Unsigned 0), (''is_processing'', Bool False)]]))
      else Reply 404 None)"

definition fetch_slots_hits_the_real_endpoint_path :: bool where
  "fetch_slots_hits_the_real_endpoint_path =
     (get_slots (mock_slots ''http://127.0.0.1:4'') ''http://127.0.0.1:4'' =
        Inr [\<lparr>llama_slot_id = 0, is_processing = False\<rparr>])"

definition polling_clock :: "nat \<Rightarrow> instant" where
  "polling_clock i = i * poll_interval"

definition run_with_deadline_returns_a_quick_commands_stdout :: bool where
  "run_with_deadline_returns_a_quick_commands_stdout =
     (let echo = (\<lambda>i. if i = 0 then Running else Exited True);
          output = Some ''23028, 689''
      in run_with_deadline True echo polling_clock True (Some output) 0 (from_secs 2) = Some output \<and>
         run_with_deadline True (\<lambda>_. Exited False) polling_clock True (Some (Some [])) 0 (from_secs 2) = Some None \<and>
         run_with_deadline False (\<lambda>_. Wait_Error) polling_clock True None 0 (from_secs 2) = Some None)"

text \<open>The second value of the loop is its last round, so the time that has passed.\<close>

definition run_with_deadline_kills_a_hung_command :: bool where
  "run_with_deadline_kills_a_hung_command =
     (run_with_deadline True (\<lambda>_. Running) polling_clock True None 0 (from_millis 200) = Some None \<and>
      (case wait_loop (\<lambda>_. Running) polling_clock (from_millis 200) 0 of
         None \<Rightarrow> False
       | Some (status, i) \<Rightarrow> status = None \<and> polling_clock i < from_secs 2))"

lemma passes_fetch_slots_hits_the_real_endpoint_path: fetch_slots_hits_the_real_endpoint_path
  by (simp add: fetch_slots_hits_the_real_endpoint_path_def mock_slots_def eval_simps)

lemma passes_run_with_deadline_returns_a_quick_commands_stdout:
  run_with_deadline_returns_a_quick_commands_stdout
  by (simp add: run_with_deadline_returns_a_quick_commands_stdout_def run_with_deadline_def
      polling_clock_def poll_interval_def time_defs wait_loop_sleep wait_loop_stop(1)
      wait_loop_stop(2) [where b = True] wait_loop_stop(2) [where b = False])

lemma passes_run_with_deadline_kills_a_hung_command: run_with_deadline_kills_a_hung_command
  by (simp add: run_with_deadline_kills_a_hung_command_def run_with_deadline_def
      polling_clock_def poll_interval_def time_defs wait_loop_sleep wait_loop_stop(1)
      wait_loop_stop(2) [where b = True] wait_loop_stop(2) [where b = False])

lemmas reader_tests_pass =
  passes_fetch_slots_hits_the_real_endpoint_path
  passes_run_with_deadline_returns_a_quick_commands_stdout
  passes_run_with_deadline_kills_a_hung_command
  passes_evil_host_is_rejected
  passes_localhost_with_any_port_is_allowed
  passes_ipv4_loopback_range_with_any_port_is_allowed
  passes_ipv4_outside_loopback_range_is_rejected
  passes_bracketed_ipv6_loopback_with_any_port_is_allowed
  passes_non_loopback_ipv6_is_rejected
  passes_extra_allowed_host_is_accepted_with_any_port
  passes_nvidia_smi_output_sums_every_gpu
  passes_amd_sysfs_picks_the_card_with_the_most_vram
  passes_amd_sysfs_without_vram_files_is_none
  passes_a_mixed_line_with_na_makes_the_whole_probe_none
  passes_the_none_source_never_probes
  passes_parses_real_slots_response_shape
  passes_parse_models_reads_router_statuses_and_single_model_servers
  passes_seed_scheduler_marks_processing_slots_busy

end
