(* ===== verification/Config_Tests.thy ===== *)
theory Config_Tests
  imports Config
begin

text \<open>
  The repository's own tests of the configuration (src/src/config.rs), run on the model. The
  argument parser is \<open>plain_reader\<close>, on the options of the command line of each test.
\<close>

text \<open>The program's name, then an option and its value each.\<close>

fun options_of :: "string list \<Rightarrow> (string \<times> string) list" where
  "options_of (l # v # args) = (drop 2 l, v) # options_of args"
| "options_of _ = []"

definition parse_from :: "string list \<Rightarrow> broker_config option" where
  "parse_from args = parse_config (plain_reader (options_of (drop 1 args)))"

definition parses_required_and_default_fields :: bool where
  "parses_required_and_default_fields =
     (case parse_from
        [''aivyx-broker'', ''--llama-server-url'', ''http://127.0.0.1:8080'',
         ''--kvcache-store-path'', ''/tmp/kv''] of
        None \<Rightarrow> False
      | Some cfg \<Rightarrow>
          port cfg = 8899 \<and> llama_server_url cfg = ''http://127.0.0.1:8080'' \<and>
          kvcache_store_path cfg = ''/tmp/kv'' \<and>
          kvcache_max_bytes cfg = 10 * 1024 * 1024 * 1024 \<and>
          queue_timeout_secs cfg = 60 \<and> gpu_lock_queue_timeout_secs cfg = 280 \<and>
          gpu_lock_max_hold_secs cfg = 900 \<and> max_request_body_bytes cfg = 64 * 1024 * 1024 \<and>
          allowed_hosts cfg = [])"

definition allowed_hosts_parses_a_comma_separated_list :: bool where
  "allowed_hosts_parses_a_comma_separated_list =
     (map_option allowed_hosts (parse_from
        [''aivyx-broker'', ''--llama-server-url'', ''http://127.0.0.1:8080'',
         ''--kvcache-store-path'', ''/tmp/kv'', ''--allowed-hosts'', ''my-box.lan,10.0.0.5'']) =
      Some [''my-box.lan'', ''10.0.0.5''])"

definition overrides_apply :: bool where
  "overrides_apply =
     (case parse_from
        [''aivyx-broker'', ''--llama-server-url'', ''http://127.0.0.1:9090'',
         ''--kvcache-store-path'', ''/tmp/kv2'', ''--port'', ''9999'',
         ''--queue-timeout-secs'', ''5''] of
        None \<Rightarrow> False
      | Some cfg \<Rightarrow> port cfg = 9999 \<and> queue_timeout_secs cfg = 5)"

definition vram_source_defaults_to_auto_and_parses :: bool where
  "vram_source_defaults_to_auto_and_parses =
     (let base =
        [''aivyx-broker'', ''--llama-server-url'', ''http://x'', ''--kvcache-store-path'', ''/tmp/k'']
      in map_option config_vram_source (parse_from base) = Some Auto \<and>
         map_option config_vram_source (parse_from (base @ [''--vram-source'', ''none''])) =
           Some No_Source)"

lemmas config_test_defs =
  parse_from_def parse_config_def option_value_def plain_reader_def read_word_def
  read_vram_source_def vram_source_names_def default_max_request_body_bytes_def

lemma config_tests_pass:
  "parses_required_and_default_fields"
  "allowed_hosts_parses_a_comma_separated_list"
  "overrides_apply"
  "vram_source_defaults_to_auto_and_parses"
  by (simp_all add: config_test_defs eval_simps parses_required_and_default_fields_def
      allowed_hosts_parses_a_comma_separated_list_def overrides_apply_def
      vram_source_defaults_to_auto_and_parses_def)

end
