(* ===== verification/Server_Tests.thy ===== *)
theory Server_Tests
  imports Broker_Main
begin

text \<open>
  The repository's own tests of the service (the test module of src/src/server.rs), run on the
  model: the fake llama-server and the KV store behind it are an answer and a list of saved
  keys, a request over HTTP is a call of the router or of the handler behind it. The
  tests that stream a response and those of the body limit are in Stream_Tests.
\<close>

section \<open>A llama-server that answers, and requests served one by one\<close>

text \<open>\<open>store_up\<close>: whether llama-server also answers the calls of the slot store.\<close>

record session =
  sess_sched :: inner
  sess_saved :: "cache_key list"
  store_up :: bool

fun status_only :: "'b reply \<Rightarrow> unit reply" where
  "status_only Unreachable = Unreachable"
| "status_only (Reply code b) = Reply code None"

definition session_answers :: "json reply \<Rightarrow> slot_hint option \<Rightarrow> session \<Rightarrow> json answers" where
  "session_answers r hint s =
     \<lparr>restore_answer =
        (case hint of None \<Rightarrow> None | Some h \<Rightarrow> Some (hint_key h \<in> set (sess_saved s))),
      warm_answer = status_only r,
      save_answer = (if store_up s then Some () else None),
      post_answer = r\<rparr>"

fun saved_key :: "action \<Rightarrow> cache_key option" where
  "saved_key (Save key k) = Some key"
| "saved_key _ = None"

text \<open>One chat request, from admission to the slot's release; what it did and was answered.\<close>

definition serve_chat :: "json reply \<Rightarrow> json \<Rightarrow> session \<Rightarrow> json chat_answer \<times> action list \<times> session" where
  "serve_chat r body s =
     (let hint = fst (split_request body)
      in case try_admit_locked hint (sess_sched s) of
           None \<Rightarrow> (chat_answer (\<lambda>_. ''unreachable'') None, [], s)
         | Some (a, st) \<Rightarrow>
             (let (head, acts) = chat_job (session_answers r hint s) body a
              in (chat_answer (\<lambda>_. ''unreachable'') (Some head), acts,
                  s\<lparr>sess_sched := fst (release (\<lambda>_. True) (slot_id a) (schedule_actions acts st)),
                    sess_saved :=
                      (if store_up s then List.map_filter saved_key acts @ sess_saved s
                       else sess_saved s)\<rparr>)))"

definition new_session :: "u32 \<Rightarrow> bool \<Rightarrow> session" where
  "new_session n up = \<lparr>sess_sched = new_scheduler n, sess_saved = [], store_up = up\<rparr>"

fun relayed_status :: "json chat_answer \<Rightarrow> nat option" where
  "relayed_status (Relayed code b) = Some code"
| "relayed_status (Own r) = None"

fun posted :: "action \<Rightarrow> json option" where
  "posted (Post b) = Some b"
| "posted _ = None"

fun warmed_up :: "action \<Rightarrow> json option" where
  "warmed_up (Warm_Up b) = Some b"
| "warmed_up _ = None"

fun restored_key :: "action \<Rightarrow> cache_key option" where
  "restored_key (Restore key k) = Some key"
| "restored_key _ = None"

definition message :: "string \<Rightarrow> string \<Rightarrow> json" where
  "message role content = Obj [(''role'', Str role), (''content'', Str content)]"

definition helpful_messages :: json where
  "helpful_messages = Arr [message ''system'' ''You are helpful.'', message ''user'' ''hi'']"

definition hint_field :: "string \<Rightarrow> json" where
  "hint_field p = Obj [(''prefix_hash'', Str p), (''preferred_slot'', Null)]"

definition ok_reply :: "json reply" where
  "ok_reply = Reply 200 (Some (Obj [(''choices'', Arr [])]))"

lemmas session_defs [eval_simps] =
  session_answers_def serve_chat_def new_session_def message_def helpful_messages_def
  hint_field_def ok_reply_def

section \<open>Chat requests\<close>

definition cold_request_warms_slot_then_forwards_and_saves :: bool where
  "cold_request_warms_slot_then_forwards_and_saves =
     (let body = Obj [(''messages'', helpful_messages), (''aivyx_slot_hint'', hint_field ''abc123'')];
          (answer, acts, s) = serve_chat ok_reply body (new_session 2 False)
      in relayed_status answer = Some 200 \<and>
         length (List.map_filter warmed_up acts) + length (List.map_filter posted acts) = 2)"

definition llama_server_error_status_and_body_are_forwarded_untouched :: bool where
  "llama_server_error_status_and_body_are_forwarded_untouched =
     (let upstream_error_body =
            Obj [(''error'', Obj [(''message'', Str ''slot is busy''), (''type'', Str ''server_error'')])];
          body = Obj [(''messages'', Arr [message ''user'' ''hi''])]
      in fst (serve_chat (Reply 429 (Some upstream_error_body)) body (new_session 2 False)) =
           Relayed 429 (Some upstream_error_body))"

definition warm_up_request_includes_tools_from_the_real_client_request :: bool where
  "warm_up_request_includes_tools_from_the_real_client_request =
     (let tools =
            Arr [Obj [(''type'', Str ''function''),
                      (''function'', Obj [(''name'', Str ''get_weather''), (''parameters'', Obj [])])]];
          body = Obj [(''messages'', helpful_messages), (''tools'', tools),
                      (''aivyx_slot_hint'', hint_field ''abc123'')];
          (answer, acts, s) = serve_chat ok_reply body (new_session 2 False)
      in relayed_status answer = Some 200 \<and>
         map (json_get ''tools'') (List.map_filter warmed_up acts) = [Some tools])"

text \<open>The request of one of the two models.\<close>

definition shared_prefix_request :: "string \<Rightarrow> json" where
  "shared_prefix_request model =
     Obj [(''model'', Str model), (''messages'', helpful_messages),
          (''aivyx_slot_hint'', hint_field ''shared'')]"

text \<open>
  Restores that llama-server sees: the store asks it only for a key it has saved.
\<close>

definition restores :: "session \<Rightarrow> action list \<Rightarrow> cache_key list" where
  "restores s acts = filter (\<lambda>key. key \<in> set (sess_saved s)) (List.map_filter restored_key acts)"

definition two_models_with_the_same_prefix_never_share_a_saved_or_resident_slot :: bool where
  "two_models_with_the_same_prefix_never_share_a_saved_or_resident_slot =
     (let s0 = new_session 1 True;
          (r1, a, s1) = serve_chat ok_reply (shared_prefix_request ''model-a'') s0;
          (r2, b, s2) = serve_chat ok_reply (shared_prefix_request ''model-b'') s1;
          (r3, a2, s3) = serve_chat ok_reply (shared_prefix_request ''model-a'') s2
      in map relayed_status [r1, r2, r3] = [Some 200, Some 200, Some 200] \<and>
         restores s0 a = [] \<and>
         map (json_get ''model'') (List.map_filter warmed_up a) = [Some (Str ''model-a'')] \<and>
         restores s1 b = [] \<and>
         map (json_get ''model'') (List.map_filter warmed_up b) = [Some (Str ''model-b'')] \<and>
         map model_id (restores s2 a2) = [''model-a''] \<and>
         List.map_filter warmed_up a2 = [])"

definition hint_less_admission_clears_stale_resident_prefix_on_the_slot_it_lands_on :: bool where
  "hint_less_admission_clears_stale_resident_prefix_on_the_slot_it_lands_on =
     (let hinted =
            Obj [(''messages'', helpful_messages), (''aivyx_slot_hint'', hint_field ''abc123'')];
          hint_less = Obj [(''messages'', Arr [message ''user'' ''hi again''])];
          (r1, acts1, s1) = serve_chat ok_reply hinted (new_session 1 False);
          (r2, acts2, s2) = serve_chat ok_reply hint_less s1
      in map relayed_status [r1, r2] = [Some 200, Some 200] \<and>
         map snap_resident_prefix (snapshot (sess_sched s1)) = [Some ''abc123''] \<and>
         map snap_resident_prefix (snapshot (sess_sched s2)) = [None])"

definition queue_timeout_returns_503_not_a_hang :: bool where
  "queue_timeout_returns_503_not_a_hang =
     (case run_events sched_admit
         [Spawn 0 None (from_secs 1), Poll 0 (),
          Spawn 1 (fst (split_request (Obj [(''messages'', Arr [])]))) (from_millis 50), Poll 1 (),
          Tick (from_millis 50), Expire 1] (start_world (new_scheduler 1)) of
        None \<Rightarrow> False
      | Some w \<Rightarrow>
          (case tasks w 1 of
             TimedOut \<Rightarrow>
               (case chat_answer (\<lambda>_. '''') (None :: unit head_result option) of
                  Own r \<Rightarrow> resp_status r = 503
                | Relayed code b \<Rightarrow> False)
           | _ \<Rightarrow> False))"


section \<open>The other endpoints\<close>

text \<open>The endpoints without a body, behind the router; the state is the scheduler's.\<close>

fun reading_handler :: "json reply \<Rightarrow> vram option \<Rightarrow> endpoint \<Rightarrow> inner \<Rightarrow> response \<times> inner" where
  "reading_handler models v Status st = (status_handler ''http://127.0.0.1:1'', st)"
| "reading_handler models v Slots st = (slots_handler st, st)"
| "reading_handler models v Residency st = (residency_handler models v st, st)"
| "reading_handler models v _ st = (\<lparr>resp_status = 404, resp_body = Null\<rparr>, st)"

definition get_path ::
  "string list \<Rightarrow> json reply \<Rightarrow> vram option \<Rightarrow> string \<Rightarrow> string option \<Rightarrow> inner \<Rightarrow> response" where
  "get_path allowed models v path host st =
     fst (build_router (\<lambda>r. r) allowed (reading_handler models v) ''GET'' path host st)"

lemmas get_path_eval [eval_simps] = get_path_def

definition contract_vram :: vram where
  "contract_vram = \<lparr>total_bytes = 25769803776, used_bytes = 9663676416\<rparr>"

text \<open>The contract is the file src/tests/fixtures/broker_residency.json.\<close>

definition residency_matches_the_shared_contract :: bool where
  "residency_matches_the_shared_contract =
     (let models =
            Reply 200 (Some (Obj [(''data'',
              Arr [Obj [(''id'', Str ''qwen3-8b''), (''status'', Obj [(''value'', Str ''loaded'')])],
                   Obj [(''id'', Str ''gemma-3-4b''), (''status'', Obj [(''value'', Str ''unloaded'')])]])]))
      in case try_admit_locked None (new_scheduler 2) of
           None \<Rightarrow> False
         | Some (a, st) \<Rightarrow>
             get_path [] models (Some contract_vram) ''/v1/aivyx/residency'' (Some ''localhost'') st =
               \<lparr>resp_status = 200,
                resp_body =
                  Obj [(''models'',
                         Arr [Obj [(''id'', Str ''qwen3-8b''), (''loaded'', Bool True)],
                              Obj [(''id'', Str ''gemma-3-4b''), (''loaded'', Bool False)]]),
                       (''vram'',
                         Obj [(''total_bytes'', Unsigned 25769803776), (''used_bytes'', Unsigned 9663676416)]),
                       (''slots'', Obj [(''busy'', Unsigned 1), (''total'', Unsigned 2)])]\<rparr>)"

definition residency_without_upstream_or_gpu_still_answers :: bool where
  "residency_without_upstream_or_gpu_still_answers =
     (get_path [] Unreachable None ''/v1/aivyx/residency'' (Some ''localhost'') (new_scheduler 2) =
      \<lparr>resp_status = 200,
       resp_body =
         Obj [(''models'', Arr []), (''vram'', Null),
              (''slots'', Obj [(''busy'', Unsigned 0), (''total'', Unsigned 2)])]\<rparr>)"

definition status_of_get :: "string list \<Rightarrow> string \<Rightarrow> string option \<Rightarrow> nat" where
  "status_of_get allowed path host =
     resp_status (get_path allowed Unreachable None path host (new_scheduler 2))"

lemmas status_of_get_eval [eval_simps] = status_of_get_def

definition status_reports_llama_server_url :: bool where
  "status_reports_llama_server_url = (status_of_get [] ''/status'' (Some ''localhost'') = 200)"

definition a_spoofed_host_header_is_rejected_on_every_route :: bool where
  "a_spoofed_host_header_is_rejected_on_every_route =
     list_all (\<lambda>uri. status_of_get [] uri (Some ''evil.example'') = 421)
       [''/status'', ''/slots'', ''/v1/aivyx/residency'']"

definition loopback_host_headers_with_any_port_are_accepted :: bool where
  "loopback_host_headers_with_any_port_are_accepted =
     list_all (\<lambda>host. status_of_get [] ''/status'' (Some host) = 200)
       [''localhost:8899'', ''127.0.0.1:8899'', ''[::1]:8899'']"

definition a_missing_host_header_is_rejected :: bool where
  "a_missing_host_header_is_rejected = (status_of_get [] ''/status'' None = 421)"

definition a_configured_extra_allowed_host_is_accepted :: bool where
  "a_configured_extra_allowed_host_is_accepted =
     (status_of_get [''my-box.lan''] ''/status'' (Some ''my-box.lan:8899'') = 200)"

definition slots_reports_scheduler_snapshot :: bool where
  "slots_reports_scheduler_snapshot =
     (let r = get_path [] Unreachable None ''/slots'' (Some ''localhost'') (new_scheduler 2)
      in resp_status r = 200 \<and> map_option length (as_array (resp_body r)) = Some 2)"

section \<open>The cache of the GPU probe\<close>

text \<open>What \<^verbatim>\<open>CountingProbe\<close> reports.\<close>

definition counted :: vram where
  "counted = \<lparr>total_bytes = 2, used_bytes = 1\<rparr>"

definition a_hung_gpu_probe_still_answers_within_the_deadline :: bool where
  "a_hung_gpu_probe_still_answers_within_the_deadline =
     (case get_begin 0 empty_cache of
        (Served v, c) \<Rightarrow> False
      | (Probing, c) \<Rightarrow>
          residency_probe_deadline < from_secs 4 \<and>
          fst (get_end 0 residency_probe_deadline Timed_Out c) = None)"

definition a_hung_probe_is_never_stacked_past_the_cache_ttl :: bool where
  "a_hung_probe_is_never_stacked_past_the_cache_ttl =
     (case get_begin 0 empty_cache of
        (Served v, c) \<Rightarrow> False
      | (Probing, c) \<Rightarrow>
          (case get_end 0 residency_probe_deadline Timed_Out c of
             (v, c) \<Rightarrow>
               v = None \<and>
               fst (get_begin (residency_probe_deadline + from_millis 2600) c) = Served None))"

definition an_outstanding_probe_blocks_a_new_one_even_after_the_backoff :: bool where
  "an_outstanding_probe_blocks_a_new_one_even_after_the_backoff =
     (case get_begin 0 (empty_cache\<lparr>in_flight := True\<rparr>) of
        (Probing, c) \<Rightarrow> False
      | (Served v, c) \<Rightarrow>
          v = None \<and>
          (case get_begin 0 (c\<lparr>in_flight := False\<rparr>) of
             (Served v, c) \<Rightarrow> False
           | (Probing, c) \<Rightarrow> fst (get_end 0 0 (Joined (Some counted)) c) \<noteq> None))"

definition a_probe_killed_at_its_deadline_backs_off :: bool where
  "a_probe_killed_at_its_deadline_backs_off =
     (let ended = nvidia_smi_timeout + from_millis 50
      in case get_begin 0 empty_cache of
           (Served v, c) \<Rightarrow> False
         | (Probing, c) \<Rightarrow>
             (case get_end 0 ended (Joined None) (drop_in_flight c) of
                (v, c) \<Rightarrow>
                  v = None \<and>
                  fst (get_begin (ended + vram_cache_ttl + from_millis 200) c) = Served None))"

definition a_stale_reading_is_not_served_while_a_probe_is_stuck :: bool where
  "a_stale_reading_is_not_served_while_a_probe_is_stuck =
     (fst (get_begin (vram_timeout_backoff + from_secs 1)
        \<lparr>last_reading = Some \<lparr>taken = 0, reading = Some counted, fresh_for = vram_cache_ttl\<rparr>,
         in_flight = True\<rparr>) = Served None)"

definition back_to_back_residency_requests_share_one_probe :: bool where
  "back_to_back_residency_requests_share_one_probe =
     (case get_begin 0 empty_cache of
        (Served v, c) \<Rightarrow> False
      | (Probing, c) \<Rightarrow>
          (case get_end 0 0 (Joined (Some counted)) (drop_in_flight c) of
             (v, c) \<Rightarrow>
               let answer = Obj [(''total_bytes'', Unsigned 2), (''used_bytes'', Unsigned 1)]
               in vram_json v = answer \<and>
                  (case fst (get_begin 0 c) of
                     Served v' \<Rightarrow> vram_json v' = answer
                   | Probing \<Rightarrow> False)))"

section \<open>The GPU lock over HTTP\<close>

text \<open>A decimal number stands for a UUID; a fresh one is 7.\<close>

definition gpu_lock_acquire_then_release_round_trips_over_http :: bool where
  "gpu_lock_acquire_then_release_round_trips_over_http =
     (case run_events (gpu_acquire (from_secs 600)) [Spawn 0 () (from_secs 5), Poll 0 7] lock_start of
        None \<Rightarrow> False
      | Some w \<Rightarrow>
          (case gpu_lock_acquire_answer (\<lambda>l. ''7'') (tasks w 0) of
             None \<Rightarrow> False
           | Some r \<Rightarrow>
               resp_status r = 200 \<and>
               (case Option.bind (json_get ''lease_id'' (resp_body r)) as_str of
                  None \<Rightarrow> False
                | Some lease_id \<Rightarrow>
                    resp_status (fst (gpu_lock_release_handler decimal_uuid (\<lambda>_. True) lease_id
                      (shared w))) = 200)))"

definition gpu_lock_acquire_times_out_with_503_when_already_held :: bool where
  "gpu_lock_acquire_times_out_with_503_when_already_held =
     (case run_events (gpu_acquire (from_secs 600))
         [Spawn 0 () (from_secs 1), Poll 0 7, Spawn 1 () (from_millis 50), Poll 1 8,
          Tick (from_millis 50), Expire 1] lock_start of
        None \<Rightarrow> False
      | Some w \<Rightarrow> map_option resp_status (gpu_lock_acquire_answer (\<lambda>l. '''') (tasks w 1)) = Some 503)"

definition gpu_lock_release_with_an_unknown_lease_id_is_a_clear_error_not_a_panic :: bool where
  "gpu_lock_release_with_an_unknown_lease_id_is_a_clear_error_not_a_panic =
     (resp_status (fst (gpu_lock_release_handler decimal_uuid (\<lambda>_. True) ''9'' new_lock)) = 404)"

definition gpu_lock_release_with_a_malformed_lease_id_is_a_clear_400_not_a_panic :: bool where
  "gpu_lock_release_with_a_malformed_lease_id_is_a_clear_400_not_a_panic =
     (resp_status (fst (gpu_lock_release_handler decimal_uuid (\<lambda>_. True) ''not-a-uuid'' new_lock)) = 400)"

section \<open>The results\<close>

lemma passes_cold_request_warms_slot_then_forwards_and_saves:
  cold_request_warms_slot_then_forwards_and_saves
  by (simp add: cold_request_warms_slot_then_forwards_and_saves_def
      eval_simps Let_def)

lemma passes_llama_server_error_status_and_body_are_forwarded_untouched:
  llama_server_error_status_and_body_are_forwarded_untouched
  by (simp add: llama_server_error_status_and_body_are_forwarded_untouched_def
      eval_simps Let_def)

lemma passes_warm_up_request_includes_tools_from_the_real_client_request:
  warm_up_request_includes_tools_from_the_real_client_request
  by (simp add: warm_up_request_includes_tools_from_the_real_client_request_def
      eval_simps Let_def)

lemma passes_two_models_with_the_same_prefix_never_share_a_saved_or_resident_slot:
  two_models_with_the_same_prefix_never_share_a_saved_or_resident_slot
  by (simp add: two_models_with_the_same_prefix_never_share_a_saved_or_resident_slot_def
      eval_simps Let_def shared_prefix_request_def restores_def)

lemma passes_hint_less_admission_clears_stale_resident_prefix_on_the_slot_it_lands_on:
  hint_less_admission_clears_stale_resident_prefix_on_the_slot_it_lands_on
  by (simp add: hint_less_admission_clears_stale_resident_prefix_on_the_slot_it_lands_on_def
      eval_simps Let_def)

lemma passes_queue_timeout_returns_503_not_a_hang:
  queue_timeout_returns_503_not_a_hang
  by (simp add: queue_timeout_returns_503_not_a_hang_def
      eval_simps Let_def)

lemma passes_residency_matches_the_shared_contract:
  residency_matches_the_shared_contract
  by (simp add: residency_matches_the_shared_contract_def
      eval_simps Let_def contract_vram_def)

lemma passes_residency_without_upstream_or_gpu_still_answers:
  residency_without_upstream_or_gpu_still_answers
  by (simp add: residency_without_upstream_or_gpu_still_answers_def
      eval_simps Let_def)

lemma passes_status_reports_llama_server_url:
  status_reports_llama_server_url
  by (simp add: status_reports_llama_server_url_def
      eval_simps Let_def)

lemma passes_a_spoofed_host_header_is_rejected_on_every_route:
  a_spoofed_host_header_is_rejected_on_every_route
  by (simp add: a_spoofed_host_header_is_rejected_on_every_route_def
      eval_simps Let_def)

lemma passes_loopback_host_headers_with_any_port_are_accepted:
  loopback_host_headers_with_any_port_are_accepted
  by (simp add: loopback_host_headers_with_any_port_are_accepted_def
      eval_simps Let_def)

lemma passes_a_missing_host_header_is_rejected:
  a_missing_host_header_is_rejected
  by (simp add: a_missing_host_header_is_rejected_def
      eval_simps Let_def)

lemma passes_a_configured_extra_allowed_host_is_accepted:
  a_configured_extra_allowed_host_is_accepted
  by (simp add: a_configured_extra_allowed_host_is_accepted_def
      eval_simps Let_def)

lemma passes_slots_reports_scheduler_snapshot:
  slots_reports_scheduler_snapshot
  by (simp add: slots_reports_scheduler_snapshot_def
      eval_simps Let_def)

lemma passes_a_hung_gpu_probe_still_answers_within_the_deadline:
  a_hung_gpu_probe_still_answers_within_the_deadline
  by (simp add: a_hung_gpu_probe_still_answers_within_the_deadline_def
      eval_simps Let_def)

lemma passes_a_hung_probe_is_never_stacked_past_the_cache_ttl:
  a_hung_probe_is_never_stacked_past_the_cache_ttl
  by (simp add: a_hung_probe_is_never_stacked_past_the_cache_ttl_def
      eval_simps Let_def)

lemma passes_an_outstanding_probe_blocks_a_new_one_even_after_the_backoff:
  an_outstanding_probe_blocks_a_new_one_even_after_the_backoff
  by (simp add: an_outstanding_probe_blocks_a_new_one_even_after_the_backoff_def
      eval_simps Let_def counted_def)

lemma passes_a_probe_killed_at_its_deadline_backs_off:
  a_probe_killed_at_its_deadline_backs_off
  by (simp add: a_probe_killed_at_its_deadline_backs_off_def
      eval_simps Let_def)

lemma passes_a_stale_reading_is_not_served_while_a_probe_is_stuck:
  a_stale_reading_is_not_served_while_a_probe_is_stuck
  by (simp add: a_stale_reading_is_not_served_while_a_probe_is_stuck_def
      eval_simps Let_def counted_def)

lemma passes_back_to_back_residency_requests_share_one_probe:
  back_to_back_residency_requests_share_one_probe
  by (simp add: back_to_back_residency_requests_share_one_probe_def
      eval_simps Let_def counted_def)

lemma passes_gpu_lock_acquire_then_release_round_trips_over_http:
  gpu_lock_acquire_then_release_round_trips_over_http
  by (simp add: gpu_lock_acquire_then_release_round_trips_over_http_def
      eval_simps Let_def decimal_uuid_def)

lemma passes_gpu_lock_acquire_times_out_with_503_when_already_held:
  gpu_lock_acquire_times_out_with_503_when_already_held
  by (simp add: gpu_lock_acquire_times_out_with_503_when_already_held_def
      eval_simps Let_def)

lemma passes_gpu_lock_release_with_an_unknown_lease_id_is_a_clear_error_not_a_panic:
  gpu_lock_release_with_an_unknown_lease_id_is_a_clear_error_not_a_panic
  by (simp add: gpu_lock_release_with_an_unknown_lease_id_is_a_clear_error_not_a_panic_def
      eval_simps Let_def decimal_uuid_def)

lemma passes_gpu_lock_release_with_a_malformed_lease_id_is_a_clear_400_not_a_panic:
  gpu_lock_release_with_a_malformed_lease_id_is_a_clear_400_not_a_panic
  by (simp add: gpu_lock_release_with_a_malformed_lease_id_is_a_clear_400_not_a_panic_def
      eval_simps Let_def decimal_uuid_def)

text \<open>Here the rest of a response is its headers and its body.\<close>

definition llama_server_response_headers_are_forwarded :: bool where
  "llama_server_response_headers_are_forwarded =
     (let upstream = ([(''x-llama-server-marker'', ''from-upstream'')], Obj [(''choices'', Arr [])]);
          ans = \<lparr>restore_answer = None, warm_answer = Unreachable, save_answer = None,
                 post_answer = Reply 200 (Some upstream)\<rparr>;
          body = Obj [(''messages'', Arr [message ''user'' ''hi''])];
          (head, acts) = chat_job ans body \<lparr>slot_id = 0, cache_ready = False\<rparr>
      in case chat_answer (\<lambda>_. ''unreachable'') (Some head) of
           Relayed code (Some (headers, b)) \<Rightarrow>
             code = 200 \<and> map_of headers ''x-llama-server-marker'' = Some ''from-upstream''
         | _ \<Rightarrow> False)"

lemma passes_llama_server_response_headers_are_forwarded:
  llama_server_response_headers_are_forwarded
  by (simp add: llama_server_response_headers_are_forwarded_def eval_simps Let_def)

lemmas server_tests_pass =
  passes_llama_server_response_headers_are_forwarded
  passes_cold_request_warms_slot_then_forwards_and_saves
  passes_llama_server_error_status_and_body_are_forwarded_untouched
  passes_warm_up_request_includes_tools_from_the_real_client_request
  passes_two_models_with_the_same_prefix_never_share_a_saved_or_resident_slot
  passes_hint_less_admission_clears_stale_resident_prefix_on_the_slot_it_lands_on
  passes_queue_timeout_returns_503_not_a_hang
  passes_residency_matches_the_shared_contract
  passes_residency_without_upstream_or_gpu_still_answers
  passes_status_reports_llama_server_url
  passes_a_spoofed_host_header_is_rejected_on_every_route
  passes_loopback_host_headers_with_any_port_are_accepted
  passes_a_missing_host_header_is_rejected
  passes_a_configured_extra_allowed_host_is_accepted
  passes_slots_reports_scheduler_snapshot
  passes_a_hung_gpu_probe_still_answers_within_the_deadline
  passes_a_hung_probe_is_never_stacked_past_the_cache_ttl
  passes_an_outstanding_probe_blocks_a_new_one_even_after_the_backoff
  passes_a_probe_killed_at_its_deadline_backs_off
  passes_a_stale_reading_is_not_served_while_a_probe_is_stuck
  passes_back_to_back_residency_requests_share_one_probe
  passes_gpu_lock_acquire_then_release_round_trips_over_http
  passes_gpu_lock_acquire_times_out_with_503_when_already_held
  passes_gpu_lock_release_with_an_unknown_lease_id_is_a_clear_error_not_a_panic
  passes_gpu_lock_release_with_a_malformed_lease_id_is_a_clear_400_not_a_panic

end
