(* ===== verification/Stream_Tests.thy ===== *)
theory Stream_Tests
  imports Chat_Service Api Scheduler_Tests Server_Tests
begin

text \<open>
  The tests of src/src/server.rs whose requests stay open: clients that hang up before the
  response or in the middle of it, a client that never reads, and bodies above the two limits.
  They run on the events of Chat_Service and on the router of Api.
\<close>

section \<open>Scripts of service events\<close>

definition then_check ::
  "nat service_event list \<Rightarrow> nat service \<Rightarrow> (nat service \<Rightarrow> bool) \<Rightarrow> bool" where
  "then_check es s check =
     (case run_service (from_secs 5) es s of None \<Rightarrow> False | Some s' \<Rightarrow> check s')"

definition slot_busy :: "nat service \<Rightarrow> bool" where
  "slot_busy s = (map snap_busy (snapshot (shared (net s))) = [True])"

text \<open>The state of a request's relay, and what has not been read of its upstream response.\<close>

definition stream_of :: "nat \<Rightarrow> nat service \<Rightarrow> nat relay option" where
  "stream_of i s = (case jobs s i of Streaming code r \<Rightarrow> Some r | _ \<Rightarrow> None)"

definition upstream_done :: "nat \<Rightarrow> nat service \<Rightarrow> bool" where
  "upstream_done i s = (case stream_of i s of None \<Rightarrow> False | Some r \<Rightarrow> upstream r = [])"

definition user_body :: json where
  "user_body = Obj [(''messages'', Arr [message ''user'' ''hi''])]"

definition upstream_sends :: "nat item list \<Rightarrow> nat item list answers" where
  "upstream_sends us =
     \<lparr>restore_answer = None, warm_answer = Unreachable, save_answer = None,
      post_answer = Reply 200 (Some us)\<rparr>"

text \<open>A request up to its post, and up to the head of its response.\<close>

definition upto_post :: "nat \<Rightarrow> nat item list \<Rightarrow> nat service_event list" where
  "upto_post i us = [Arrive i user_body, Admit i (upstream_sends us), Work i None, Work i None]"

lemmas script_defs [eval_simps] =
  then_check_def slot_busy_def stream_of_def upstream_done_def user_body_def upstream_sends_def
  upto_post_def

section \<open>Clients that leave or do not read\<close>

text \<open>
  Request 0 hangs up before llama-server has answered; request 1 gets the slot only after
  the upstream response of request 0 has been read.
\<close>

definition a_client_disconnect_keeps_the_slot_until_the_upstream_job_finishes :: bool where
  "a_client_disconnect_keeps_the_slot_until_the_upstream_job_finishes =
     then_check (upto_post 0 [Chunk 1] @ [Leave 0]) (service_start 1 []) (\<lambda>s.
       slot_busy s \<and>
       then_check [Arrive 1 user_body, Admit 1 (upstream_sends [Chunk 2])] s (\<lambda>s.
         pending 1 (net s) \<and>
         then_check [Work 0 None, Work 0 None] s (\<lambda>s.
           slot_busy s \<and> upstream_done 0 s \<and>
           then_check
             [Work 0 None, Work 0 None, Admit 1 (upstream_sends [Chunk 2]), Work 1 None, Work 1 None,
              Work 1 None, Work 1 None, Work 1 None, Work 1 None, Work 1 None, Work 1 None,
              Read 1, Read 1] s (\<lambda>s.
             \<not> slot_busy s \<and>
             (case stream_of 1 s of
                None \<Rightarrow> False
              | Some r \<Rightarrow> received r = [Chunk 2] \<and> ending r = Complete)))))"

definition a_client_disconnect_mid_stream_keeps_the_slot_until_the_upstream_stream_ends :: bool where
  "a_client_disconnect_mid_stream_keeps_the_slot_until_the_upstream_stream_ends =
     then_check (upto_post 0 (replicate 6 (Chunk 1)) @ [Work 0 None, Leave 0]) (service_start 1 []) (\<lambda>s.
       slot_busy s \<and>
       then_check (replicate 8 (Work 0 None)) s (\<lambda>s.
         slot_busy s \<and> upstream_done 0 s \<and>
         then_check [Work 0 None] s (\<lambda>s. \<not> slot_busy s)))"

lemma passes_a_client_disconnect_keeps_the_slot_until_the_upstream_job_finishes:
  a_client_disconnect_keeps_the_slot_until_the_upstream_job_finishes
  by (simp add: a_client_disconnect_keeps_the_slot_until_the_upstream_job_finishes_def eval_simps Let_def)


lemma passes_a_client_disconnect_mid_stream_keeps_the_slot_until_the_upstream_stream_ends:
  a_client_disconnect_mid_stream_keeps_the_slot_until_the_upstream_stream_ends
  by (simp add: a_client_disconnect_mid_stream_keeps_the_slot_until_the_upstream_stream_ends_def
      eval_simps Let_def)

text \<open>
  Four times as many chunks as the channel holds, to a client that reads none of them: after
  the timeout of one send the rest is read without it. Reading then ends in an error.
\<close>

definition a_connected_client_that_never_reads_does_not_hold_the_slot :: bool where
  "a_connected_client_that_never_reads_does_not_hold_the_slot =
     then_check
       (upto_post 0 (replicate (forward_channel_chunks * 4) (Chunk 1)) @ [Work 0 None] @
        replicate 83 (Work 0 None)) (service_start 1 []) (\<lambda>s.
       \<not> slot_busy s \<and> upstream_done 0 s \<and>
       then_check (replicate 17 (Read 0)) s (\<lambda>s.
         case stream_of 0 s of None \<Rightarrow> False | Some r \<Rightarrow> ending r = Failed))"

lemma passes_a_connected_client_that_never_reads_does_not_hold_the_slot:
  a_connected_client_that_never_reads_does_not_hold_the_slot
  by (simp add: a_connected_client_that_never_reads_does_not_hold_the_slot_def eval_simps Let_def)

section \<open>The body limit\<close>

definition chat_call :: "string \<Rightarrow> json http_request" where
  "chat_call text =
     (demo_call ''POST'' ''/v1/chat/completions'' (Obj [(''messages'', Arr [message ''user'' text])]))
       \<lparr>content_length := length text + 46\<rparr>"

definition big_text :: string where
  "big_text = replicate (3 * 1024 * 1024) CHR ''x''"

definition limited_app :: "u64 \<Rightarrow> app_state" where
  "limited_app limit = demo_app\<lparr>app_max_request_body_bytes := limit\<rparr>"

text \<open>The text of the user's message in the body that is posted for an admitted request.\<close>

fun posted_text :: "action list \<Rightarrow> string option" where
  "posted_text acts =
     (case List.map_filter posted acts of
        [b] \<Rightarrow>
          (case Option.bind (json_get ''messages'' b) as_array of
             Some [m] \<Rightarrow> Option.bind (json_get ''content'' m) as_str
           | _ \<Rightarrow> None)
      | _ \<Rightarrow> None)"

definition a_request_larger_than_axums_2mb_default_is_forwarded :: bool where
  "a_request_larger_than_axums_2mb_default_is_forwarded =
     (case fst (serve demo_outside (chat_call big_text)
         (limited_app default_max_request_body_bytes, [])) of
        Awaits_Slot body \<Rightarrow>
          (let (head, acts) = chat_job (upstream_sends [Chunk 1]) body \<lparr>slot_id = 0, cache_ready = False\<rparr>
           in head = Head 200 (Some [Chunk 1]) \<and>
              map_option length (posted_text acts) = Some (length big_text))
      | _ \<Rightarrow> False)"

definition a_request_over_the_configured_body_limit_is_rejected :: bool where
  "a_request_over_the_configured_body_limit_is_rejected =
     (case fst (serve demo_outside (chat_call (replicate 2048 CHR ''x'')) (limited_app 1024, [])) of
        Answered r \<Rightarrow> resp_status r = 413
      | _ \<Rightarrow> False)"

lemma length_big_text: "length big_text = 3145728"
  by (simp add: big_text_def)

lemma demo_guard:
  "app_allowed_hosts s = [] \<Longrightarrow> req_host req = Some ''localhost:8899'' \<Longrightarrow>
     serve x req (s, sent) = dispatch x req (route (req_method req) (req_path req)) (s, sent)"
  by (simp add: serve_def guard_covers_every_route host_defs strip_port_def eval_simps)

lemma demo_chat:
  "serve demo_outside (chat_call text) (limited_app limit, []) =
     (if unat limit < length text + 46
      then (Answered \<lparr>resp_status = 413, resp_body = Str ''length limit exceeded''\<rparr>, limited_app limit, [])
      else (Awaits_Slot (Obj [(''messages'', Arr [message ''user'' text])]), limited_app limit, []))"
  by (subst demo_guard)
    (simp_all add: chat_call_def limited_app_def demo_defs route_def post_route_def Let_def)

lemma passes_a_request_larger_than_axums_2mb_default_is_forwarded:
  a_request_larger_than_axums_2mb_default_is_forwarded
  by (simp add: a_request_larger_than_axums_2mb_default_is_forwarded_def demo_chat length_big_text
      default_max_request_body_bytes_def chat_job_def split_request_def send_upstream_def send_post_def
      upstream_sends_def forward_head_def post_body_def message_def Let_def)

lemma passes_a_request_over_the_configured_body_limit_is_rejected:
  a_request_over_the_configured_body_limit_is_rejected
  by (simp add: a_request_over_the_configured_body_limit_is_rejected_def demo_chat)

lemmas stream_tests_pass =
  passes_a_client_disconnect_keeps_the_slot_until_the_upstream_job_finishes
  passes_a_client_disconnect_mid_stream_keeps_the_slot_until_the_upstream_stream_ends
  passes_a_connected_client_that_never_reads_does_not_hold_the_slot
  passes_a_request_larger_than_axums_2mb_default_is_forwarded
  passes_a_request_over_the_configured_body_limit_is_rejected

end
