(* ===== verification/Unit_Tests.thy ===== *)
theory Unit_Tests
  imports Scheduler_Tests Gpu_Lock_Tests Reader_Tests Config_Tests Server_Tests Stream_Tests
begin

text \<open>
  The repository's own unit tests, all together: the model does what the tests of the code
  demand of the code.
\<close>

text \<open>
  The model passes the unit tests of the program. Each of these scenarios, taken over from
  the test modules of scheduler.rs, gpu_lock.rs, host_guard.rs, gpu.rs, llama_client.rs, config.rs and
  server.rs and run on the definitions of this development, ends with all its assertions true.
\<close>

lemma unit_tests_pass:
  "admits_free_slot_with_no_hint \<and>
   second_admission_for_same_prefix_on_idle_slot_is_cache_ready \<and>
   preferred_slot_busy_queues_for_that_slot_specifically \<and>
   no_free_slots_and_no_preference_times_out_with_clear_error \<and>
   seed_busy_marks_slot_unavailable_until_explicitly_released \<and>
   snapshot_reflects_busy_and_resident_state \<and>
   release_retries_timed_out_waiters_preserving_fifo_for_slot \<and>
   dropping_a_woken_waiter_before_repolling_does_not_leak_the_slot \<and>
   reconcile_seeded_idle_frees_a_never_claimed_seeded_slot \<and>
   reconcile_seeded_idle_is_a_no_op_for_a_slot_claimed_by_the_broker \<and>
   fallback_admission_spreads_across_slots_via_lru_not_first_free \<and>
   ping_pong_between_two_prefixes_uses_more_than_one_slot \<and>
   release_wakes_a_second_waiter_even_if_the_first_woken_one_is_dropped_unpolled \<and>
   out_of_range_preferred_slot_falls_back_instead_of_hanging_the_full_timeout \<and>
   out_of_range_preferred_slot_under_contention_falls_back_instead_of_hanging \<and>
   reconcile_seeded_idle_wakes_a_queued_waiter \<and>
   a_resident_prefix_from_another_model_is_never_cache_ready \<and>
   a_general_waiter_cannot_steal_a_slot_a_specific_waiter_is_queued_for \<and>
   clear_resident_removes_stale_prefix_bookkeeping \<and>
   acquire_and_release_round_trips \<and>
   a_second_acquire_waits_for_the_first_release \<and>
   acquire_times_out_clearly_when_never_released \<and>
   releasing_an_unknown_or_already_released_lease_is_a_clear_error \<and>
   release_rejects_a_lease_that_does_not_match_the_current_holder \<and>
   release_wakes_every_queued_waiter_not_just_the_first \<and>
   reap_expired_force_releases_a_lease_past_max_hold \<and>
   reap_expired_is_a_no_op_when_nothing_is_held_or_the_hold_is_still_fresh \<and>
   a_late_release_after_reap_cannot_steal_the_next_holders_lock \<and>
   reap_expired_wakes_a_queued_waiter \<and>
   evil_host_is_rejected \<and>
   localhost_with_any_port_is_allowed \<and>
   ipv4_loopback_range_with_any_port_is_allowed \<and>
   ipv4_outside_loopback_range_is_rejected \<and>
   bracketed_ipv6_loopback_with_any_port_is_allowed \<and>
   non_loopback_ipv6_is_rejected \<and>
   extra_allowed_host_is_accepted_with_any_port \<and>
   nvidia_smi_output_sums_every_gpu \<and>
   amd_sysfs_picks_the_card_with_the_most_vram \<and>
   amd_sysfs_without_vram_files_is_none \<and>
   a_mixed_line_with_na_makes_the_whole_probe_none \<and>
   the_none_source_never_probes \<and>
   parses_real_slots_response_shape \<and>
   parse_models_reads_router_statuses_and_single_model_servers \<and>
   seed_scheduler_marks_processing_slots_busy \<and>
   fetch_slots_hits_the_real_endpoint_path \<and>
   run_with_deadline_returns_a_quick_commands_stdout \<and>
   run_with_deadline_kills_a_hung_command \<and>
   parses_required_and_default_fields \<and>
   allowed_hosts_parses_a_comma_separated_list \<and>
   overrides_apply \<and>
   vram_source_defaults_to_auto_and_parses \<and>
   llama_server_response_headers_are_forwarded \<and>
   cold_request_warms_slot_then_forwards_and_saves \<and>
   llama_server_error_status_and_body_are_forwarded_untouched \<and>
   warm_up_request_includes_tools_from_the_real_client_request \<and>
   two_models_with_the_same_prefix_never_share_a_saved_or_resident_slot \<and>
   hint_less_admission_clears_stale_resident_prefix_on_the_slot_it_lands_on \<and>
   queue_timeout_returns_503_not_a_hang \<and>
   residency_matches_the_shared_contract \<and>
   residency_without_upstream_or_gpu_still_answers \<and>
   status_reports_llama_server_url \<and>
   a_spoofed_host_header_is_rejected_on_every_route \<and>
   loopback_host_headers_with_any_port_are_accepted \<and>
   a_missing_host_header_is_rejected \<and>
   a_configured_extra_allowed_host_is_accepted \<and>
   slots_reports_scheduler_snapshot \<and>
   a_hung_gpu_probe_still_answers_within_the_deadline \<and>
   a_hung_probe_is_never_stacked_past_the_cache_ttl \<and>
   an_outstanding_probe_blocks_a_new_one_even_after_the_backoff \<and>
   a_probe_killed_at_its_deadline_backs_off \<and>
   a_stale_reading_is_not_served_while_a_probe_is_stuck \<and>
   back_to_back_residency_requests_share_one_probe \<and>
   gpu_lock_acquire_then_release_round_trips_over_http \<and>
   gpu_lock_acquire_times_out_with_503_when_already_held \<and>
   gpu_lock_release_with_an_unknown_lease_id_is_a_clear_error_not_a_panic \<and>
   gpu_lock_release_with_a_malformed_lease_id_is_a_clear_400_not_a_panic \<and>
   a_client_disconnect_keeps_the_slot_until_the_upstream_job_finishes \<and>
   a_client_disconnect_mid_stream_keeps_the_slot_until_the_upstream_stream_ends \<and>
   a_connected_client_that_never_reads_does_not_hold_the_slot \<and>
   a_request_larger_than_axums_2mb_default_is_forwarded \<and>
   a_request_over_the_configured_body_limit_is_rejected"
  by (intro conjI scheduler_tests_pass lock_tests_pass reader_tests_pass config_tests_pass server_tests_pass
      stream_tests_pass)

end
